(* ===== verification/BBP_Prelude.thy ===== *)
theory BBP_Prelude
  imports Main "HOL-Library.Word" "HOL-Library.Multiset" "HOL-Library.Sublist"
begin

text \<open>
  Shared vocabulary of the development.

  \<^item> Machine integers: \<open>std::uint64_t\<close> and \<open>std::uint32_t\<close> values on which the code
    guards against overflow are words of that width; sizes and indexes
    (\<open>std::size_t\<close>, node indexes), which never come near their bound, are \<open>nat\<close>.
  \<^item> Exceptions: a throwing C++ function returns a \<open>result\<close>. \<open>Inl\<close> carries the
    exception class and the message, \<open>Inr\<close> the value. A member function that changes
    its object returns the object as well, also when it throws, so that what a
    throwing call leaves behind is visible.
    \<open>Terminated\<close> is \<open>std::terminate\<close>, and \<open>Diverged\<close> stands for a call that never returns.
  \<^item> Loops over a container are recursion over the list; a loop whose body may
    throw is \<open>fold_result\<close>.
  \<^item> Machines: \<open>run\<close> executes a sequence of operations on an object, in the
    order in which the threads of the program enter its critical sections.
\<close>

subsection \<open>Types\<close>

type_synonym u32 = "32 word"
type_synonym u64 = "64 word"

datatype exn =
    RuntimeError string
  | InvalidArgument string
  | LogicError string
  | OutOfRange string
  | OverflowError string
  | Terminated
  | Diverged

type_synonym 'a result = "exn + 'a"

abbreviation max_u64 :: u64 where
  "max_u64 \<equiv> - 1"

abbreviation max_u32 :: u32 where
  "max_u32 \<equiv> - 1"

named_theorems no_wrap
  \<open>reading a guarded machine operation as the operation on natural numbers\<close>

named_theorems result_simps
  \<open>success and failure of composed throwing functions\<close>

subsection \<open>Results\<close>

fun bind_result :: "'a result \<Rightarrow> ('a \<Rightarrow> 'b result) \<Rightarrow> 'b result" where
  "bind_result (Inl e) f = Inl e"
| "bind_result (Inr x) f = f x"

definition require :: "bool \<Rightarrow> exn \<Rightarrow> unit result" where
  "require ok e = (if ok then Inr () else Inl e)"

fun ok :: "'a result \<Rightarrow> bool" where
  "ok (Inl e) = False"
| "ok (Inr x) = True"

text \<open>A loop whose body may throw: the state built so far is lost with the frame.\<close>

fun fold_result :: "('a \<Rightarrow> 'b \<Rightarrow> 'b result) \<Rightarrow> 'a list \<Rightarrow> 'b \<Rightarrow> 'b result" where
  "fold_result f [] b = Inr b"
| "fold_result f (x # xs) b = bind_result (f x b) (fold_result f xs)"

text \<open>A loop that only checks: the first failing element decides the exception.\<close>

fun check_all :: "('a \<Rightarrow> unit result) \<Rightarrow> 'a list \<Rightarrow> unit result" where
  "check_all f [] = Inr ()"
| "check_all f (x # xs) = bind_result (f x) (\<lambda>_. check_all f xs)"

lemma bind_result_Inr [result_simps]:
  "bind_result m f = Inr y \<longleftrightarrow> (\<exists>x. m = Inr x \<and> f x = Inr y)"
  by (cases m) auto

lemma bind_result_Inl [result_simps]:
  "bind_result m f = Inl e \<longleftrightarrow> m = Inl e \<or> (\<exists>x. m = Inr x \<and> f x = Inl e)"
  by (cases m) auto

lemma require_Inr [result_simps]: "require c e = Inr u \<longleftrightarrow> c"
  by (simp add: require_def)

lemma require_Inl [result_simps]: "require c e = Inl e' \<longleftrightarrow> \<not> c \<and> e' = e"
  by (auto simp: require_def)

lemma require_simps [simp]: "require True e = Inr ()" "require False e = Inl e"
  by (simp_all add: require_def)

lemma ok_iff: "ok r \<longleftrightarrow> (\<exists>x. r = Inr x)"
  by (cases r) auto

lemma ok_bind [simp]: "ok (bind_result m f) \<longleftrightarrow> (\<exists>x. m = Inr x \<and> ok (f x))"
  by (cases m) auto

lemma ok_require [simp]: "ok (require c e) \<longleftrightarrow> c"
  by (simp add: require_def)

lemma check_all_Inr [result_simps]:
  "check_all f xs = Inr u \<longleftrightarrow> (\<forall>x\<in>set xs. f x = Inr ())"
  by (induction xs) (auto simp: result_simps)

lemma bind_result_assoc:
  "bind_result (bind_result m f) g = bind_result m (\<lambda>x. bind_result (f x) g)"
  by (cases m) auto

lemma fold_result_append:
  "fold_result f (xs @ ys) b = bind_result (fold_result f xs b) (fold_result f ys)"
proof (induction xs arbitrary: b)
  case (Cons x xs)
  then have "fold_result f (xs @ ys) = (\<lambda>b. bind_result (fold_result f xs b) (fold_result f ys))"
    by (intro ext)
  then show ?case by (simp add: bind_result_assoc)
qed simp

text \<open>The loop rule: what every iteration keeps, the loop keeps.\<close>

lemma fold_result_invariant:
  assumes "fold_result f xs b = Inr c" and "P b"
    and "\<And>x b b'. x \<in> set xs \<Longrightarrow> P b \<Longrightarrow> f x b = Inr b' \<Longrightarrow> P b'"
  shows "P c"
  using assms
proof (induction xs arbitrary: b)
  case (Cons x xs)
  then obtain b' where b': "f x b = Inr b'" "fold_result f xs b' = Inr c"
    by (auto simp: result_simps)
  have "P b'" using Cons.prems(2) Cons.prems(3) [OF _ _ b'(1)] by simp
  then show ?case using Cons.IH [OF b'(2)] Cons.prems(3) by (meson list.set_intros(2))
qed simp

text \<open>The loop does not throw when no iteration does from an invariant state.\<close>

lemma fold_result_total:
  assumes "P b" and "\<And>x b. x \<in> set xs \<Longrightarrow> P b \<Longrightarrow> \<exists>b'. f x b = Inr b' \<and> P b'"
  shows "\<exists>c. fold_result f xs b = Inr c \<and> P c"
  using assms
proof (induction xs arbitrary: b)
  case (Cons x xs)
  obtain b' where "f x b = Inr b'" "P b'" using Cons.prems by force
  then show ?case using Cons.IH [of b'] Cons.prems(2) by simp
qed simp

text \<open>A counting loop with an invariant that speaks of the counter.\<close>

lemma fold_result_upt:
  assumes "I a s" "a \<le> b" "\<And>m s. a \<le> m \<Longrightarrow> m < b \<Longrightarrow> I m s \<Longrightarrow> \<exists>s'. f m s = Inr s' \<and> I (Suc m) s'"
  shows "\<exists>s'. fold_result f [a..<b] s = Inr s' \<and> I b s'"
  using assms
proof (induction "b - a" arbitrary: a s)
  case (Suc k)
  then obtain s' where s': "f a s = Inr s'" "I (Suc a) s'" by fastforce
  have "\<exists>s''. fold_result f [Suc a..<b] s' = Inr s'' \<and> I b s''"
    using Suc s'(2) by (intro Suc.hyps) auto
  then show ?case using s'(1) Suc by (simp add: upt_conv_Cons)
qed simp

subsection \<open>Guarded machine arithmetic\<close>

text \<open>The idioms \<open>a > max - b\<close>, \<open>++counter\<close> below the maximum and \<open>a -= b\<close> under \<open>b <= a\<close>.\<close>

lemma two_to_64: "(2 :: nat) ^ 64 = 18446744073709551616"
  by simp

lemma two_to_32: "(2 :: nat) ^ 32 = 4294967296"
  by simp

lemma u64_lt [simp]: "unat (a :: u64) < 18446744073709551616"
  using unsigned_less [of a, where 'a = nat] by simp

lemma u64_max [simp]: "unat (max_u64) = 18446744073709551615"
  by (simp add: unsigned_minus_1_eq_mask mask_eq_exp_minus_1)

lemma u64_add_guard [no_wrap]:
  fixes a b :: u64
  shows "max_u64 - b < a \<longleftrightarrow> 18446744073709551616 \<le> unat a + unat b"
proof -
  have "unat (max_u64 - b) = unat max_u64 - unat b"
    by (rule unat_sub) simp
  with u64_lt [of b] show ?thesis unfolding word_less_nat_alt u64_max by linarith
qed

lemma u64_add_exact [no_wrap]:
  fixes a b :: u64
  assumes "unat a + unat b < 18446744073709551616"
  shows "unat (a + b) = unat a + unat b"
  using assms by (simp add: unat_word_ariths)

lemma u64_sub_exact [no_wrap]:
  fixes a b :: u64
  assumes "b \<le> a"
  shows "unat (a - b) = unat a - unat b"
  using assms by (rule unat_sub)

lemma u64_succ_exact [no_wrap]:
  fixes a :: u64
  assumes "a \<noteq> max_u64"
  shows "unat (a + 1) = Suc (unat a)"
proof -
  have "unat a \<noteq> unat max_u64" using assms by (metis word_unat_eq_iff)
  then have "unat a + 1 < 18446744073709551616" using u64_lt [of a] unfolding u64_max by linarith
  then show ?thesis by (simp add: unat_word_ariths)
qed

text \<open>Where 64-bit values are modelled as \<open>nat\<close>, a subtraction is written with its wrap-around.\<close>

definition sub_u64 :: "nat \<Rightarrow> nat \<Rightarrow> nat" where
  "sub_u64 a b = (a + 2 ^ 64 - b) mod 2 ^ 64"

lemma sub_u64_exact [no_wrap]:
  assumes "b \<le> a" and "a < 2 ^ 64"
  shows "sub_u64 a b = a - b"
proof -
  have "a + 2 ^ 64 - b = 2 ^ 64 + (a - b)" using assms(1) by simp
  moreover have "a - b < 2 ^ 64" using assms(2) by simp
  ultimately show ?thesis unfolding sub_u64_def by (metis mod_add_self1 mod_less)
qed

subsection \<open>Text for the C library\<close>

text \<open>What a C function reads of \<open>std::string::c_str\<close>: the text up to its first zero character.\<close>

definition c_str :: "string \<Rightarrow> string" where
  "c_str s = takeWhile (\<lambda>c. c \<noteq> CHR 0x00) s"

subsection \<open>Decimal text\<close>

text \<open>\<open>std::to_string\<close> of an unsigned value.\<close>

definition digit_char :: "nat \<Rightarrow> char" where
  "digit_char d = char_of (48 + d)"

fun to_string :: "nat \<Rightarrow> string" where
  "to_string n = (if n < 10 then [digit_char n]
     else to_string (n div 10) @ [digit_char (n mod 10)])"

declare to_string.simps [simp del]

text \<open>The digits of a decimal number and their value.\<close>

definition is_digit :: "char \<Rightarrow> bool" where
  "is_digit c \<longleftrightarrow> (of_char (CHR ''0'') :: nat) \<le> of_char c \<and> (of_char c :: nat) \<le> of_char (CHR ''9'')"

definition digit_value :: "char \<Rightarrow> nat" where
  "digit_value c = of_char c - of_char (CHR ''0'')"

definition decimal_value :: "string \<Rightarrow> nat" where
  "decimal_value s = foldl (\<lambda>value c. value * 10 + digit_value c) 0 s"

lemma of_char_digit_char: "d < 10 \<Longrightarrow> (of_char (digit_char d) :: nat) = 48 + d"
  by (simp add: digit_char_def)

lemma digit_char_is_digit [simp]: "d < 10 \<Longrightarrow> is_digit (digit_char d)"
  by (simp add: is_digit_def of_char_digit_char)

lemma digit_value_digit_char [simp]: "d < 10 \<Longrightarrow> digit_value (digit_char d) = d"
  by (simp add: digit_value_def of_char_digit_char)

lemma decimal_value_snoc: "decimal_value (s @ [c]) = decimal_value s * 10 + digit_value c"
  by (simp add: decimal_value_def)

lemma to_string_digits [simp]: "list_all is_digit (to_string n)"
proof (induction n rule: to_string.induct)
  case (1 n)
  show ?case
  proof (cases "n < 10")
    case True
    then show ?thesis by (simp add: to_string.simps [of n])
  next
    case False
    then show ?thesis using 1 by (subst to_string.simps) simp
  qed
qed

lemma to_string_not_Nil [simp]: "to_string n \<noteq> []"
  by (subst to_string.simps) simp

lemma decimal_value_to_string [simp]: "decimal_value (to_string n) = n"
proof (induction n rule: to_string.induct)
  case (1 n)
  show ?case
  proof (cases "n < 10")
    case True
    then show ?thesis by (simp add: to_string.simps [of n] decimal_value_def)
  next
    case False
    then have "to_string n = to_string (n div 10) @ [digit_char (n mod 10)]"
      by (subst to_string.simps) simp
    then show ?thesis using 1 [OF False] by (simp add: decimal_value_snoc)
  qed
qed

lemma hd_to_string [simp]: "is_digit (hd (to_string n))"
  using to_string_digits [of n] by (cases "to_string n") auto

subsection \<open>Duplicate detection\<close>

text \<open>The loop \<open>for (x : xs) if (!seen.insert(x).second) throw\<close> accepts exactly the
  lists without repetition.\<close>

fun has_duplicate :: "'a list \<Rightarrow> 'a set \<Rightarrow> bool" where
  "has_duplicate [] seen = False"
| "has_duplicate (x # xs) seen = (x \<in> seen \<or> has_duplicate xs (insert x seen))"

lemma has_duplicate_iff:
  "has_duplicate xs seen \<longleftrightarrow> \<not> (distinct xs \<and> set xs \<inter> seen = {})"
  by (induction xs arbitrary: seen) auto

lemma find_SomeD: "find P xs = Some x \<Longrightarrow> x \<in> set xs \<and> P x"
  by (induction xs) (auto split: if_splits)

subsection \<open>Ordered maps and sets\<close>

text \<open>\<open>std::map\<close> and \<open>std::set\<close> where the iteration order matters: lists sorted by key.\<close>

fun smap_insert :: "'k :: linorder \<Rightarrow> 'v \<Rightarrow> ('k \<times> 'v) list \<Rightarrow> ('k \<times> 'v) list" where
  "smap_insert k v [] = [(k, v)]"
| "smap_insert k v ((k', v') # m) =
     (if k < k' then (k, v) # (k', v') # m
      else if k = k' then (k, v) # m
      else (k', v') # smap_insert k v m)"

definition sorted_keys :: "('k :: linorder \<times> 'v) list \<Rightarrow> bool" where
  "sorted_keys m = sorted_wrt (<) (map fst m)"

definition sset_insert :: "'a :: linorder \<Rightarrow> 'a list \<Rightarrow> 'a list" where
  "sset_insert x xs = (if x \<in> set xs then xs else insort x xs)"

lemma sorted_keys_simps [simp]:
  "sorted_keys []"
  "sorted_keys (p # m) \<longleftrightarrow> (\<forall>q\<in>set m. fst p < fst q) \<and> sorted_keys m"
  by (auto simp: sorted_keys_def)

lemma map_of_smap_insert [simp]: "map_of (smap_insert k v m) = (map_of m)(k \<mapsto> v)"
  by (induction k v m rule: smap_insert.induct) (auto simp: fun_eq_iff)

lemma keys_smap_insert [simp]: "fst ` set (smap_insert k v m) = insert k (fst ` set m)"
  by (induction k v m rule: smap_insert.induct) auto

lemma sorted_keys_smap_insert [simp]: "sorted_keys m \<Longrightarrow> sorted_keys (smap_insert k v m)"
proof (induction k v m rule: smap_insert.induct)
  case (2 k v k' v' m)
  have "fst q \<in> insert k (fst ` set m)" if "q \<in> set (smap_insert k v m)" for q
    using that keys_smap_insert [of k v m] by (metis imageI)
  with 2 show ?case by fastforce
qed simp

lemma set_smap_insert: "set (smap_insert k v m) \<subseteq> insert (k, v) (set m)"
  by (induction k v m rule: smap_insert.induct) auto

lemma sorted_keys_distinct: "sorted_keys m \<Longrightarrow> distinct (map fst m)"
  by (induction m) force+

lemma set_sset_insert [simp]: "set (sset_insert x xs) = insert x (set xs)"
  by (auto simp: sset_insert_def set_insort_key)

lemma sset_insert_sorted [simp]: "sorted xs \<Longrightarrow> sorted (sset_insert x xs)"
  by (simp add: sset_insert_def sorted_insort)

lemma sset_insert_distinct [simp]: "distinct xs \<Longrightarrow> distinct (sset_insert x xs)"
  by (simp add: sset_insert_def distinct_insort)

subsection \<open>Runs of operations\<close>

fun run :: "('s \<Rightarrow> 'op \<Rightarrow> 's \<times> 'out) \<Rightarrow> 's \<Rightarrow> 'op list \<Rightarrow> 's \<times> 'out list" where
  "run exec s [] = (s, [])"
| "run exec s (x # xs) = (let (s', out) = exec s x; (s'', outs) = run exec s' xs in (s'', out # outs))"

lemma run_append:
  "fst (run exec s (xs @ ys)) = fst (run exec (fst (run exec s xs)) ys)"
  by (induction xs arbitrary: s) (simp_all add: split_def Let_def)

text \<open>What the operations of a run contribute, one list per operation.\<close>

fun collect :: "('s \<Rightarrow> 'op \<Rightarrow> 's \<times> 'out) \<Rightarrow> ('s \<Rightarrow> 'op \<Rightarrow> 'a list) \<Rightarrow> 's \<Rightarrow> 'op list \<Rightarrow> 'a list" where
  "collect exec f s [] = []"
| "collect exec f s (x # xs) = f s x @ collect exec f (fst (exec s x)) xs"

text \<open>An object whose operations keep an invariant keeps it along every run.\<close>

locale guarded_object =
  fixes exec :: "'s \<Rightarrow> 'op \<Rightarrow> 's \<times> 'out"
    and inv :: "'s \<Rightarrow> bool"
  assumes exec_inv: "inv s \<Longrightarrow> inv (fst (exec s x))"
begin

lemma run_inv: "inv s \<Longrightarrow> inv (fst (run exec s xs))"
  by (induction xs arbitrary: s) (simp_all add: split_def Let_def exec_inv)

end

text \<open>
  A queue: what an operation takes in goes to the back, what it hands out comes from
  the front. One law per operation gives the order and the conservation of the
  elements along every run.
\<close>

locale fifo_object = guarded_object exec inv
  for exec :: "'s \<Rightarrow> 'op \<Rightarrow> 's \<times> 'out"
    and inv :: "'s \<Rightarrow> bool" +
  fixes contents :: "'s \<Rightarrow> 'a list"
    and entered :: "'s \<Rightarrow> 'op \<Rightarrow> 'a list"
    and left :: "'s \<Rightarrow> 'op \<Rightarrow> 'a list"
  assumes exec_fifo:
    "inv s \<Longrightarrow> contents s @ entered s x = left s x @ contents (fst (exec s x))"
begin

lemma run_fifo:
  "inv s \<Longrightarrow>
    contents s @ collect exec entered s xs = collect exec left s xs @ contents (fst (run exec s xs))"
proof (induction xs arbitrary: s)
  case (Cons x xs)
  let ?s = "fst (exec s x)"
  have "contents s @ entered s x @ collect exec entered ?s xs
      = left s x @ (contents ?s @ collect exec entered ?s xs)"
    using exec_fifo [OF Cons.prems, of x] by (metis append.assoc)
  also have "\<dots> = left s x @ collect exec left ?s xs @ contents (fst (run exec ?s xs))"
    using Cons.IH [OF exec_inv [OF Cons.prems]] by simp
  finally show ?case by (simp add: split_def Let_def)
qed simp

lemma run_order: "inv s \<Longrightarrow> contents s = [] \<Longrightarrow> prefix (collect exec left s xs) (collect exec entered s xs)"
  using run_fifo [of s xs] by (metis append_Nil prefixI)

end

end
