(* ===== verification/Address_Plan.thy ===== *)
theory Address_Plan
  imports BBP_Prelude "HOL-Library.Product_Lexorder"
begin

unbundle bit_operations_syntax

text \<open>
  The IPv4 address plan of a simulation, \<open>src/simulation_network_address_plan.cpp\<close>.

  A plan is a pool (base address and prefix length) and the list of /31 links handed
  out to the nodes. Addresses and slots are natural numbers: a base is below \<open>2 ^ 32\<close>
  and every 64-bit intermediate value below \<open>2 ^ 34\<close>, so additions are exact;
  subtractions are written with their wrap-around and the narrowing cast with its
  modulus. The address text library (boost::asio) is the parameter \<open>asio\<close>.

  The lemmas show that the interval computations (sort, merge, search, skip) agree with
  a direct reading of the kernel's routes and addresses, and that an expansion hands
  out the first free links of the pool in rotation order.
\<close>

subsection \<open>Data\<close>

type_synonym Interval = "nat \<times> nat"

record RouteInfo =
  ri_destination :: string
  ri_prefix_len :: nat

record AddressInfo =
  ai_address :: string

record SimulationNetworkAddressPlan =
  pool_base :: nat
  pool_prefix_length :: nat
  link_bases :: "nat list"

text \<open>The address library: parsing and printing of addresses and networks
  (a network is an address with a prefix length), and the network address of a network.\<close>

record asio =
  make_network_v4 :: "string \<Rightarrow> (nat \<times> nat) option"
  make_address_v4 :: "string \<Rightarrow> nat option"
  network_v4_network :: "nat \<times> nat \<Rightarrow> nat"
  network_v4_to_string :: "nat \<times> nat \<Rightarrow> string"
  address_v4_to_string :: "nat \<Rightarrow> string"

datatype json = JString string | JArray "json list" | JObject "(string \<times> json) list" | JOther

definition kNodePrefixLength :: nat where
  "kNodePrefixLength = 31"

definition kAddressesPerNode :: nat where
  "kAddressesPerNode = 2"

subsection \<open>Parsing\<close>

definition StableRunHash :: "string \<Rightarrow> u32" where
  "StableRunHash run_id =
     foldl (\<lambda>hash c. (hash XOR of_char c) * 16777619) 2166136261 run_id"

definition ParseNetwork :: "asio \<Rightarrow> string \<Rightarrow> (nat \<times> nat) result" where
  "ParseNetwork A cidr =
     (case make_network_v4 A cidr of
        None \<Rightarrow> Inl (RuntimeError (''isolated network CIDR must be an aligned IPv4 network: '' @ cidr))
      | Some network \<Rightarrow>
          if fst network \<noteq> network_v4_network A network
          then Inl (RuntimeError (''isolated network CIDR must be an aligned IPv4 network: '' @ cidr))
          else Inr network)"

definition ParsePool :: "asio \<Rightarrow> string \<Rightarrow> (nat \<times> nat) result" where
  "ParsePool A cidr =
     (case make_network_v4 A cidr of
        None \<Rightarrow> Inl (RuntimeError (''isolated network pool must be an IPv4 CIDR: '' @ cidr))
      | Some network \<Rightarrow>
          if snd network > kNodePrefixLength
          then Inl (RuntimeError (''isolated network pool has no /31 node links: '' @ cidr))
          else Inr (network_v4_network A network, snd network))"

definition ParseKernelAddress :: "asio \<Rightarrow> string \<Rightarrow> string \<Rightarrow> nat result" where
  "ParseKernelAddress A address source =
     (case make_address_v4 A address of
        None \<Rightarrow> Inl (RuntimeError (''invalid IPv4 '' @ source @ '' from rtnetlink: '' @ address))
      | Some parsed \<Rightarrow> Inr parsed)"

subsection \<open>Blocked links\<close>

definition AddressCount :: "nat \<Rightarrow> nat" where
  "AddressCount prefix_length = push_bit (32 - prefix_length) 1"

definition AddBlockedRange :: "Interval list \<Rightarrow> nat \<Rightarrow> nat \<Rightarrow> nat \<Rightarrow> nat \<Rightarrow> Interval list" where
  "AddBlockedRange blocked first0 end0 pool_first pool_end =
     (let first = max first0 pool_first; stop = min end0 pool_end in
      if first < stop
      then blocked @ [((first - pool_first) div kAddressesPerNode,
                       (stop - pool_first + kAddressesPerNode - 1) div kAddressesPerNode)]
      else blocked)"

text \<open>The first address of a route: \<open>destination & ~(size - 1)\<close> on 64 bits.\<close>

definition RouteFirst :: "nat \<Rightarrow> nat \<Rightarrow> nat" where
  "RouteFirst address range_size =
     unat ((word_of_nat address :: u64) AND NOT (word_of_nat range_size - 1))"

definition AddRoute :: "asio \<Rightarrow> nat \<Rightarrow> nat \<Rightarrow> RouteInfo \<Rightarrow> Interval list \<Rightarrow> Interval list result" where
  "AddRoute A base pool_end route blocked =
     (if ri_prefix_len route = 0 \<or> ri_prefix_len route > 32 then Inr blocked
      else bind_result (ParseKernelAddress A (ri_destination route) ''route destination'') (\<lambda>address.
        let range_size = AddressCount (ri_prefix_len route); first = RouteFirst address range_size in
        Inr (AddBlockedRange blocked first (first + range_size) base pool_end)))"

definition AddAddress :: "asio \<Rightarrow> nat \<Rightarrow> nat \<Rightarrow> AddressInfo \<Rightarrow> Interval list \<Rightarrow> Interval list result" where
  "AddAddress A base pool_end address blocked =
     bind_result (ParseKernelAddress A (ai_address address) ''address'') (\<lambda>first.
       Inr (AddBlockedRange blocked first (first + 1) base pool_end))"

definition MergeInterval :: "Interval list \<Rightarrow> Interval \<Rightarrow> Interval list" where
  "MergeInterval merged interval =
     (if merged \<noteq> [] \<and> fst interval \<le> snd (last merged)
      then butlast merged @ [(fst (last merged), max (snd (last merged)) (snd interval))]
      else merged @ [interval])"

definition BlockedLinks ::
    "asio \<Rightarrow> nat \<Rightarrow> nat \<Rightarrow> RouteInfo list \<Rightarrow> AddressInfo list \<Rightarrow> nat list \<Rightarrow> Interval list result" where
  "BlockedLinks A base pool_prefix routes addresses reserved =
     (let pool_end = base + AddressCount pool_prefix in
      bind_result (fold_result (AddRoute A base pool_end) routes []) (\<lambda>blocked1.
      bind_result (fold_result (AddAddress A base pool_end) addresses blocked1) (\<lambda>blocked2.
      let blocked3 = foldl (\<lambda>blocked first.
            AddBlockedRange blocked first (first + kAddressesPerNode) base pool_end) blocked2 reserved
      in Inr (foldl MergeInterval [] (sort blocked3)))))"

text \<open>\<open>std::upper_bound\<close> and \<open>std::lower_bound\<close> on a partitioned range: the number of
  leading elements the predicate keeps on the left.\<close>

definition upper_bound_first :: "nat \<Rightarrow> Interval list \<Rightarrow> nat" where
  "upper_bound_first slot blocked = length (takeWhile (\<lambda>interval. \<not> slot < fst interval) blocked)"

definition lower_bound_second :: "nat \<Rightarrow> Interval list \<Rightarrow> nat" where
  "lower_bound_second value blocked = length (takeWhile (\<lambda>interval. snd interval \<le> value) blocked)"

definition IsBlocked :: "nat \<Rightarrow> Interval list \<Rightarrow> bool" where
  "IsBlocked slot blocked =
     (let next = upper_bound_first slot blocked in
      next \<noteq> 0 \<and> slot < snd (blocked ! (next - 1)))"

subsection \<open>The plan\<close>

definition capacity :: "SimulationNetworkAddressPlan \<Rightarrow> nat" where
  "capacity plan = length (link_bases plan) mod 2 ^ 32"

definition PoolCidr :: "asio \<Rightarrow> SimulationNetworkAddressPlan \<Rightarrow> string" where
  "PoolCidr A plan = network_v4_to_string A (pool_base plan, pool_prefix_length plan)"

definition CanonicalPoolCidr :: "asio \<Rightarrow> string \<Rightarrow> string result" where
  "CanonicalPoolCidr A pool_cidr =
     bind_result (ParsePool A pool_cidr) (\<lambda>pool. Inr (network_v4_to_string A pool))"

definition PoolLinkCapacity :: "asio \<Rightarrow> string \<Rightarrow> nat result" where
  "PoolLinkCapacity A pool_cidr =
     bind_result (ParsePool A pool_cidr) (\<lambda>pool.
       Inr ((AddressCount (snd pool) div kAddressesPerNode) mod 2 ^ 32))"

definition SlotCount :: "SimulationNetworkAddressPlan \<Rightarrow> nat" where
  "SlotCount plan = AddressCount (pool_prefix_length plan) div kAddressesPerNode"

definition LinkBase :: "nat \<Rightarrow> nat \<Rightarrow> nat" where
  "LinkBase base slot = (base + slot * kAddressesPerNode) mod 2 ^ 32"

text \<open>The inner loop of \<open>append_available\<close>: push links until \<open>free_end\<close> or the capacity.\<close>

function fill_links :: "nat \<Rightarrow> nat \<Rightarrow> nat \<Rightarrow> nat \<Rightarrow> nat list \<Rightarrow> nat \<times> nat list" where
  "fill_links base new_capacity first free_end links =
     (if first < free_end \<and> length links < new_capacity
      then fill_links base new_capacity (first + 1) free_end (links @ [LinkBase base first])
      else (first, links))"
  by pat_completeness auto
termination
  by (relation "measure (\<lambda>(base, new_capacity, first, free_end, links). free_end - first)") auto

declare fill_links.simps [simp del]

lemma fill_links_first:
  "first \<le> fst (fill_links base new_capacity first free_end links)"
  by (induction base new_capacity first free_end links rule: fill_links.induct)
    (subst fill_links.simps, auto)

text \<open>The outer loop: \<open>intervals\<close> is the rest of the blocked list from the iterator on.\<close>

function append_loop ::
    "nat \<Rightarrow> nat \<Rightarrow> Interval list \<Rightarrow> nat \<Rightarrow> nat \<Rightarrow> nat list \<Rightarrow> nat list" where
  "append_loop base new_capacity intervals first stop links =
     (if first < stop \<and> length links < new_capacity then
        (if intervals \<noteq> [] \<and> fst (hd intervals) \<le> first
         then append_loop base new_capacity (tl intervals) (snd (hd intervals)) stop links
         else let free_end = (if intervals = [] then stop else min stop (fst (hd intervals)));
                  filled = fill_links base new_capacity first free_end links
              in append_loop base new_capacity intervals (fst filled) stop (snd filled))
      else links)"
  by pat_completeness auto
termination
proof (relation "measures [\<lambda>(base, new_capacity, intervals, first, stop, links). length intervals,
    \<lambda>(base, new_capacity, intervals, first, stop, links). stop - first]", goal_cases)
  case (3 base new_capacity intervals first stop links free_end filled)
  then have "first < free_end" by (cases "intervals = []") auto
  then have "filled = fill_links base new_capacity (first + 1) free_end (links @ [LinkBase base first])"
    using 3 by (simp add: fill_links.simps [of _ _ first])
  then have "first < fst filled"
    using fill_links_first [of "first + 1" base new_capacity free_end "links @ [LinkBase base first]"]
    by simp
  then show ?case using 3 by auto
qed (auto simp: length_greater_0_conv)

declare append_loop.simps [simp del]

definition append_available ::
    "nat \<Rightarrow> nat \<Rightarrow> Interval list \<Rightarrow> nat \<Rightarrow> nat \<Rightarrow> nat list \<Rightarrow> nat list" where
  "append_available base new_capacity blocked first stop links =
     append_loop base new_capacity (drop (lower_bound_second first blocked) blocked) first stop links"

definition ExpandedFrom ::
    "asio \<Rightarrow> SimulationNetworkAddressPlan \<Rightarrow> nat \<Rightarrow> RouteInfo list \<Rightarrow> AddressInfo list \<Rightarrow> nat
     \<Rightarrow> SimulationNetworkAddressPlan result" where
  "ExpandedFrom A plan new_capacity routes addresses first_slot =
     (if new_capacity < capacity plan
      then Inl (RuntimeError ''isolated network reservations cannot shrink'')
      else if new_capacity = capacity plan then Inr plan
      else
        bind_result (BlockedLinks A (pool_base plan) (pool_prefix_length plan) routes addresses (link_bases plan))
          (\<lambda>blocked.
        let slot_count = SlotCount plan;
            available = foldl (\<lambda>available interval.
              sub_u64 available (sub_u64 (snd interval) (fst interval))) slot_count blocked;
            requested = sub_u64 new_capacity (capacity plan)
        in if requested > available
           then Inl (RuntimeError (''isolated network /31 link pool exhausted: pool '' @ PoolCidr A plan
                  @ '', requested '' @ to_string requested @ '', available '' @ to_string available))
           else let links1 = append_available (pool_base plan) new_capacity blocked first_slot slot_count
                               (link_bases plan);
                    links2 = append_available (pool_base plan) new_capacity blocked 0 first_slot links1
                in Inr (plan \<lparr>link_bases := links2\<rparr>)))"

definition EmptyPlan :: "nat \<Rightarrow> nat \<Rightarrow> SimulationNetworkAddressPlan" where
  "EmptyPlan base len = \<lparr>pool_base = base, pool_prefix_length = len, link_bases = []\<rparr>"

definition Allocate ::
    "asio \<Rightarrow> string \<Rightarrow> nat \<Rightarrow> RouteInfo list \<Rightarrow> AddressInfo list \<Rightarrow> string
     \<Rightarrow> SimulationNetworkAddressPlan result" where
  "Allocate A run_id node_count routes addresses pool_cidr =
     bind_result (ParsePool A pool_cidr) (\<lambda>pool.
       let empty = EmptyPlan (fst pool) (snd pool) in
       ExpandedFrom A empty node_count routes addresses
         (unat (StableRunHash run_id) mod SlotCount empty))"

definition FromCidr :: "asio \<Rightarrow> string \<Rightarrow> nat \<Rightarrow> SimulationNetworkAddressPlan result" where
  "FromCidr A pool_cidr node_count =
     bind_result (ParsePool A pool_cidr) (\<lambda>pool.
       ExpandedFrom A (EmptyPlan (fst pool) (snd pool)) node_count [] [] 0)"

definition Expanded ::
    "asio \<Rightarrow> SimulationNetworkAddressPlan \<Rightarrow> nat \<Rightarrow> RouteInfo list \<Rightarrow> AddressInfo list
     \<Rightarrow> SimulationNetworkAddressPlan result" where
  "Expanded A plan new_capacity routes addresses =
     (let first_slot = (if link_bases plan = [] then 0
            else (sub_u64 (last (link_bases plan)) (pool_base plan) div kAddressesPerNode + 1)
                   mod SlotCount plan)
      in ExpandedFrom A plan new_capacity routes addresses first_slot)"

definition LinkCidrs :: "asio \<Rightarrow> SimulationNetworkAddressPlan \<Rightarrow> string list" where
  "LinkCidrs A plan = map (\<lambda>base. network_v4_to_string A (base, kNodePrefixLength)) (link_bases plan)"

definition ToSerialized :: "asio \<Rightarrow> SimulationNetworkAddressPlan \<Rightarrow> (string \<times> json) list" where
  "ToSerialized A plan =
     [(''pool_cidr'', JString (PoolCidr A plan)), (''link_cidrs'', JArray (map JString (LinkCidrs A plan)))]"

definition AddSerializedLink ::
    "asio \<Rightarrow> nat \<Rightarrow> nat \<Rightarrow> json \<Rightarrow> nat list \<Rightarrow> nat list result" where
  "AddSerializedLink A base pool_end value links =
     (case value of
        JString cidr \<Rightarrow>
          bind_result (ParseNetwork A cidr) (\<lambda>link.
            let link_base = network_v4_network A link in
            if snd link \<noteq> kNodePrefixLength \<or> link_base < base
               \<or> link_base + kAddressesPerNode > pool_end \<or> link_base \<in> set links
            then Inl (RuntimeError ''isolated network links must be distinct /31 subnets inside the pool'')
            else Inr (links @ [link_base]))
      | _ \<Rightarrow> Inl (RuntimeError ''isolated network link CIDR must be a string''))"

definition FromSerialized :: "asio \<Rightarrow> (string \<times> json) list \<Rightarrow> SimulationNetworkAddressPlan result" where
  "FromSerialized A allocation =
     (case (length allocation = 2, map_of allocation ''pool_cidr'', map_of allocation ''link_cidrs'') of
        (True, Some (JString pool), Some (JArray links)) \<Rightarrow>
          bind_result (FromCidr A pool 0) (\<lambda>result.
            if length links > SlotCount result
            then Inl (RuntimeError ''isolated network allocation exceeds its pool capacity'')
            else bind_result (fold_result (AddSerializedLink A (pool_base result)
                   (pool_base result + AddressCount (pool_prefix_length result))) links [])
                   (\<lambda>bases. Inr (result \<lparr>link_bases := bases\<rparr>)))
      | _ \<Rightarrow> Inl (RuntimeError ''isolated network allocation requires only pool_cidr and link_cidrs''))"

definition HostAddress :: "asio \<Rightarrow> SimulationNetworkAddressPlan \<Rightarrow> nat \<Rightarrow> string result" where
  "HostAddress A plan node_index =
     (if node_index \<ge> capacity plan
      then Inl (OutOfRange ''network address plan node index is out of range'')
      else Inr (address_v4_to_string A (link_bases plan ! node_index)))"

definition NodeAddress :: "asio \<Rightarrow> SimulationNetworkAddressPlan \<Rightarrow> nat \<Rightarrow> string result" where
  "NodeAddress A plan node_index =
     (if node_index \<ge> capacity plan
      then Inl (OutOfRange ''network address plan node index is out of range'')
      else Inr (address_v4_to_string A ((link_bases plan ! node_index + 1) mod 2 ^ 32)))"

definition RequireNodeSlotsAvailable ::
    "asio \<Rightarrow> SimulationNetworkAddressPlan \<Rightarrow> nat list \<Rightarrow> RouteInfo list \<Rightarrow> AddressInfo list \<Rightarrow> unit result" where
  "RequireNodeSlotsAvailable A plan node_slots routes addresses =
     bind_result (BlockedLinks A (pool_base plan) (pool_prefix_length plan) routes addresses []) (\<lambda>blocked.
       check_all (\<lambda>node_slot.
         if node_slot \<ge> capacity plan
         then Inl (OutOfRange ''network address plan node slot is out of range'')
         else let link = sub_u64 (link_bases plan ! node_slot) (pool_base plan) div kAddressesPerNode in
              if IsBlocked link blocked
              then Inl (RuntimeError (''isolated simulation node /31 link for slot '' @ to_string node_slot
                     @ '' overlaps a kernel route or assigned address''))
              else Inr ()) node_slots)"

subsection \<open>Interval lists as sets of slots\<close>

definition covers :: "Interval list \<Rightarrow> nat \<Rightarrow> bool" where
  "covers intervals slot = (\<exists>i\<in>set intervals. fst i \<le> slot \<and> slot < snd i)"

definition gap_before :: "Interval \<Rightarrow> Interval \<Rightarrow> bool" where
  "gap_before i j = (snd i < fst j)"

definition normal_intervals :: "Interval list \<Rightarrow> bool" where
  "normal_intervals intervals =
     (sorted_wrt gap_before intervals \<and> (\<forall>i\<in>set intervals. fst i < snd i))"

lemma covers_simps [simp]:
  "covers [] slot \<longleftrightarrow> False"
  "covers (i # is) slot \<longleftrightarrow> fst i \<le> slot \<and> slot < snd i \<or> covers is slot"
  "covers (is @ js) slot \<longleftrightarrow> covers is slot \<or> covers js slot"
  by (auto simp: covers_def)

lemma normal_simps [simp]:
  "normal_intervals []"
  "normal_intervals (i # is) \<longleftrightarrow> fst i < snd i \<and> (\<forall>j\<in>set is. snd i < fst j) \<and> normal_intervals is"
  by (auto simp: normal_intervals_def gap_before_def)

lemma normal_snoc [simp]:
  "normal_intervals (is @ [i]) \<longleftrightarrow>
     normal_intervals is \<and> (\<forall>j\<in>set is. snd j < fst i) \<and> fst i < snd i"
  by (auto simp: normal_intervals_def gap_before_def sorted_wrt_append)

lemma MergeInterval_Nil [simp]: "MergeInterval [] i = [i]"
  by (simp add: MergeInterval_def)

lemma MergeInterval_snoc:
  "MergeInterval (m @ [k]) i =
     (if fst i \<le> snd k then m @ [(fst k, max (snd k) (snd i))] else m @ [k, i])"
  by (simp add: MergeInterval_def)

lemma MergeInterval_normal:
  assumes "normal_intervals m" "fst i < snd i" "\<And>j. j \<in> set m \<Longrightarrow> fst j \<le> fst i"
  shows "normal_intervals (MergeInterval m i)"
proof (cases m rule: rev_cases)
  case (snoc m' k)
  then have m': "normal_intervals m'" "\<forall>j\<in>set m'. snd j < fst k" "fst k < snd k"
    using assms(1) by auto
  show ?thesis
  proof (cases "fst i \<le> snd k")
    case True
    then show ?thesis using m' snoc by (simp add: MergeInterval_snoc less_max_iff_disj)
  next
    case False
    have "m' @ [k, i] = (m' @ [k]) @ [i]" by simp
    moreover have "\<forall>j\<in>set (m' @ [k]). snd j < fst i" using m' False by fastforce
    ultimately show ?thesis
      using False snoc assms(1,2) by (simp only: MergeInterval_snoc if_False normal_snoc) simp
  qed
qed (simp add: assms(2))

lemma MergeInterval_covers:
  assumes "fst i < snd i" "\<And>j. j \<in> set m \<Longrightarrow> fst j \<le> fst i"
  shows "covers (MergeInterval m i) slot \<longleftrightarrow> covers m slot \<or> fst i \<le> slot \<and> slot < snd i"
proof (cases m rule: rev_cases)
  case (snoc m' k)
  then have "fst k \<le> fst i" using assms(2) by simp
  then show ?thesis using snoc assms(1) by (auto simp: MergeInterval_snoc)
qed simp

lemma MergeInterval_forall:
  assumes "\<forall>j\<in>set m. P (fst j) \<and> Q (snd j)" "P (fst i)" "Q (snd i)"
  shows "\<forall>j\<in>set (MergeInterval m i). P (fst j) \<and> Q (snd j)"
  using assms by (cases m rule: rev_cases) (simp_all add: MergeInterval_snoc max_def)

lemma merge_sorted:
  assumes "sorted (map fst is)" "\<forall>i\<in>set is. fst i < snd i" "normal_intervals m"
    and "\<forall>j\<in>set m. \<forall>i\<in>set is. fst j \<le> fst i"
  shows "normal_intervals (foldl MergeInterval m is)
    \<and> (\<forall>slot. covers (foldl MergeInterval m is) slot \<longleftrightarrow> covers m slot \<or> covers is slot)"
  using assms
proof (induction "is" arbitrary: m)
  case (Cons i "is")
  let ?m = "MergeInterval m i"
  have i: "fst i < snd i" "\<And>j. j \<in> set m \<Longrightarrow> fst j \<le> fst i" "\<forall>j\<in>set is. fst i \<le> fst j"
    using Cons.prems by simp_all
  have "\<forall>j\<in>set ?m. fst j \<le> fst i"
    using MergeInterval_forall [of m "\<lambda>x. x \<le> fst i" "\<lambda>_. True" i] i(2) by blast
  then have firsts: "\<forall>j\<in>set ?m. \<forall>i\<in>set is. fst j \<le> fst i" using i(3) order_trans by blast
  have normal: "normal_intervals ?m" by (rule MergeInterval_normal [OF Cons.prems(3) i(1,2)])
  have "sorted (map fst is)" "\<forall>i\<in>set is. fst i < snd i" using Cons.prems(1,2) by simp_all
  note IH = Cons.IH [OF this normal firsts]
  show ?case
    unfolding foldl_Cons
    using IH MergeInterval_covers [OF i(1,2)] unfolding covers_simps(2) by blast
qed simp

lemma merge_bound:
  assumes "\<forall>i\<in>set is. snd i \<le> n" "\<forall>j\<in>set m. snd j \<le> n"
  shows "\<forall>j\<in>set (foldl MergeInterval m is). snd j \<le> n"
  using assms
proof (induction "is" arbitrary: m)
  case (Cons i "is")
  then have m: "\<forall>j\<in>set (MergeInterval m i). snd j \<le> n"
    using MergeInterval_forall [of m "\<lambda>_. True" "\<lambda>x. x \<le> n" i] by (meson list.set_intros(1))
  show ?case using Cons.IH [OF _ m] Cons.prems(1) unfolding foldl_Cons by (meson list.set_intros(2))
qed simp

text \<open>The binary search of \<open>IsBlocked\<close> decides membership.\<close>

lemma upper_bound_first_Cons:
  "upper_bound_first slot (i # is) = (if slot < fst i then 0 else Suc (upper_bound_first slot is))"
  by (simp add: upper_bound_first_def)

lemma upper_bound_first_later:
  "\<forall>j\<in>set is. slot < fst j \<Longrightarrow> upper_bound_first slot is = 0"
  by (cases "is") (simp_all add: upper_bound_first_def)

lemma IsBlocked_covers:
  assumes "normal_intervals intervals"
  shows "IsBlocked slot intervals \<longleftrightarrow> covers intervals slot"
  using assms
proof (induction intervals)
  case (Cons i "is")
  have gaps: "fst i < snd i" "\<forall>j\<in>set is. snd i < fst j" "normal_intervals is"
    using Cons.prems by simp_all
  show ?case
  proof (cases "slot < snd i")
    case True
    then have "\<forall>j\<in>set is. slot < fst j" using gaps(2) by fastforce
    then have "upper_bound_first slot is = 0" "\<not> covers is slot"
      by (auto simp: upper_bound_first_later covers_def)
    then show ?thesis using True by (simp add: IsBlocked_def upper_bound_first_Cons)
  next
    case False
    then have "IsBlocked slot (i # is) = IsBlocked slot is"
      using gaps(1) by (auto simp: IsBlocked_def upper_bound_first_Cons nth_Cons')
    then show ?thesis using Cons.IH [OF gaps(3)] False by simp
  qed
qed (simp add: IsBlocked_def upper_bound_first_def)

subsection \<open>Raw ranges\<close>

text \<open>The two addresses of a link meet the address range.\<close>

definition overlaps :: "nat \<Rightarrow> nat \<Rightarrow> nat \<Rightarrow> nat \<Rightarrow> bool" where
  "overlaps base first stop slot = (first < base + 2 * slot + 2 \<and> base + 2 * slot < stop)"

definition proper :: "nat \<Rightarrow> Interval list \<Rightarrow> bool" where
  "proper slots intervals = (\<forall>i\<in>set intervals. fst i < snd i \<and> snd i \<le> slots)"

lemma AddBlockedRange_proper:
  assumes "proper slots blocked"
  shows "proper slots (AddBlockedRange blocked first stop base (base + 2 * slots))"
  using assms
  by (auto simp: proper_def AddBlockedRange_def kAddressesPerNode_def Let_def)

lemma half_le: "(x :: nat) div 2 \<le> s \<longleftrightarrow> x < 2 * s + 2"
  by linarith

lemma half_up: "s < (y + 2 - 1 :: nat) div 2 \<longleftrightarrow> 2 * s < y"
  by linarith

lemma AddBlockedRange_covers:
  assumes "first < stop" "slot < slots"
  shows "covers (AddBlockedRange blocked first stop base (base + 2 * slots)) slot
    \<longleftrightarrow> covers blocked slot \<or> overlaps base first stop slot"
proof -
  let ?f = "max first base" and ?e = "min stop (base + 2 * slots)"
  have "(?f < ?e \<and> (?f - base) div 2 \<le> slot \<and> slot < (?e - base + 2 - 1) div 2)
      \<longleftrightarrow> overlaps base first stop slot"
    unfolding half_le half_up using assms unfolding overlaps_def by (auto simp: max_def min_def)
  then show ?thesis by (auto simp: AddBlockedRange_def kAddressesPerNode_def Let_def)
qed

definition route_conflict :: "asio \<Rightarrow> nat \<Rightarrow> nat \<Rightarrow> RouteInfo \<Rightarrow> bool" where
  "route_conflict A base slot route =
     (0 < ri_prefix_len route \<and> ri_prefix_len route \<le> 32 \<and>
      (case make_address_v4 A (ri_destination route) of None \<Rightarrow> False | Some address \<Rightarrow>
         let first = RouteFirst address (AddressCount (ri_prefix_len route)) in
         overlaps base first (first + AddressCount (ri_prefix_len route)) slot))"

definition address_conflict :: "asio \<Rightarrow> nat \<Rightarrow> nat \<Rightarrow> AddressInfo \<Rightarrow> bool" where
  "address_conflict A base slot address =
     (case make_address_v4 A (ai_address address) of None \<Rightarrow> False | Some first \<Rightarrow>
        overlaps base first (first + 1) slot)"

definition readable :: "asio \<Rightarrow> RouteInfo list \<Rightarrow> AddressInfo list \<Rightarrow> bool" where
  "readable A routes addresses =
     ((\<forall>route\<in>set routes. 0 < ri_prefix_len route \<and> ri_prefix_len route \<le> 32 \<longrightarrow>
         make_address_v4 A (ri_destination route) \<noteq> None)
      \<and> (\<forall>address\<in>set addresses. make_address_v4 A (ai_address address) \<noteq> None))"

lemma AddressCount_pos [simp]: "0 < AddressCount len"
  by (simp add: AddressCount_def push_bit_eq_mult)

lemma AddRoute_cases:
  assumes "AddRoute A base pool_end route blocked = Inr blocked'"
  shows "(ri_prefix_len route = 0 \<or> 32 < ri_prefix_len route) \<and> blocked' = blocked
    \<or> 0 < ri_prefix_len route \<and> ri_prefix_len route \<le> 32
      \<and> (\<exists>address. make_address_v4 A (ri_destination route) = Some address
           \<and> blocked' = AddBlockedRange blocked (RouteFirst address (AddressCount (ri_prefix_len route)))
               (RouteFirst address (AddressCount (ri_prefix_len route)) + AddressCount (ri_prefix_len route))
               base pool_end)"
  using assms
  by (cases "make_address_v4 A (ri_destination route)")
    (auto simp: AddRoute_def ParseKernelAddress_def Let_def split: if_splits)

lemma AddRoute_proper:
  assumes "AddRoute A base (base + 2 * slots) route blocked = Inr blocked'" "proper slots blocked"
  shows "proper slots blocked'"
  using AddRoute_cases [OF assms(1)] AddBlockedRange_proper [OF assms(2)] assms(2) by blast

lemma AddRoute_covers:
  assumes "AddRoute A base (base + 2 * slots) route blocked = Inr blocked'" "slot < slots"
  shows "covers blocked' slot \<longleftrightarrow> covers blocked slot \<or> route_conflict A base slot route"
  using AddRoute_cases [OF assms(1)] assms(2)
  by (elim disjE conjE exE) (simp_all add: route_conflict_def Let_def AddBlockedRange_covers)

lemma AddAddress_cases:
  assumes "AddAddress A base pool_end address blocked = Inr blocked'"
  obtains first where "make_address_v4 A (ai_address address) = Some first"
    "blocked' = AddBlockedRange blocked first (first + 1) base pool_end"
  using assms
  by (cases "make_address_v4 A (ai_address address)") (auto simp: AddAddress_def ParseKernelAddress_def)

lemma AddAddress_proper:
  assumes "AddAddress A base (base + 2 * slots) address blocked = Inr blocked'" "proper slots blocked"
  shows "proper slots blocked'"
  using AddAddress_cases [OF assms(1)] AddBlockedRange_proper [OF assms(2)] by metis

lemma AddAddress_covers:
  assumes "AddAddress A base (base + 2 * slots) address blocked = Inr blocked'" "slot < slots"
  shows "covers blocked' slot \<longleftrightarrow> covers blocked slot \<or> address_conflict A base slot address"
  by (rule AddAddress_cases [OF assms(1)])
    (simp add: address_conflict_def AddBlockedRange_covers assms(2))

text \<open>Loops that add ranges: the slots covered are those of all elements.\<close>

lemma fold_result_covers:
  assumes "fold_result f xs blocked = Inr blocked'"
    and "\<And>x b b'. f x b = Inr b' \<Longrightarrow> covers b' slot \<longleftrightarrow> covers b slot \<or> conflict x"
  shows "covers blocked' slot \<longleftrightarrow> covers blocked slot \<or> (\<exists>x\<in>set xs. conflict x)"
  using assms(1)
proof (induction xs arbitrary: blocked)
  case (Cons x xs)
  then obtain b where b: "f x blocked = Inr b" "fold_result f xs b = Inr blocked'"
    by (auto simp: result_simps)
  show ?case using Cons.IH [OF b(2)] assms(2) [OF b(1)] by auto
qed simp

lemma AddReserved_proper:
  assumes "proper slots blocked"
  shows "proper slots (foldl (\<lambda>blocked first.
    AddBlockedRange blocked first (first + kAddressesPerNode) base (base + 2 * slots)) blocked reserved)"
  using assms by (induction reserved arbitrary: blocked) (simp_all add: AddBlockedRange_proper)

lemma AddReserved_covers:
  assumes "slot < slots"
  shows "covers (foldl (\<lambda>blocked first.
      AddBlockedRange blocked first (first + kAddressesPerNode) base (base + 2 * slots)) blocked reserved) slot
    \<longleftrightarrow> covers blocked slot \<or> (\<exists>first\<in>set reserved. overlaps base first (first + 2) slot)"
  using assms
  by (induction reserved arbitrary: blocked)
    (simp_all add: AddBlockedRange_covers kAddressesPerNode_def disj_assoc)

text \<open>What the merged list of blocked links is: sorted, gapped, inside the pool, and
  covering exactly the links that meet a route, an address or a reserved link.\<close>

lemma covers_sort [simp]: "covers (sort is) slot \<longleftrightarrow> covers is slot"
  by (simp add: covers_def)

lemma sorted_map_fst: "sorted (is :: Interval list) \<Longrightarrow> sorted (map fst is)"
  by (induction "is") (auto simp: less_eq_prod_def)

lemma BlockedLinks_exact:
  assumes "BlockedLinks A base len routes addresses reserved = Inr blocked"
    and "AddressCount len = 2 * slots"
  shows "normal_intervals blocked" and "\<forall>i\<in>set blocked. snd i \<le> slots"
    and "slot < slots \<Longrightarrow> covers blocked slot \<longleftrightarrow>
      (\<exists>route\<in>set routes. route_conflict A base slot route)
      \<or> (\<exists>address\<in>set addresses. address_conflict A base slot address)
      \<or> (\<exists>first\<in>set reserved. overlaps base first (first + 2) slot)"
proof -
  let ?stop = "base + 2 * slots"
  obtain b1 b2 where b1: "fold_result (AddRoute A base ?stop) routes [] = Inr b1"
    and b2: "fold_result (AddAddress A base ?stop) addresses b1 = Inr b2"
    and blocked: "blocked = foldl MergeInterval [] (sort (foldl (\<lambda>blocked first.
      AddBlockedRange blocked first (first + kAddressesPerNode) base ?stop) b2 reserved))"
    using assms by (auto simp: BlockedLinks_def result_simps Let_def)
  let ?b3 = "foldl (\<lambda>blocked first.
      AddBlockedRange blocked first (first + kAddressesPerNode) base ?stop) b2 reserved"
  have "proper slots b1"
    by (rule fold_result_invariant [OF b1]) (simp add: proper_def, rule AddRoute_proper)
  then have "proper slots b2"
    by (rule fold_result_invariant [OF b2]) (rule AddAddress_proper)
  then have b3: "\<forall>i\<in>set (sort ?b3). fst i < snd i \<and> snd i \<le> slots"
    using AddReserved_proper unfolding proper_def set_sort by blast
  have merged: "normal_intervals blocked \<and> (\<forall>slot. covers blocked slot \<longleftrightarrow> covers ?b3 slot)"
    using merge_sorted [of "sort ?b3" "[]"] b3 sorted_map_fst [OF sorted_sort] blocked by simp
  then show "normal_intervals blocked" ..
  show "\<forall>i\<in>set blocked. snd i \<le> slots"
    unfolding blocked by (rule merge_bound) (use b3 in simp_all)
  show "covers blocked slot \<longleftrightarrow>
      (\<exists>route\<in>set routes. route_conflict A base slot route)
      \<or> (\<exists>address\<in>set addresses. address_conflict A base slot address)
      \<or> (\<exists>first\<in>set reserved. overlaps base first (first + 2) slot)" if "slot < slots"
    using merged AddReserved_covers [OF that] that
      fold_result_covers [OF b1, of slot "route_conflict A base slot"] AddRoute_covers [OF _ that]
      fold_result_covers [OF b2, of slot "address_conflict A base slot"] AddAddress_covers [OF _ that]
    by simp
qed


subsection \<open>The allocation loops\<close>

text \<open>Reference: the free slots of a range, in order.\<close>

abbreviation free_slots :: "Interval list \<Rightarrow> nat \<Rightarrow> nat \<Rightarrow> nat list" where
  "free_slots intervals first stop \<equiv> filter (\<lambda>slot. \<not> covers intervals slot) [first..<stop]"

lemma upt_take: "take k [m..<n] = [m..<min (m + k) n]"
  by (simp add: take_upt min_def)

lemma fill_links_spec:
  "fill_links base new_capacity first free_end links =
     (let k = min (free_end - first) (new_capacity - length links)
      in (first + k, links @ map (LinkBase base) [first..<first + k]))"
proof (induction base new_capacity first free_end links rule: fill_links.induct)
  case (1 base new_capacity first free_end links)
  show ?case
  proof (cases "first < free_end \<and> length links < new_capacity")
    case True
    let ?links = "links @ [LinkBase base first]"
    let ?k = "min (free_end - (first + 1)) (new_capacity - length ?links)"
    have k: "min (free_end - first) (new_capacity - length links) = Suc ?k" using True by auto
    have "[first..<first + Suc ?k] = first # [first + 1..<first + 1 + ?k]" by (simp add: upt_rec)
    moreover have "fill_links base new_capacity first free_end links =
        (first + 1 + ?k, ?links @ map (LinkBase base) [first + 1..<first + 1 + ?k])"
      using 1 True by (subst fill_links.simps) (simp only: Let_def simp_thms if_True)
    ultimately show ?thesis unfolding k Let_def by simp
  next
    case False
    then show ?thesis by (subst fill_links.simps) (auto simp: Let_def)
  qed
qed

lemma filter_upt_split:
  assumes "m \<le> k" "k \<le> n"
  shows "filter P [m..<n] = filter P [m..<k] @ filter P [k..<n]"
  using assms by (metis filter_append le_iff_add upt_add_eq_append)

lemma free_slots_skip:
  assumes "normal_intervals (i # is)" "fst i \<le> first" "first < snd i"
  shows "free_slots (i # is) first stop = free_slots is (snd i) stop"
proof (cases "snd i \<le> stop")
  case True
  have "filter (\<lambda>slot. \<not> covers (i # is) slot) [first..<snd i] = []"
    using assms(2) by (simp add: filter_empty_conv)
  moreover have "free_slots (i # is) (snd i) stop = free_slots is (snd i) stop"
    by (rule filter_cong) auto
  ultimately show ?thesis
    using filter_upt_split [of first "snd i" stop "\<lambda>slot. \<not> covers (i # is) slot"] assms(3) True by simp
next
  case False
  then show ?thesis using assms(2) by (simp add: filter_empty_conv)
qed

lemma free_slots_gap:
  assumes "normal_intervals intervals" "\<forall>i\<in>set intervals. free_end \<le> fst i"
  shows "free_slots intervals first free_end = [first..<free_end]"
  using assms(2) by (fastforce simp: filter_id_conv covers_def)

text \<open>One round of the outer loop that does not skip an interval.\<close>

lemma append_round:
  assumes "normal_intervals intervals" "\<forall>i\<in>set intervals. fe \<le> fst i" "first < fe" "fe \<le> stop"
    and k: "k = min (fe - first) (new_capacity - length links)"
    and ls: "ls = links @ map (LinkBase base) [first..<first + k]"
  shows "ls @ take (new_capacity - length ls) (map (LinkBase base) (free_slots intervals (first + k) stop))
    = links @ take (new_capacity - length links) (map (LinkBase base) (free_slots intervals first stop))"
proof -
  have "free_slots intervals first (first + k) = [first..<first + k]"
    using assms(2,3) by (intro free_slots_gap assms(1)) (auto simp: k)
  then have "free_slots intervals first stop = [first..<first + k] @ free_slots intervals (first + k) stop"
    using filter_upt_split [of first "first + k" stop] assms(3,4) by (simp add: k)
  then show ?thesis by (simp add: ls k)
qed

lemma append_loop_spec:
  assumes "normal_intervals intervals" "\<forall>i\<in>set intervals. first < snd i"
  shows "append_loop base new_capacity intervals first stop links =
    links @ take (new_capacity - length links) (map (LinkBase base) (free_slots intervals first stop))"
  using assms
proof (induction base new_capacity intervals first stop links rule: append_loop.induct)
  case (1 base new_capacity intervals first stop links)
  consider (halt) "\<not> (first < stop \<and> length links < new_capacity)"
    | (skip) i "is" where "first < stop \<and> length links < new_capacity" "intervals = i # is" "fst i \<le> first"
    | (fill) "first < stop \<and> length links < new_capacity" "\<not> (intervals \<noteq> [] \<and> fst (hd intervals) \<le> first)"
    by (cases intervals) auto
  then show ?case
  proof cases
    case halt
    then show ?thesis by (subst append_loop.simps) auto
  next
    case skip
    have later: "\<forall>j\<in>set is. snd i < snd j" "normal_intervals is"
      using "1.prems"(1) skip(2) by (fastforce simp: normal_intervals_def gap_before_def)+
    have "append_loop base new_capacity intervals first stop links
        = append_loop base new_capacity is (snd i) stop links"
      using skip by (subst append_loop.simps) simp
    also have "\<dots> = links @ take (new_capacity - length links) (map (LinkBase base) (free_slots is (snd i) stop))"
      using "1.IH"(1) skip later by simp
    finally show ?thesis using free_slots_skip [of i "is" first stop] "1.prems" skip by simp
  next
    case fill
    define fe where "fe = (if intervals = [] then stop else min stop (fst (hd intervals)))"
    define k where "k = min (fe - first) (new_capacity - length links)"
    define ls where "ls = links @ map (LinkBase base) [first..<first + k]"
    have filled: "fill_links base new_capacity first fe links = (first + k, ls)"
      by (simp add: fill_links_spec Let_def k_def ls_def)
    have free: "first < fe" "fe \<le> stop" using fill by (auto simp: fe_def)
    have gap: "\<forall>i\<in>set intervals. fe \<le> fst i"
      using "1.prems"(1) by (cases intervals) (auto simp: fe_def)
    then have suffix: "\<forall>i\<in>set intervals. first + k < snd i"
      using free "1.prems"(1) by (fastforce simp: k_def normal_intervals_def)
    have "append_loop base new_capacity intervals first stop links
        = append_loop base new_capacity intervals (first + k) stop ls"
      using fill filled by (subst append_loop.simps) (auto simp: Let_def fe_def)
    then show ?thesis
      using "1.IH"(2) [OF fill fe_def refl] filled "1.prems"(1) suffix
        append_round [OF "1.prems"(1) gap free k_def ls_def] by simp
  qed
qed

lemma lower_bound_second_drop:
  assumes "normal_intervals intervals"
  shows "normal_intervals (drop (lower_bound_second first intervals) intervals)"
    and "\<forall>i\<in>set (drop (lower_bound_second first intervals) intervals). first < snd i"
    and "first \<le> slot \<Longrightarrow>
      covers (drop (lower_bound_second first intervals) intervals) slot \<longleftrightarrow> covers intervals slot"
  using assms
proof (induction intervals)
  case (Cons i "is")
  {
    case 1
    then show ?case using Cons.IH(1) by (simp add: lower_bound_second_def)
  next
    case 2
    have "snd i < snd j" if "j \<in> set is" for j
      using 2 that by (fastforce simp: normal_intervals_def gap_before_def)
    then have "\<not> snd i \<le> first \<Longrightarrow> \<forall>j\<in>set is. first < snd j" by (meson not_le order_less_trans)
    then show ?case using Cons.IH(2) 2 by (simp add: lower_bound_second_def)
  next
    case 3
    then show ?case using Cons.IH(3) by (simp add: lower_bound_second_def)
  }
qed (simp_all add: lower_bound_second_def)

lemma append_available_spec:
  assumes "normal_intervals blocked"
  shows "append_available base new_capacity blocked first stop links =
    links @ take (new_capacity - length links) (map (LinkBase base) (free_slots blocked first stop))"
proof -
  let ?rest = "drop (lower_bound_second first blocked) blocked"
  have "free_slots ?rest first stop = free_slots blocked first stop"
    by (rule filter_cong) (auto simp: lower_bound_second_drop(3) [OF assms])
  then show ?thesis
    unfolding append_available_def
    by (simp add: append_loop_spec [OF lower_bound_second_drop(1,2) [OF assms]])
qed

subsection \<open>Counting free links\<close>

abbreviation covered :: "Interval list \<Rightarrow> nat" where
  "covered intervals \<equiv> sum_list (map (\<lambda>i. snd i - fst i) intervals)"

lemma free_slots_count:
  assumes "normal_intervals intervals" "\<forall>i\<in>set intervals. lo \<le> fst i \<and> snd i \<le> n" "lo \<le> n"
  shows "length (free_slots intervals lo n) + covered intervals = n - lo"
  using assms
proof (induction intervals arbitrary: lo)
  case (Cons i "is")
  have i: "lo \<le> fst i" "fst i < snd i" "snd i \<le> n" using Cons.prems by simp_all
  have "free_slots (i # is) lo (fst i) = [lo..<fst i]"
    using Cons.prems(1) by (intro free_slots_gap) (auto intro: less_imp_le order_less_trans)
  then have "free_slots (i # is) lo n = [lo..<fst i] @ free_slots is (snd i) n"
    using filter_upt_split [of lo "fst i" n] free_slots_skip [of i "is" "fst i" n] i Cons.prems(1) by simp
  moreover have "length (free_slots is (snd i) n) + covered is = n - snd i"
    using Cons.prems by (intro Cons.IH) auto
  ultimately show ?case using i by simp
qed simp

lemma available_exact:
  assumes "covered intervals \<le> a" "a < 2 ^ 64" "\<forall>i\<in>set intervals. fst i < snd i \<and> snd i < 2 ^ 64"
  shows "foldl (\<lambda>available i. sub_u64 available (sub_u64 (snd i) (fst i))) a intervals = a - covered intervals"
  using assms
proof (induction intervals arbitrary: a)
  case (Cons i "is")
  have "sub_u64 (snd i) (fst i) = snd i - fst i"
    using Cons.prems(3) by (intro sub_u64_exact) (auto simp: less_imp_le)
  moreover have "sub_u64 a (snd i - fst i) = a - (snd i - fst i)"
    using Cons.prems by (intro sub_u64_exact) auto
  moreover have "foldl (\<lambda>available i. sub_u64 available (sub_u64 (snd i) (fst i)))
      (a - (snd i - fst i)) is = a - (snd i - fst i) - covered is"
    using Cons.prems by (intro Cons.IH) auto
  ultimately show ?case by simp
qed simp

subsection \<open>Well-formed plans\<close>

text \<open>The pool lies in the IPv4 space and the links are distinct aligned /31 links of it.\<close>

definition wf_plan :: "SimulationNetworkAddressPlan \<Rightarrow> bool" where
  "wf_plan plan =
     (pool_prefix_length plan \<le> 31
      \<and> AddressCount (pool_prefix_length plan) dvd pool_base plan
      \<and> pool_base plan + AddressCount (pool_prefix_length plan) \<le> 2 ^ 32
      \<and> distinct (link_bases plan)
      \<and> (\<forall>b\<in>set (link_bases plan). pool_base plan \<le> b \<and> even (b - pool_base plan)
           \<and> b + 2 \<le> pool_base plan + AddressCount (pool_prefix_length plan)))"

text \<open>Reference: the slots of the pool in rotation order from \<open>first_slot\<close> that carry no
  link of the plan and meet no kernel route and no kernel address.\<close>

definition link_free :: "asio \<Rightarrow> nat \<Rightarrow> RouteInfo list \<Rightarrow> AddressInfo list \<Rightarrow> nat \<Rightarrow> bool" where
  "link_free A base routes addresses slot =
     (\<not> (\<exists>route\<in>set routes. route_conflict A base slot route)
      \<and> \<not> (\<exists>address\<in>set addresses. address_conflict A base slot address))"

definition rotation :: "asio \<Rightarrow> SimulationNetworkAddressPlan \<Rightarrow> RouteInfo list \<Rightarrow> AddressInfo list \<Rightarrow> nat \<Rightarrow> nat list" where
  "rotation A plan routes addresses first_slot =
     filter (\<lambda>slot. link_free A (pool_base plan) routes addresses slot
               \<and> pool_base plan + 2 * slot \<notin> set (link_bases plan))
       ([first_slot..<SlotCount plan] @ [0..<first_slot])"

lemma AddressCount_SlotCount:
  assumes "wf_plan plan"
  shows "AddressCount (pool_prefix_length plan) = 2 * SlotCount plan" "0 < SlotCount plan" "SlotCount plan \<le> 2 ^ 31"
proof -
  let ?p = "pool_prefix_length plan"
  have "?p \<le> 31" using assms by (simp add: wf_plan_def)
  then have "32 - ?p = Suc (31 - ?p)" by simp
  then have "AddressCount ?p = 2 * 2 ^ (31 - ?p)"
    by (simp add: AddressCount_def push_bit_eq_mult)
  then show "AddressCount ?p = 2 * SlotCount plan" "0 < SlotCount plan" "SlotCount plan \<le> 2 ^ 31"
    using power_increasing [of "31 - ?p" 31 "2 :: nat"] by (simp_all add: SlotCount_def kAddressesPerNode_def)
qed

lemma wf_plan_link:
  assumes "wf_plan plan" "b \<in> set (link_bases plan)"
  obtains slot where "slot < SlotCount plan" "b = pool_base plan + 2 * slot"
proof -
  have "pool_base plan \<le> b" "even (b - pool_base plan)" "b + 2 \<le> pool_base plan + 2 * SlotCount plan"
    using assms AddressCount_SlotCount [OF assms(1)] by (auto simp: wf_plan_def)
  then show thesis using that [of "(b - pool_base plan) div 2"] by auto
qed

lemma wf_plan_reserved:
  assumes "wf_plan plan"
  shows "(\<exists>first\<in>set (link_bases plan). overlaps (pool_base plan) first (first + 2) slot)
    \<longleftrightarrow> pool_base plan + 2 * slot \<in> set (link_bases plan)"
proof
  assume "\<exists>first\<in>set (link_bases plan). overlaps (pool_base plan) first (first + 2) slot"
  then obtain b where b: "b \<in> set (link_bases plan)" "overlaps (pool_base plan) b (b + 2) slot" by blast
  obtain s where "b = pool_base plan + 2 * s" using wf_plan_link [OF assms b(1)] by metis
  then have "b = pool_base plan + 2 * slot" using b(2) by (simp add: overlaps_def)
  then show "pool_base plan + 2 * slot \<in> set (link_bases plan)" using b(1) by simp
qed (auto simp: overlaps_def intro!: bexI [of _ "pool_base plan + 2 * slot"])

lemma wf_plan_length:
  assumes "wf_plan plan"
  shows "length (link_bases plan) \<le> SlotCount plan" "capacity plan = length (link_bases plan)"
proof -
  have "set (link_bases plan) \<subseteq> (\<lambda>slot. pool_base plan + 2 * slot) ` {..<SlotCount plan}"
    by (auto elim!: wf_plan_link [OF assms])
  then have "card (set (link_bases plan)) \<le> card {..<SlotCount plan}"
    by (meson card_image_le card_mono finite_imageI finite_lessThan order_trans)
  then show "length (link_bases plan) \<le> SlotCount plan"
    using assms by (simp add: wf_plan_def distinct_card)
  then show "capacity plan = length (link_bases plan)"
    using AddressCount_SlotCount(3) [OF assms] by (simp add: capacity_def)
qed

lemma BlockedLinks_readable:
  assumes "readable A routes addresses"
  shows "\<exists>blocked. BlockedLinks A base len routes addresses reserved = Inr blocked"
proof -
  let ?stop = "base + AddressCount len"
  have "\<exists>b1. fold_result (AddRoute A base ?stop) routes [] = Inr b1 \<and> True"
    using assms by (intro fold_result_total)
      (auto simp: AddRoute_def ParseKernelAddress_def readable_def Let_def split: option.splits)
  then obtain b1 where "fold_result (AddRoute A base ?stop) routes [] = Inr b1" by blast
  moreover have "\<exists>b2. fold_result (AddAddress A base ?stop) addresses b1 = Inr b2 \<and> True"
    using assms by (intro fold_result_total)
      (auto simp: AddAddress_def ParseKernelAddress_def readable_def split: option.splits)
  then obtain b2 where "fold_result (AddAddress A base ?stop) addresses b1 = Inr b2" by blast
  ultimately show ?thesis by (simp add: BlockedLinks_def Let_def)
qed

lemma BlockedLinks_free:
  assumes "wf_plan plan" "slot < SlotCount plan"
    and "BlockedLinks A (pool_base plan) (pool_prefix_length plan) routes addresses (link_bases plan) = Inr blocked"
  shows "\<not> covers blocked slot \<longleftrightarrow> link_free A (pool_base plan) routes addresses slot
    \<and> pool_base plan + 2 * slot \<notin> set (link_bases plan)"
  using BlockedLinks_exact(3) [OF assms(3) AddressCount_SlotCount(1) [OF assms(1)] assms(2)]
    wf_plan_reserved [OF assms(1)]
  by (simp add: link_free_def)

lemma rotation_blocked:
  assumes "wf_plan plan" "first_slot \<le> SlotCount plan"
    and "BlockedLinks A (pool_base plan) (pool_prefix_length plan) routes addresses (link_bases plan) = Inr blocked"
  shows "rotation A plan routes addresses first_slot
    = free_slots blocked first_slot (SlotCount plan) @ free_slots blocked 0 first_slot"
  unfolding rotation_def filter_append
  by (intro arg_cong2 [where f = append] filter_cong)
    (use assms(2) in \<open>auto simp: BlockedLinks_free [OF assms(1) _ assms(3)]\<close>)

lemma LinkBase_exact:
  assumes "wf_plan plan" "slot < SlotCount plan"
  shows "LinkBase (pool_base plan) slot = pool_base plan + 2 * slot"
proof -
  have "pool_base plan + 2 * slot < 2 ^ 32"
    using assms AddressCount_SlotCount(1) [OF assms(1)] by (auto simp: wf_plan_def)
  then show ?thesis by (simp add: LinkBase_def kAddressesPerNode_def mult.commute)
qed

lemma rotation_bound: "slot \<in> set (rotation A plan routes addresses first_slot) \<Longrightarrow>
    first_slot \<le> SlotCount plan \<Longrightarrow> slot < SlotCount plan"
  by (auto simp: rotation_def)

lemma available_links:
  assumes "wf_plan plan" "first_slot \<le> SlotCount plan"
    and "BlockedLinks A (pool_base plan) (pool_prefix_length plan) routes addresses (link_bases plan) = Inr blocked"
  shows "foldl (\<lambda>available i. sub_u64 available (sub_u64 (snd i) (fst i))) (SlotCount plan) blocked
    = length (rotation A plan routes addresses first_slot)"
proof -
  note exact = BlockedLinks_exact(1,2) [OF assms(3) AddressCount_SlotCount(1) [OF assms(1)]]
  note slots = AddressCount_SlotCount(3) [OF assms(1)]
  have count: "length (free_slots blocked 0 (SlotCount plan)) + covered blocked = SlotCount plan"
    using free_slots_count [OF exact(1), of 0 "SlotCount plan"] exact(2) by simp
  have "\<forall>i\<in>set blocked. fst i < snd i \<and> snd i < 2 ^ 64"
    using exact slots by (fastforce simp: normal_intervals_def)
  then have "foldl (\<lambda>available i. sub_u64 available (sub_u64 (snd i) (fst i))) (SlotCount plan) blocked
      = SlotCount plan - covered blocked"
    using count slots by (intro available_exact) auto
  also have "\<dots> = length (free_slots blocked 0 (SlotCount plan))" using count by simp
  also have "\<dots> = length (rotation A plan routes addresses first_slot)"
    using filter_upt_split [of 0 first_slot "SlotCount plan"] assms(2) rotation_blocked [OF assms] by simp
  finally show ?thesis .
qed

text \<open>Both passes of \<open>append_available\<close> together take the first free links of the rotation.\<close>

lemma append_both:
  assumes "normal_intervals blocked"
  shows "append_available base n blocked 0 first_slot
      (append_available base n blocked first_slot slots links)
    = links @ take (n - length links)
        (map (LinkBase base) (free_slots blocked first_slot slots @ free_slots blocked 0 first_slot))"
  unfolding append_available_spec [OF assms] by (simp add: min_def)

lemma ExpandedFrom_grow:
  assumes "wf_plan plan" "readable A routes addresses" "first_slot \<le> SlotCount plan"
    and "capacity plan < n" "n < 2 ^ 32"
  shows "ExpandedFrom A plan n routes addresses first_slot =
    (let free = rotation A plan routes addresses first_slot; requested = n - capacity plan in
     if length free < requested
     then Inl (RuntimeError (''isolated network /31 link pool exhausted: pool '' @ PoolCidr A plan
            @ '', requested '' @ to_string requested @ '', available '' @ to_string (length free)))
     else Inr (plan \<lparr>link_bases := link_bases plan
            @ map (\<lambda>slot. pool_base plan + 2 * slot) (take requested free)\<rparr>))"
proof -
  obtain blocked where blocked:
    "BlockedLinks A (pool_base plan) (pool_prefix_length plan) routes addresses (link_bases plan) = Inr blocked"
    using BlockedLinks_readable [OF assms(2)] by blast
  let ?free = "rotation A plan routes addresses first_slot"
  have normal: "normal_intervals blocked"
    by (rule BlockedLinks_exact(1) [OF blocked AddressCount_SlotCount(1) [OF assms(1)]])
  have requested: "sub_u64 n (capacity plan) = n - capacity plan"
    using assms(4,5) by (intro sub_u64_exact) auto
  have "map (LinkBase (pool_base plan)) ?free = map (\<lambda>slot. pool_base plan + 2 * slot) ?free"
    using LinkBase_exact [OF assms(1)] rotation_bound assms(3) by (intro map_cong) auto
  then have links: "append_available (pool_base plan) n blocked 0 first_slot
      (append_available (pool_base plan) n blocked first_slot (SlotCount plan) (link_bases plan))
    = link_bases plan @ map (\<lambda>slot. pool_base plan + 2 * slot) (take (n - capacity plan) ?free)"
    unfolding append_both [OF normal] wf_plan_length(2) [OF assms(1)]
    using rotation_blocked [OF assms(1,3) blocked] by (metis take_map)
  show ?thesis
    using assms(4)
    by (simp add: ExpandedFrom_def blocked requested links available_links [OF assms(1,3) blocked] Let_def)
qed


subsection \<open>Documented behaviour of the address library\<close>

definition asio_networks :: "asio \<Rightarrow> bool" where
  "asio_networks A =
     ((\<forall>s a p. make_network_v4 A s = Some (a, p) \<longrightarrow> a < 2 ^ 32 \<and> p \<le> 32)
      \<and> (\<forall>a p. a < 2 ^ 32 \<longrightarrow> p \<le> 32 \<longrightarrow> network_v4_network A (a, p) = a - a mod 2 ^ (32 - p)))"

definition asio_addresses :: "asio \<Rightarrow> bool" where
  "asio_addresses A = (\<forall>s a. make_address_v4 A s = Some a \<longrightarrow> a < 2 ^ 32)"

definition asio_prints :: "asio \<Rightarrow> bool" where
  "asio_prints A =
     (\<forall>a p. a < 2 ^ 32 \<longrightarrow> p \<le> 32 \<longrightarrow> make_network_v4 A (network_v4_to_string A (a, p)) = Some (a, p))"

text \<open>The kernel uses an address: a route other than the default route reaches it, or it
  is assigned to an interface.\<close>

definition kernel_uses :: "asio \<Rightarrow> RouteInfo list \<Rightarrow> AddressInfo list \<Rightarrow> nat \<Rightarrow> bool" where
  "kernel_uses A routes addresses x =
     ((\<exists>route\<in>set routes. 0 < ri_prefix_len route \<and> ri_prefix_len route \<le> 32
         \<and> (case make_address_v4 A (ri_destination route) of None \<Rightarrow> False
            | Some a \<Rightarrow> x div 2 ^ (32 - ri_prefix_len route) = a div 2 ^ (32 - ri_prefix_len route)))
      \<or> (\<exists>address\<in>set addresses. make_address_v4 A (ai_address address) = Some x))"

lemma AddressCount_eq: "AddressCount len = 2 ^ (32 - len)"
  by (simp add: AddressCount_def push_bit_eq_mult)

lemma RouteFirst_eq:
  assumes "a < 2 ^ 32" "len \<le> 32"
  shows "RouteFirst a (AddressCount len) = a div 2 ^ (32 - len) * 2 ^ (32 - len)"
proof -
  let ?k = "32 - len"
  have "(word_of_nat (AddressCount len) :: u64) - 1 = mask ?k"
    by (simp add: AddressCount_eq mask_eq_exp_minus_1)
  moreover have "(word_of_nat a :: u64) AND NOT (mask ?k) = push_bit ?k (drop_bit ?k (word_of_nat a))"
    by (rule bit_eqI) (auto simp: bit_simps)
  moreover have "push_bit ?k (drop_bit ?k (word_of_nat a :: u64)) = word_of_nat (push_bit ?k (drop_bit ?k a))"
    using assms by (intro bit_eqI) (auto simp: bit_simps)
  ultimately have "RouteFirst a (AddressCount len) = unat (word_of_nat (push_bit ?k (drop_bit ?k a)) :: u64)"
    by (simp only: RouteFirst_def)
  moreover have "push_bit ?k (drop_bit ?k a) \<le> a" by (simp add: push_bit_eq_mult drop_bit_eq_div)
  then have "push_bit ?k (drop_bit ?k a) < 2 ^ LENGTH(64)"
    using assms(1) by (rule order_le_less_trans [OF _ order_less_trans]) simp
  ultimately show ?thesis
    by (simp only: unat_of_nat mod_less push_bit_eq_mult drop_bit_eq_div)
qed

lemma range_div: "0 < m \<Longrightarrow> q * m \<le> x \<and> x < q * m + m \<longleftrightarrow> x div m = (q :: nat)"
  using dividend_less_div_times [of m x]
  by (auto simp: mult.commute add.commute intro!: div_nat_eqI)

lemma overlaps_range:
  assumes "first < stop"
  shows "overlaps base first stop slot \<longleftrightarrow>
    (\<exists>x\<in>{base + 2 * slot, base + 2 * slot + 1}. first \<le> x \<and> x < stop)"
  using assms by (auto simp: overlaps_def)

lemma overlaps_route:
  assumes "a < 2 ^ 32" "len \<le> 32"
  shows "overlaps base (RouteFirst a (AddressCount len)) (RouteFirst a (AddressCount len) + AddressCount len) slot
    \<longleftrightarrow> (\<exists>x\<in>{base + 2 * slot, base + 2 * slot + 1}. x div 2 ^ (32 - len) = a div 2 ^ (32 - len))"
proof -
  have "0 < (2 :: nat) ^ (32 - len)" by simp
  then show ?thesis
    unfolding RouteFirst_eq [OF assms] unfolding AddressCount_eq
    by (simp only: overlaps_range less_add_same_cancel1 range_div)
qed

lemma link_free_iff:
  assumes "asio_addresses A"
  shows "link_free A base routes addresses slot \<longleftrightarrow>
    (\<forall>x\<in>{base + 2 * slot, base + 2 * slot + 1}. \<not> kernel_uses A routes addresses x)"
proof -
  have "route_conflict A base slot route \<longleftrightarrow> (\<exists>x\<in>{base + 2 * slot, base + 2 * slot + 1}.
      0 < ri_prefix_len route \<and> ri_prefix_len route \<le> 32
         \<and> (case make_address_v4 A (ri_destination route) of None \<Rightarrow> False
            | Some a \<Rightarrow> x div 2 ^ (32 - ri_prefix_len route) = a div 2 ^ (32 - ri_prefix_len route)))" for route
  proof (cases "make_address_v4 A (ri_destination route)")
    case (Some a)
    then have "a < 2 ^ 32" using assms by (simp add: asio_addresses_def)
    then show ?thesis
      using Some by (auto simp: route_conflict_def Let_def overlaps_route)
  qed (simp add: route_conflict_def)
  moreover have "address_conflict A base slot address \<longleftrightarrow> (\<exists>x\<in>{base + 2 * slot, base + 2 * slot + 1}.
      make_address_v4 A (ai_address address) = Some x)" for address
    by (auto simp: address_conflict_def overlaps_range split: option.splits)
  ultimately show ?thesis
    unfolding link_free_def kernel_uses_def by blast
qed

subsection \<open>Safety of expansions\<close>

lemma fold_result_all_ok:
  "fold_result f xs b = Inr c \<Longrightarrow> x \<in> set xs \<Longrightarrow> \<exists>b b'. f x b = Inr b'"
  by (induction xs arbitrary: b) (auto simp: result_simps)

lemma BlockedLinks_success:
  assumes "BlockedLinks A base len routes addresses reserved = Inr blocked"
  shows "readable A routes addresses"
proof -
  obtain b1 b2 where b1: "fold_result (AddRoute A base (base + AddressCount len)) routes [] = Inr b1"
    and b2: "fold_result (AddAddress A base (base + AddressCount len)) addresses b1 = Inr b2"
    using assms by (auto simp: BlockedLinks_def result_simps Let_def)
  have "make_address_v4 A (ri_destination route) \<noteq> None"
    if "route \<in> set routes" "0 < ri_prefix_len route" "ri_prefix_len route \<le> 32" for route
    using fold_result_all_ok [OF b1 that(1)] that(2,3) by (auto dest!: AddRoute_cases)
  moreover have "make_address_v4 A (ai_address address) \<noteq> None" if "address \<in> set addresses" for address
    using fold_result_all_ok [OF b2 that] by (auto elim!: AddAddress_cases)
  ultimately show ?thesis by (simp add: readable_def)
qed

lemma rotation_distinct: "first_slot \<le> SlotCount plan \<Longrightarrow> distinct (rotation A plan routes addresses first_slot)"
  by (auto simp: rotation_def)

text \<open>What a successful expansion guarantees.\<close>

definition expansion_ok ::
    "asio \<Rightarrow> SimulationNetworkAddressPlan \<Rightarrow> nat \<Rightarrow> RouteInfo list \<Rightarrow> AddressInfo list
     \<Rightarrow> SimulationNetworkAddressPlan \<Rightarrow> bool" where
  "expansion_ok A plan n routes addresses plan' =
     (wf_plan plan' \<and> pool_base plan' = pool_base plan \<and> pool_prefix_length plan' = pool_prefix_length plan
      \<and> capacity plan' = n \<and> take (capacity plan) (link_bases plan') = link_bases plan
      \<and> (\<forall>b\<in>set (drop (capacity plan) (link_bases plan')).
           \<not> kernel_uses A routes addresses b \<and> \<not> kernel_uses A routes addresses (b + 1)))"

lemma wf_plan_extend:
  assumes "wf_plan plan" "distinct slots" "\<forall>slot\<in>set slots. slot < SlotCount plan
      \<and> pool_base plan + 2 * slot \<notin> set (link_bases plan)"
  shows "wf_plan (plan \<lparr>link_bases := link_bases plan @ map (\<lambda>slot. pool_base plan + 2 * slot) slots\<rparr>)"
proof -
  have "distinct (map (\<lambda>slot. pool_base plan + 2 * slot) slots)"
    using assms(2) by (auto simp: distinct_map inj_on_def)
  moreover have "set (link_bases plan) \<inter> set (map (\<lambda>slot. pool_base plan + 2 * slot) slots) = {}"
    using assms(3) by auto
  moreover have "pool_base plan + 2 * slot + 2 \<le> pool_base plan + AddressCount (pool_prefix_length plan)"
    if "slot \<in> set slots" for slot
    using assms(3) that AddressCount_SlotCount(1) [OF assms(1)] by fastforce
  ultimately show ?thesis using assms(1) by (auto simp: wf_plan_def)
qed

lemma ExpandedFrom_ok:
  assumes "wf_plan plan" "asio_addresses A" "first_slot \<le> SlotCount plan" "n < 2 ^ 32"
    and "ExpandedFrom A plan n routes addresses first_slot = Inr plan'"
  shows "expansion_ok A plan n routes addresses plan'"
proof (cases "n = capacity plan")
  case True
  then show ?thesis using assms(1,5) wf_plan_length(2) [OF assms(1)] by (simp add: ExpandedFrom_def expansion_ok_def)
next
  case False
  let ?free = "rotation A plan routes addresses first_slot"
  let ?new = "take (n - capacity plan) ?free"
  have grow: "capacity plan < n" using False assms(5) by (auto simp: ExpandedFrom_def split: if_splits)
  obtain blocked where "BlockedLinks A (pool_base plan) (pool_prefix_length plan) routes addresses (link_bases plan)
      = Inr blocked"
    using assms(5) grow by (auto simp: ExpandedFrom_def result_simps)
  note readable = BlockedLinks_success [OF this]
  have len: "n - capacity plan \<le> length ?free"
    and plan': "plan' = plan \<lparr>link_bases := link_bases plan @ map (\<lambda>slot. pool_base plan + 2 * slot) ?new\<rparr>"
    using assms(5) unfolding ExpandedFrom_grow [OF assms(1) readable assms(3) grow assms(4)]
    by (auto simp: Let_def split: if_splits)
  have new: "slot < SlotCount plan \<and> pool_base plan + 2 * slot \<notin> set (link_bases plan)
      \<and> link_free A (pool_base plan) routes addresses slot" if "slot \<in> set ?new" for slot
    using in_set_takeD [OF that] assms(3) by (auto simp: rotation_def)
  have wf: "wf_plan plan'"
    unfolding plan' by (rule wf_plan_extend) (use assms(1,3) new rotation_distinct in auto)
  have "capacity plan' = n"
    using wf_plan_length(2) [OF wf] wf_plan_length(2) [OF assms(1)] len grow by (simp add: plan')
  then show ?thesis
    using wf new link_free_iff [OF assms(2)] wf_plan_length(2) [OF assms(1)]
    by (auto simp: expansion_ok_def plan')
qed


lemma ParsePool_wf:
  assumes "asio_networks A" "ParsePool A cidr = Inr pool"
  shows "wf_plan (EmptyPlan (fst pool) (snd pool))"
proof -
  obtain a p where net: "make_network_v4 A cidr = Some (a, p)" "p \<le> 31"
    and pool: "pool = (network_v4_network A (a, p), p)"
    using assms(2) by (auto simp: ParsePool_def kNodePrefixLength_def split: option.splits if_splits)
  have "a < 2 ^ 32" using assms(1) net by (auto simp: asio_networks_def)
  then have fst: "fst pool = a div 2 ^ (32 - p) * 2 ^ (32 - p)"
    using assms(1) net(2) by (simp add: pool asio_networks_def minus_mod_eq_div_mult)
  have "(2 :: nat) ^ 32 = 2 ^ p * 2 ^ (32 - p)" using net(2) by (simp flip: power_add)
  then have "a div 2 ^ (32 - p) < 2 ^ p"
    using \<open>a < 2 ^ 32\<close> by (simp add: less_mult_imp_div_less)
  then have "(a div 2 ^ (32 - p) + 1) * 2 ^ (32 - p) \<le> 2 ^ p * 2 ^ (32 - p)" by (intro mult_le_mono1) simp
  then have "fst pool + 2 ^ (32 - p) \<le> 2 ^ 32"
    using \<open>2 ^ 32 = _\<close> by (simp add: fst)
  then show ?thesis
    using net(2) by (simp add: wf_plan_def EmptyPlan_def AddressCount_eq fst) (simp add: pool)
qed

lemma EmptyPlan_simps [simp]:
  "pool_base (EmptyPlan b l) = b" "pool_prefix_length (EmptyPlan b l) = l" "link_bases (EmptyPlan b l) = []"
  "capacity (EmptyPlan b l) = 0"
  by (simp_all add: EmptyPlan_def capacity_def)

definition next_slot :: "SimulationNetworkAddressPlan \<Rightarrow> nat" where
  "next_slot plan =
     (if link_bases plan = [] then 0
      else ((last (link_bases plan) - pool_base plan) div 2 + 1) mod SlotCount plan)"

lemma Expanded_eq:
  assumes "wf_plan plan"
  shows "Expanded A plan n routes addresses = ExpandedFrom A plan n routes addresses (next_slot plan)"
    and "next_slot plan \<le> SlotCount plan"
proof -
  have "sub_u64 (last (link_bases plan)) (pool_base plan) = last (link_bases plan) - pool_base plan"
    if "link_bases plan \<noteq> []"
  proof (rule sub_u64_exact)
    have "last (link_bases plan) \<in> set (link_bases plan)" using that by simp
    then obtain slot where slot: "slot < SlotCount plan" "last (link_bases plan) = pool_base plan + 2 * slot"
      by (rule wf_plan_link [OF assms])
    then show "pool_base plan \<le> last (link_bases plan)" by simp
    have "last (link_bases plan) < 2 ^ 32"
      using assms slot AddressCount_SlotCount(1) [OF assms] by (auto simp: wf_plan_def)
    then show "last (link_bases plan) < 2 ^ 64" by simp
  qed
  then show "Expanded A plan n routes addresses = ExpandedFrom A plan n routes addresses (next_slot plan)"
    by (simp add: Expanded_def next_slot_def kAddressesPerNode_def)
  show "next_slot plan \<le> SlotCount plan"
    using AddressCount_SlotCount(2) [OF assms] by (simp add: next_slot_def less_imp_le)
qed

text \<open>C1. A successful expansion of a well-formed plan keeps the pool and every link handed
  out before, has exactly the requested capacity, consists of distinct aligned /31 links
  of the pool, and no address of a new link is assigned to an interface or reached by a
  route other than the default route.\<close>

theorem Expanded_safe:
  assumes "wf_plan plan" "asio_addresses A" "n < 2 ^ 32"
    and "Expanded A plan n routes addresses = Inr plan'"
  shows "expansion_ok A plan n routes addresses plan'"
  using ExpandedFrom_ok [OF assms(1,2) Expanded_eq(2) [OF assms(1)] assms(3)] assms(4)
  unfolding Expanded_eq(1) [OF assms(1)] .

text \<open>C2. Growing a well-formed plan computes the reference allocation: the free links are
  taken in rotation order after the last link handed out, and the only failure is
  that the pool has fewer free links than requested, reported with both numbers.\<close>

theorem Expanded_first_free:
  assumes "wf_plan plan" "readable A routes addresses" "capacity plan < n" "n < 2 ^ 32"
  shows "Expanded A plan n routes addresses =
    (let free = rotation A plan routes addresses (next_slot plan); requested = n - capacity plan in
     if length free < requested
     then Inl (RuntimeError (''isolated network /31 link pool exhausted: pool '' @ PoolCidr A plan
            @ '', requested '' @ to_string requested @ '', available '' @ to_string (length free)))
     else Inr (plan \<lparr>link_bases := link_bases plan
            @ map (\<lambda>slot. pool_base plan + 2 * slot) (take requested free)\<rparr>))"
  unfolding Expanded_eq(1) [OF assms(1)]
  by (rule ExpandedFrom_grow [OF assms(1,2) Expanded_eq(2) [OF assms(1)] assms(3,4)])

text \<open>C3. Allocation returns a plan exactly when the pool has enough free links. The plan it returns has the
  requested capacity and is safe with respect to the kernel's routes and addresses; otherwise the call throws and names
  both numbers.\<close>

theorem Allocate_iff:
  assumes "asio_networks A" "asio_addresses A" "ParsePool A cidr = Inr pool"
    and "readable A routes addresses" "0 < n" "n < 2 ^ 32"
  shows "let empty = EmptyPlan (fst pool) (snd pool);
      free = card {slot. slot < SlotCount empty \<and> link_free A (fst pool) routes addresses slot} in
    if n \<le> free
    then \<exists>plan. Allocate A run_id n routes addresses cidr = Inr plan
      \<and> expansion_ok A empty n routes addresses plan
    else Allocate A run_id n routes addresses cidr =
      Inl (RuntimeError (''isolated network /31 link pool exhausted: pool '' @ PoolCidr A empty
        @ '', requested '' @ to_string n @ '', available '' @ to_string free))"
proof -
  let ?empty = "EmptyPlan (fst pool) (snd pool)"
  let ?first = "unat (StableRunHash run_id) mod SlotCount ?empty"
  let ?free = "rotation A ?empty routes addresses ?first"
  note wf = ParsePool_wf [OF assms(1,3)]
  have first: "?first \<le> SlotCount ?empty"
    using AddressCount_SlotCount(2) [OF wf] by (simp add: less_imp_le)
  have "set ?free = {slot. slot < SlotCount ?empty \<and> link_free A (fst pool) routes addresses slot}"
    using first by (auto simp: rotation_def)
  then have card: "card {slot. slot < SlotCount ?empty \<and> link_free A (fst pool) routes addresses slot} = length ?free"
    using distinct_card [OF rotation_distinct [OF first]] by metis
  have Allocate: "Allocate A run_id n routes addresses cidr = ExpandedFrom A ?empty n routes addresses ?first"
    using assms(3) by (simp add: Allocate_def Let_def)
  have grow: "ExpandedFrom A ?empty n routes addresses ?first = (if length ?free < n
      then Inl (RuntimeError (''isolated network /31 link pool exhausted: pool '' @ PoolCidr A ?empty
        @ '', requested '' @ to_string n @ '', available '' @ to_string (length ?free)))
      else Inr (?empty\<lparr>link_bases := map (\<lambda>slot. fst pool + 2 * slot) (take n ?free)\<rparr>))"
    using ExpandedFrom_grow [OF wf assms(4) first, of n] assms(5,6) by (simp add: Let_def EmptyPlan_def capacity_def)
  show ?thesis
  proof (cases "length ?free < n")
    case True
    then show ?thesis unfolding Let_def card Allocate grow by simp
  next
    case False
    then show ?thesis using ExpandedFrom_ok [OF wf assms(2) first assms(6)] grow unfolding Let_def card Allocate by auto
  qed
qed

text \<open>C4. The check before nodes are placed accepts exactly the slots that exist in the
  plan and whose two addresses the kernel does not use.\<close>

theorem RequireNodeSlotsAvailable_iff:
  assumes "wf_plan plan" "asio_addresses A" "readable A routes addresses"
  shows "RequireNodeSlotsAvailable A plan node_slots routes addresses = Inr () \<longleftrightarrow>
    (\<forall>slot\<in>set node_slots. slot < capacity plan
       \<and> \<not> kernel_uses A routes addresses (link_bases plan ! slot)
       \<and> \<not> kernel_uses A routes addresses (link_bases plan ! slot + 1))"
proof -
  obtain blocked where blocked:
    "BlockedLinks A (pool_base plan) (pool_prefix_length plan) routes addresses [] = Inr blocked"
    using BlockedLinks_readable [OF assms(3)] by blast
  note exact = BlockedLinks_exact [OF blocked AddressCount_SlotCount(1) [OF assms(1)]]
  have link: "IsBlocked (sub_u64 (link_bases plan ! s) (pool_base plan) div kAddressesPerNode) blocked
      \<longleftrightarrow> kernel_uses A routes addresses (link_bases plan ! s)
        \<or> kernel_uses A routes addresses (link_bases plan ! s + 1)" if "s < capacity plan" for s
  proof -
    have "link_bases plan ! s \<in> set (link_bases plan)"
      using that wf_plan_length(2) [OF assms(1)] by simp
    then obtain k where k: "k < SlotCount plan" "link_bases plan ! s = pool_base plan + 2 * k"
      by (rule wf_plan_link [OF assms(1)])
    have "pool_base plan + 2 * k < 2 ^ 64"
      using assms(1) k AddressCount_SlotCount(1) [OF assms(1)] by (auto simp: wf_plan_def)
    then have "sub_u64 (pool_base plan + 2 * k) (pool_base plan) = 2 * k" by (subst sub_u64_exact) auto
    then show ?thesis
      using exact(3) [OF k(1)] IsBlocked_covers [OF exact(1), of k] link_free_iff [OF assms(2), of "pool_base plan" routes addresses k]
      by (auto simp: k(2) kAddressesPerNode_def link_free_def)
  qed
  show ?thesis
    by (auto simp: RequireNodeSlotsAvailable_def blocked result_simps Let_def link split: if_splits)
qed

subsection \<open>Persisting a plan\<close>

lemma network_of_multiple:
  assumes "asio_networks A" "a < 2 ^ 32" "p \<le> 32" "2 ^ (32 - p) dvd a"
  shows "network_v4_network A (a, p) = a"
  using assms by (simp add: asio_networks_def)

lemma AddSerializedLinks:
  assumes "asio_networks A" "asio_prints A" "distinct (links @ bases)"
    and "\<forall>b\<in>set bases. base \<le> b \<and> even b \<and> b + 2 \<le> pool_end" "pool_end \<le> 2 ^ 32"
  shows "fold_result (AddSerializedLink A base pool_end)
      (map (\<lambda>b. JString (network_v4_to_string A (b, 31))) bases) links = Inr (links @ bases)"
  using assms(3,4)
proof (induction bases arbitrary: links)
  case (Cons b bs)
  have b: "b < 2 ^ 32" "even b" "base \<le> b" "b + 2 \<le> pool_end" "b \<notin> set links"
    using Cons.prems assms(5) by auto
  have "make_network_v4 A (network_v4_to_string A (b, 31)) = Some (b, 31)"
    using assms(2) b(1) by (simp add: asio_prints_def)
  moreover have "network_v4_network A (b, 31) = b"
    using b by (intro network_of_multiple assms(1)) auto
  ultimately have "AddSerializedLink A base pool_end (JString (network_v4_to_string A (b, 31))) links = Inr (links @ [b])"
    using b by (simp add: AddSerializedLink_def ParseNetwork_def kNodePrefixLength_def kAddressesPerNode_def Let_def)
  then show ?case using Cons.IH [of "links @ [b]"] Cons.prems by simp
qed simp

text \<open>C5. A well-formed plan survives being written to the run directory and read back,
  given that the address library reads back the networks it prints.\<close>

theorem serialized_round_trip:
  assumes "wf_plan plan" "asio_networks A" "asio_prints A"
  shows "FromSerialized A (ToSerialized A plan) = Inr plan"
proof -
  let ?b = "pool_base plan" and ?l = "pool_prefix_length plan"
  let ?stop = "?b + AddressCount ?l"
  have wf: "?l \<le> 31" "AddressCount ?l dvd ?b" "?stop \<le> 2 ^ 32" "distinct (link_bases plan)"
    using assms(1) by (auto simp: wf_plan_def)
  then have base: "?b < 2 ^ 32" using AddressCount_pos [of ?l] by linarith
  have "make_network_v4 A (PoolCidr A plan) = Some (?b, ?l)"
    using assms(3) base wf(1) by (simp add: asio_prints_def PoolCidr_def)
  moreover have "network_v4_network A (?b, ?l) = ?b"
    using wf(1,2) base by (intro network_of_multiple assms(2)) (auto simp: AddressCount_eq)
  ultimately have pool: "FromCidr A (PoolCidr A plan) 0 = Inr (EmptyPlan ?b ?l)"
    using wf(1) by (simp add: FromCidr_def ParsePool_def kNodePrefixLength_def ExpandedFrom_def)
  have "even ?b" using wf(2) AddressCount_SlotCount(1) [OF assms(1)] by (metis dvd_triv_left dvd_trans)
  then have "\<forall>b\<in>set (link_bases plan). ?b \<le> b \<and> even b \<and> b + 2 \<le> ?stop"
    using assms(1) by (auto simp: wf_plan_def)
  then have "fold_result (AddSerializedLink A ?b ?stop)
      (map (\<lambda>b. JString (network_v4_to_string A (b, 31))) (link_bases plan)) [] = Inr (link_bases plan)"
    using AddSerializedLinks [OF assms(2,3), of "[]" "link_bases plan"] wf by simp
  moreover have "length (link_bases plan) \<le> SlotCount (EmptyPlan ?b ?l)"
    using wf_plan_length(1) [OF assms(1)] by (simp add: SlotCount_def)
  ultimately show ?thesis
    by (simp add: FromSerialized_def ToSerialized_def pool LinkCidrs_def kNodePrefixLength_def comp_def)
qed

subsection \<open>A concrete address library\<close>

text \<open>Addresses as texts of 32 binary digits and networks as an address, a slash and six
  binary digits: an instance that has the documented behaviour assumed above.\<close>

definition bits_text :: "nat \<Rightarrow> nat \<Rightarrow> string" where
  "bits_text k n = map (\<lambda>i. if bit n i then CHR ''1'' else CHR ''0'') [0..<k]"

definition text_bits :: "string \<Rightarrow> nat" where
  "text_bits s = foldr (\<lambda>c n. (if c = CHR ''1'' then 1 else 0) + 2 * n) s 0"

definition binary_asio :: asio where
  "binary_asio = \<lparr>
     make_network_v4 = (\<lambda>s. if length s = 39 \<and> text_bits (drop 33 s) \<le> 32
        then Some (text_bits (take 32 s), text_bits (drop 33 s)) else None),
     make_address_v4 = (\<lambda>s. if length s = 32 then Some (text_bits s) else None),
     network_v4_network = (\<lambda>(a, p). a - a mod 2 ^ (32 - p)),
     network_v4_to_string = (\<lambda>(a, p). bits_text 32 a @ CHR ''/'' # bits_text 6 p),
     address_v4_to_string = bits_text 32\<rparr>"

lemma bits_text_length [simp]: "length (bits_text k n) = k"
  by (simp add: bits_text_def)

lemma text_bits_less: "text_bits s < 2 ^ length s"
  by (induction s) (auto simp: text_bits_def)

lemma text_bits_horner: "text_bits s = horner_sum of_bool 2 (map (\<lambda>c. c = CHR ''1'') s)"
  by (induction s) (auto simp: text_bits_def)

lemma text_bits_text: "n < 2 ^ k \<Longrightarrow> text_bits (bits_text k n) = n"
proof -
  assume "n < 2 ^ k"
  have "map (\<lambda>c. c = CHR ''1'') (bits_text k n) = map (bit n) [0..<k]"
    by (simp add: bits_text_def)
  then show ?thesis
    using \<open>n < 2 ^ k\<close> by (simp add: text_bits_horner horner_sum_bit_eq_take_bit take_bit_nat_eq_self)
qed

lemma binary_asio_laws:
  "asio_networks binary_asio" "asio_addresses binary_asio" "asio_prints binary_asio"
proof -
  have less: "text_bits s < 2 ^ k" if "length s \<le> k" for s k
    by (rule order_less_le_trans [OF text_bits_less power_increasing [OF that]]) simp
  show "asio_networks binary_asio"
    using less [of "take 32 _" 32] by (auto simp: asio_networks_def binary_asio_def split: if_splits)
  show "asio_addresses binary_asio"
    using less [of _ 32] by (auto simp: asio_addresses_def binary_asio_def split: if_splits)
  show "asio_prints binary_asio"
    by (auto simp: asio_prints_def binary_asio_def bits_text_length text_bits_text)
qed

text \<open>The pool 10.0.0.0/29 with the link 10.0.0.2 handed out, a route to 10.0.0.4/31 and the
  default route, and an interface address 10.0.0.1.\<close>

definition example_plan :: SimulationNetworkAddressPlan where
  "example_plan = \<lparr>pool_base = 167772160, pool_prefix_length = 29, link_bases = [167772162]\<rparr>"

definition example_routes :: "RouteInfo list" where
  "example_routes =
     [\<lparr>ri_destination = bits_text 32 167772164, ri_prefix_len = 31\<rparr>,
      \<lparr>ri_destination = bits_text 32 0, ri_prefix_len = 0\<rparr>]"

definition example_addresses :: "AddressInfo list" where
  "example_addresses = [\<lparr>ai_address = bits_text 32 167772161\<rparr>]"

lemma binary_address: "n < 2 ^ 32 \<Longrightarrow> make_address_v4 binary_asio (bits_text 32 n) = Some n"
  by (simp add: binary_asio_def bits_text_length text_bits_text)

lemma example_wf: "wf_plan example_plan"
  by (simp add: wf_plan_def example_plan_def AddressCount_eq)

lemma example_readable: "readable binary_asio example_routes example_addresses"
  by (simp add: readable_def example_routes_def example_addresses_def binary_address)

lemma example_capacity: "capacity example_plan = 1"
  by (simp add: capacity_def example_plan_def)

lemma example_rotation:
  "rotation binary_asio example_plan example_routes example_addresses (next_slot example_plan) = [3]"
proof -
  have "SlotCount example_plan = 4" "next_slot example_plan = 2"
    by (simp_all add: SlotCount_def next_slot_def example_plan_def AddressCount_eq kAddressesPerNode_def)
  then show ?thesis
    by (simp add: rotation_def upt_rec link_free_iff [OF binary_asio_laws(2)] kernel_uses_def
        example_routes_def example_addresses_def binary_address example_plan_def)
qed

lemma example_expanded:
  "Expanded binary_asio example_plan 2 example_routes example_addresses
    = Inr (example_plan \<lparr>link_bases := [167772162, 167772166]\<rparr>)"
proof -
  have "Expanded binary_asio example_plan 2 example_routes example_addresses
      = ExpandedFrom binary_asio example_plan 2 example_routes example_addresses (next_slot example_plan)"
    by (rule Expanded_eq(1) [OF example_wf])
  then show ?thesis
    using ExpandedFrom_grow [OF example_wf example_readable Expanded_eq(2) [OF example_wf], of 2]
    by (simp add: example_capacity example_rotation Let_def) (simp add: example_plan_def)
qed

theorem Expanded_safe_witness:
  "expansion_ok binary_asio example_plan 2 example_routes example_addresses
     (example_plan \<lparr>link_bases := [167772162, 167772166]\<rparr>)"
  by (rule Expanded_safe [OF example_wf binary_asio_laws(2) _ example_expanded]) simp

theorem Expanded_first_free_witness:
  "Expanded binary_asio example_plan 3 example_routes example_addresses =
     Inl (RuntimeError (''isolated network /31 link pool exhausted: pool '' @ PoolCidr binary_asio example_plan
            @ '', requested '' @ to_string 2 @ '', available '' @ to_string 1))"
  using Expanded_first_free [OF example_wf example_readable, of 3]
  by (simp add: example_capacity example_rotation Let_def)

theorem RequireNodeSlotsAvailable_witness:
  "RequireNodeSlotsAvailable binary_asio example_plan [0] example_routes example_addresses = Inr ()
   \<and> RequireNodeSlotsAvailable binary_asio example_plan [1] example_routes example_addresses \<noteq> Inr ()"
  using RequireNodeSlotsAvailable_iff [OF example_wf binary_asio_laws(2) example_readable, of "[0]"]
    RequireNodeSlotsAvailable_iff [OF example_wf binary_asio_laws(2) example_readable, of "[1]"]
  by (simp add: example_capacity kernel_uses_def example_routes_def example_addresses_def binary_address)
    (simp add: example_plan_def)

theorem serialized_round_trip_witness:
  "FromSerialized binary_asio (ToSerialized binary_asio example_plan) = Inr example_plan"
  by (rule serialized_round_trip [OF example_wf binary_asio_laws(1,3)])

lemma example_pool:
  "ParsePool binary_asio (network_v4_to_string binary_asio (167772161, 29)) = Inr (167772160, 29)"
  using binary_asio_laws(1,3)
  by (simp add: ParsePool_def asio_prints_def asio_networks_def kNodePrefixLength_def)

theorem Allocate_iff_witness:
  "\<exists>plan. Allocate binary_asio ''run-1'' 2 example_routes example_addresses
       (network_v4_to_string binary_asio (167772161, 29)) = Inr plan
     \<and> expansion_ok binary_asio (EmptyPlan 167772160 29) 2 example_routes example_addresses plan"
proof -
  have "SlotCount (EmptyPlan 167772160 29) = 4"
    by (simp add: SlotCount_def AddressCount_eq kAddressesPerNode_def)
  moreover have "link_free binary_asio 167772160 example_routes example_addresses slot \<longleftrightarrow> slot \<noteq> 0 \<and> slot \<noteq> 2"
    if "slot < 4" for slot
    using that unfolding link_free_iff [OF binary_asio_laws(2)]
    by (auto simp: kernel_uses_def example_routes_def example_addresses_def binary_address)
  ultimately have "{slot. slot < SlotCount (EmptyPlan 167772160 29)
      \<and> link_free binary_asio 167772160 example_routes example_addresses slot} = {1, 3}"
    by auto
  then show ?thesis
    using Allocate_iff [OF binary_asio_laws(1,2) example_pool example_readable, of 2 "''run-1''"] by simp
qed

end
