(* ===== verification/Network_Model.thy ===== *)
theory Network_Model
  imports BBP_Prelude
begin

text \<open>
  Network conditions and the directional policies of a node, the pure part of
  \<open>src/network.cpp\<close>: validation of a condition, its encoding for the kernel's netem and
  tbf queueing disciplines, and the check of a list of directional policies. Fields are
  natural numbers below \<open>2 ^ 32\<close>; a multiplication on \<open>uint32_t\<close> and a narrowing cast are
  written with their modulus. The address parser (\<open>inet_pton\<close>) is a parameter.
\<close>

record NetworkCondition =
  bandwidth_kbps :: nat
  delay_ms :: nat
  jitter_ms :: nat
  loss_basis_points :: nat
  duplicate_basis_points :: nat
  corrupt_basis_points :: nat
  reorder_basis_points :: nat
  limit_packets :: nat

definition DefaultNetworkCondition :: NetworkCondition where
  "DefaultNetworkCondition = \<lparr>bandwidth_kbps = 0, delay_ms = 0, jitter_ms = 0,
     loss_basis_points = 0, duplicate_basis_points = 0, corrupt_basis_points = 0,
     reorder_basis_points = 0, limit_packets = 1000\<rparr>"

record DirectionalNetworkPolicy =
  dp_band :: nat
  dp_destination_address :: string
  dp_condition :: NetworkCondition

definition kMaximumDirectionalPolicies :: nat where
  "kMaximumDirectionalPolicies = 15"

definition ValidateNetworkCondition :: "NetworkCondition \<Rightarrow> unit result" where
  "ValidateNetworkCondition condition =
     (if delay_ms condition > 4294967 \<or> jitter_ms condition > 4294967
      then Inl (RuntimeError ''netem delay and jitter must fit in uint32 usec'')
      else if loss_basis_points condition > 10000
      then Inl (RuntimeError ''netem loss basis points must be 0..10000'')
      else if duplicate_basis_points condition > 10000
      then Inl (RuntimeError ''netem duplicate basis points must be 0..10000'')
      else if corrupt_basis_points condition > 10000
      then Inl (RuntimeError ''netem corrupt basis points must be 0..10000'')
      else if reorder_basis_points condition > 10000
      then Inl (RuntimeError ''netem reorder basis points must be 0..10000'')
      else if limit_packets condition = 0
      then Inl (RuntimeError ''netem packet limit must be greater than zero'')
      else Inr ())"

definition ParseIpv4Address :: "(string \<Rightarrow> bool) \<Rightarrow> string \<Rightarrow> string \<Rightarrow> unit result" where
  "ParseIpv4Address inet_pton address field_name =
     (if inet_pton (c_str address) then Inr ()
      else Inl (RuntimeError (''invalid IPv4 '' @ field_name @ '': '' @ address)))"

definition CheckPolicy ::
    "(string \<Rightarrow> bool) \<Rightarrow> DirectionalNetworkPolicy \<Rightarrow> nat set \<times> string list \<Rightarrow> (nat set \<times> string list) result" where
  "CheckPolicy inet_pton policy state =
     (let bands = fst state; destinations = snd state in
      if dp_band policy = 0 \<or> dp_band policy > kMaximumDirectionalPolicies
      then Inl (RuntimeError ''directional network policy band must be 1..15'')
      else if dp_band policy \<in> bands
      then Inl (RuntimeError ''duplicate directional network policy band'')
      else bind_result (ParseIpv4Address inet_pton (dp_destination_address policy) ''policy destination'') (\<lambda>_.
        if dp_destination_address policy \<in> set destinations
        then Inl (RuntimeError ''duplicate directional network policy destination'')
        else bind_result (ValidateNetworkCondition (dp_condition policy)) (\<lambda>_.
          Inr (insert (dp_band policy) bands, destinations @ [dp_destination_address policy]))))"

definition ValidateDirectionalNetworkPolicies ::
    "(string \<Rightarrow> bool) \<Rightarrow> DirectionalNetworkPolicy list \<Rightarrow> unit result" where
  "ValidateDirectionalNetworkPolicies inet_pton policies =
     (if length policies > kMaximumDirectionalPolicies
      then Inl (RuntimeError ''directional network policy count exceeds 15'')
      else bind_result (fold_result (CheckPolicy inet_pton) policies ({}, [])) (\<lambda>_. Inr ()))"

subsection \<open>Encoding for the kernel\<close>

definition HasNetemCondition :: "NetworkCondition \<Rightarrow> bool" where
  "HasNetemCondition condition =
     (delay_ms condition \<noteq> 0 \<or> jitter_ms condition \<noteq> 0 \<or> loss_basis_points condition \<noteq> 0
      \<or> duplicate_basis_points condition \<noteq> 0 \<or> corrupt_basis_points condition \<noteq> 0
      \<or> reorder_basis_points condition \<noteq> 0)"

definition HasBandwidthCondition :: "NetworkCondition \<Rightarrow> bool" where
  "HasBandwidthCondition condition = (bandwidth_kbps condition \<noteq> 0)"

definition NetemProbability :: "nat \<Rightarrow> nat" where
  "NetemProbability basis_points = ((basis_points * 0xFFFFFFFF) div 10000) mod 2 ^ 32"

definition NetemMicroseconds :: "nat \<Rightarrow> nat" where
  "NetemMicroseconds milliseconds = (milliseconds * 1000) mod 2 ^ 32"

definition TbfRateBytesPerSecond :: "NetworkCondition \<Rightarrow> nat result" where
  "TbfRateBytesPerSecond condition =
     (if bandwidth_kbps condition > (2 ^ 64 - 1) div 1000
      then Inl (OverflowError ''TBF bandwidth conversion exceeds uint64 bytes per second'')
      else Inr (bandwidth_kbps condition * 1000))"

definition SaturatingUint32 :: "nat \<Rightarrow> nat" where
  "SaturatingUint32 n = (if n > 2 ^ 32 - 1 then 2 ^ 32 - 1 else n mod 2 ^ 32)"

definition TbfBurstBytes :: "NetworkCondition \<Rightarrow> nat result" where
  "TbfBurstBytes condition =
     bind_result (TbfRateBytesPerSecond condition) (\<lambda>rate.
       let ten_ms_burst = rate div 100 in
       Inr (SaturatingUint32 (if ten_ms_burst > 1500 then ten_ms_burst else 1500)))"

definition TbfLimitBytes :: "NetworkCondition \<Rightarrow> nat result" where
  "TbfLimitBytes condition =
     bind_result (TbfRateBytesPerSecond condition) (\<lambda>rate.
     bind_result (TbfBurstBytes condition) (\<lambda>burst.
       let rate_limit = rate div 10;
           burst_limit = burst * 4;
           limit0 = 64 * 1024;
           limit1 = (if rate_limit > limit0 then rate_limit else limit0);
           limit2 = (if burst_limit > limit1 then burst_limit else limit1)
       in Inr (SaturatingUint32 limit2)))"

subsection \<open>Lemmas\<close>

lemma ValidateNetworkCondition_iff:
  "ValidateNetworkCondition condition = Inr () \<longleftrightarrow>
     delay_ms condition \<le> 4294967 \<and> jitter_ms condition \<le> 4294967
     \<and> loss_basis_points condition \<le> 10000 \<and> duplicate_basis_points condition \<le> 10000
     \<and> corrupt_basis_points condition \<le> 10000 \<and> reorder_basis_points condition \<le> 10000
     \<and> limit_packets condition \<noteq> 0"
  by (auto simp: ValidateNetworkCondition_def)

text \<open>The loop over the policies accepts exactly the lists with distinct bands in
  range, distinct readable destinations and valid conditions.\<close>

lemma CheckPolicy_iff:
  "CheckPolicy inet_pton policy (bands, destinations) = Inr state \<longleftrightarrow>
     0 < dp_band policy \<and> dp_band policy \<le> kMaximumDirectionalPolicies \<and> dp_band policy \<notin> bands
     \<and> inet_pton (c_str (dp_destination_address policy)) \<and> dp_destination_address policy \<notin> set destinations
     \<and> ValidateNetworkCondition (dp_condition policy) = Inr ()
     \<and> state = (insert (dp_band policy) bands, destinations @ [dp_destination_address policy])"
  by (auto simp: CheckPolicy_def Let_def ParseIpv4Address_def result_simps)

lemma CheckPolicies_iff:
  "(\<exists>state. fold_result (CheckPolicy inet_pton) policies (bands, destinations) = Inr state) \<longleftrightarrow>
     (\<forall>p\<in>set policies. 0 < dp_band p \<and> dp_band p \<le> kMaximumDirectionalPolicies
        \<and> inet_pton (c_str (dp_destination_address p)) \<and> ValidateNetworkCondition (dp_condition p) = Inr ())
     \<and> distinct (map dp_band policies) \<and> dp_band ` set policies \<inter> bands = {}
     \<and> distinct (map dp_destination_address policies)
     \<and> dp_destination_address ` set policies \<inter> set destinations = {}"
proof (induction policies arbitrary: bands destinations)
  case (Cons p ps)
  have "(\<exists>state. fold_result (CheckPolicy inet_pton) (p # ps) (bands, destinations) = Inr state) \<longleftrightarrow>
      CheckPolicy inet_pton p (bands, destinations)
        = Inr (insert (dp_band p) bands, destinations @ [dp_destination_address p])
      \<and> (\<exists>state. fold_result (CheckPolicy inet_pton) ps
          (insert (dp_band p) bands, destinations @ [dp_destination_address p]) = Inr state)"
    by (auto simp: result_simps CheckPolicy_iff)
  then show ?case unfolding Cons.IH CheckPolicy_iff by auto
qed simp

lemma ValidateDirectionalNetworkPolicies_iff:
  "ValidateDirectionalNetworkPolicies inet_pton policies = Inr () \<longleftrightarrow>
     length policies \<le> 15
     \<and> (\<forall>p\<in>set policies. 0 < dp_band p \<and> dp_band p \<le> 15
        \<and> inet_pton (c_str (dp_destination_address p)) \<and> ValidateNetworkCondition (dp_condition p) = Inr ())
     \<and> distinct (map dp_band policies) \<and> distinct (map dp_destination_address policies)"
  using CheckPolicies_iff [of inet_pton policies "{}" "[]"]
  by (auto simp: ValidateDirectionalNetworkPolicies_def kMaximumDirectionalPolicies_def result_simps)

lemma NetemProbability_exact:
  "basis_points \<le> 10000 \<Longrightarrow> NetemProbability basis_points = basis_points * 4294967295 div 10000"
  unfolding NetemProbability_def by (intro mod_less) (simp add: div_less_iff_less_mult)

lemma NetemProbability_scale:
  assumes "basis_points \<le> 10000"
  shows "NetemProbability basis_points = basis_points * 4294967295 div 10000"
    "NetemProbability basis_points = 0 \<longleftrightarrow> basis_points = 0"
    "NetemProbability basis_points = 2 ^ 32 - 1 \<longleftrightarrow> basis_points = 10000"
proof -
  show exact: "NetemProbability basis_points = basis_points * 4294967295 div 10000"
    by (rule NetemProbability_exact [OF assms])
  show "NetemProbability basis_points = 0 \<longleftrightarrow> basis_points = 0"
    unfolding exact by (auto simp: div_eq_0_iff)
  have "basis_points * 4294967295 div 10000 < 4294967295" if "basis_points < 10000"
    using that by (simp add: div_less_iff_less_mult)
  then show "NetemProbability basis_points = 2 ^ 32 - 1 \<longleftrightarrow> basis_points = 10000"
    unfolding exact using assms by (cases "basis_points = 10000") auto
qed

lemma SaturatingUint32_min: "SaturatingUint32 n = min n (2 ^ 32 - 1)"
  by (simp add: SaturatingUint32_def)

text \<open>The limit that follows from the burst is never the largest of the three.\<close>

lemma Tbf_exact:
  assumes "bandwidth_kbps condition < 2 ^ 32"
  shows "TbfRateBytesPerSecond condition = Inr (bandwidth_kbps condition * 1000)"
    "TbfBurstBytes condition = Inr (min (max (10 * bandwidth_kbps condition) 1500) (2 ^ 32 - 1))"
    "TbfLimitBytes condition = Inr (min (max (100 * bandwidth_kbps condition) 65536) (2 ^ 32 - 1))"
proof -
  show rate: "TbfRateBytesPerSecond condition = Inr (bandwidth_kbps condition * 1000)"
    using assms by (simp add: TbfRateBytesPerSecond_def)
  show burst: "TbfBurstBytes condition = Inr (min (max (10 * bandwidth_kbps condition) 1500) (2 ^ 32 - 1))"
    by (simp add: TbfBurstBytes_def rate Let_def SaturatingUint32_min max_def)
  show "TbfLimitBytes condition = Inr (min (max (100 * bandwidth_kbps condition) 65536) (2 ^ 32 - 1))"
    by (simp add: TbfLimitBytes_def rate burst Let_def SaturatingUint32_min max_def min_def)
qed

text \<open>C6. For a condition that validation accepts, the values written to the kernel are these: the delay and the
  jitter in microseconds, without wrap-around; each of the four probabilities as its share of the 32-bit scale,
  rounded down, where nothing but zero becomes zero and nothing but certainty becomes the full scale; the exact rate in
  bytes per second; a burst of ten milliseconds of that rate, but at least 1500 bytes, and a limit of a hundred
  milliseconds of it, but at least 64 KiB, both cut off at the largest 32-bit value.\<close>

theorem network_condition_encoding:
  assumes "ValidateNetworkCondition condition = Inr ()" "bandwidth_kbps condition < 2 ^ 32"
  shows "NetemMicroseconds (delay_ms condition) = delay_ms condition * 1000
    \<and> NetemMicroseconds (jitter_ms condition) = jitter_ms condition * 1000
    \<and> (\<forall>p\<in>{loss_basis_points condition, duplicate_basis_points condition,
          corrupt_basis_points condition, reorder_basis_points condition}.
        NetemProbability p = p * (2 ^ 32 - 1) div 10000
        \<and> (NetemProbability p = 0 \<longleftrightarrow> p = 0) \<and> (NetemProbability p = 2 ^ 32 - 1 \<longleftrightarrow> p = 10000))
    \<and> TbfRateBytesPerSecond condition = Inr (bandwidth_kbps condition * 1000)
    \<and> TbfBurstBytes condition = Inr (min (max (10 * bandwidth_kbps condition) 1500) (2 ^ 32 - 1))
    \<and> TbfLimitBytes condition = Inr (min (max (100 * bandwidth_kbps condition) 65536) (2 ^ 32 - 1))"
proof -
  have delay: "NetemMicroseconds ms = ms * 1000" if "ms \<le> 4294967" for ms
    unfolding NetemMicroseconds_def by (rule mod_less) (use that in simp)
  have "p \<le> 10000" if "p \<in> {loss_basis_points condition, duplicate_basis_points condition,
      corrupt_basis_points condition, reorder_basis_points condition}" for p
    using assms(1) that unfolding ValidateNetworkCondition_iff by blast
  then have probabilities: "NetemProbability p = p * (2 ^ 32 - 1) div 10000
      \<and> (NetemProbability p = 0 \<longleftrightarrow> p = 0) \<and> (NetemProbability p = 2 ^ 32 - 1 \<longleftrightarrow> p = 10000)"
    if "p \<in> {loss_basis_points condition, duplicate_basis_points condition,
      corrupt_basis_points condition, reorder_basis_points condition}" for p
    using NetemProbability_scale [of p] that by simp
  have "NetemMicroseconds (delay_ms condition) = delay_ms condition * 1000"
    "NetemMicroseconds (jitter_ms condition) = jitter_ms condition * 1000"
    using assms(1) delay unfolding ValidateNetworkCondition_iff by simp_all
  then show ?thesis using Tbf_exact [OF assms(2)] by (intro conjI ballI probabilities) simp_all
qed

theorem network_condition_encoding_witness:
  "NetemProbability 10000 = 4294967295 \<and> NetemMicroseconds 4294967 = 4294967000 \<and>
   TbfBurstBytes (DefaultNetworkCondition\<lparr>loss_basis_points := 10000, delay_ms := 4294967, bandwidth_kbps := 8000\<rparr>) = Inr 80000"
  using network_condition_encoding [of "DefaultNetworkCondition
      \<lparr>loss_basis_points := 10000, delay_ms := 4294967, bandwidth_kbps := 8000\<rparr>"]
  by (simp add: ValidateNetworkCondition_iff DefaultNetworkCondition_def)

end
