(* ===== verification/Peer_Topology.thy ===== *)
theory Peer_Topology
  imports Network_Model "HOL-Library.Product_Lexorder"
begin

text \<open>
  Peer topologies, \<open>src/default_peer_topology.cpp\<close>: from a configuration to the sorted
  list of directed edges between the nodes of a simulation, and the renumbering of a
  configuration when nodes are removed.

  Node indexes are natural numbers (below \<open>2 ^ 32\<close> in the code; \<open>node + 1\<close> is at most
  \<open>node_count\<close>, so no index computation wraps). The \<open>std::map\<close> of the edge collector is a
  list sorted by key. The random engine is the parameter \<open>rng\<close>: the theorems hold for
  every engine, \<open>std::mt19937_64\<close> included; its rejection loop may run forever, which is
  the value \<open>Diverged\<close>.
\<close>

subsection \<open>Data\<close>

datatype PeerTopologyKind =
    kFullMesh | kRing | kStar | kRandomGraph | kScaleFreeGraph | kLatencyMatrix
  | kCustomEdgeList | kPartitionedGroups | kInternetLikeRegionGraph | kPeerTopologyKindCount

fun PeerTopologyKindName :: "PeerTopologyKind \<Rightarrow> string" where
  "PeerTopologyKindName kFullMesh = ''full_mesh''"
| "PeerTopologyKindName kRing = ''ring''"
| "PeerTopologyKindName kStar = ''star''"
| "PeerTopologyKindName kRandomGraph = ''random_graph''"
| "PeerTopologyKindName kScaleFreeGraph = ''scale_free_graph''"
| "PeerTopologyKindName kLatencyMatrix = ''latency_matrix''"
| "PeerTopologyKindName kCustomEdgeList = ''custom_edge_list''"
| "PeerTopologyKindName kPartitionedGroups = ''partitioned_groups''"
| "PeerTopologyKindName kInternetLikeRegionGraph = ''internet_like_region_graph''"
| "PeerTopologyKindName kPeerTopologyKindCount = ''unknown''"

definition PeerTopologyKindFromName :: "string \<Rightarrow> PeerTopologyKind option" where
  "PeerTopologyKindFromName name =
     (if name = ''full_mesh'' then Some kFullMesh
      else if name = ''ring'' then Some kRing
      else if name = ''star'' then Some kStar
      else if name = ''random_graph'' then Some kRandomGraph
      else if name = ''scale_free_graph'' then Some kScaleFreeGraph
      else if name = ''latency_matrix'' then Some kLatencyMatrix
      else if name = ''custom_edge_list'' then Some kCustomEdgeList
      else if name = ''partitioned_groups'' then Some kPartitionedGroups
      else if name = ''internet_like_region_graph'' \<or> name = ''region_graph''
      then Some kInternetLikeRegionGraph
      else None)"

record PeerTopologyEdge =
  te_from :: nat
  te_to :: nat
  te_bidirectional :: bool
  te_active :: bool
  te_latency_ms :: "nat option"
  te_condition :: "NetworkCondition option"

record PeerTopologyRegionEdge =
  re_from_region :: nat
  re_to_region :: nat
  re_bidirectional :: bool
  re_active :: bool
  re_latency_ms :: "nat option"
  re_condition :: "NetworkCondition option"

record PeerTopologyConfig =
  tc_kind :: PeerTopologyKind
  tc_seed :: u64
  tc_star_center :: nat
  tc_average_degree :: nat
  tc_attachment_count :: nat
  tc_edges :: "PeerTopologyEdge list"
  tc_groups :: "nat list list"
  tc_latency_matrix_ms :: "nat option list list"
  tc_regions :: "nat list list"
  tc_region_edges :: "PeerTopologyRegionEdge list"

definition DefaultPeerTopologyConfig :: PeerTopologyConfig where
  "DefaultPeerTopologyConfig = \<lparr>tc_kind = kFullMesh, tc_seed = 0, tc_star_center = 0,
     tc_average_degree = 0, tc_attachment_count = 0, tc_edges = [], tc_groups = [],
     tc_latency_matrix_ms = [], tc_regions = [], tc_region_edges = []\<rparr>"

record ResolvedPeerTopologyEdge =
  rp_from :: nat
  rp_to :: nat
  rp_latency_ms :: "nat option"
  rp_condition :: "NetworkCondition option"

type_synonym EdgeKey = "nat \<times> nat"

record EdgeAttributes =
  ea_latency_ms :: "nat option"
  ea_condition :: "NetworkCondition option"

record EdgeCollector =
  ec_node_count :: nat
  ec_edges :: "(EdgeKey \<times> EdgeAttributes) list"

text \<open>A random engine: seeding and drawing.\<close>

record 'g rng =
  rng_seed :: "u64 \<Rightarrow> 'g"
  rng_next :: "'g \<Rightarrow> u64 \<times> 'g"

subsection \<open>The edge collector\<close>

definition Collector_Add ::
    "nat \<Rightarrow> nat \<Rightarrow> nat option \<Rightarrow> NetworkCondition option \<Rightarrow> EdgeCollector \<Rightarrow> EdgeCollector result" where
  "Collector_Add src dst latency condition c =
     (if src \<ge> ec_node_count c \<or> dst \<ge> ec_node_count c
      then Inl (RuntimeError ''peer topology edge node is out of range'')
      else if src = dst
      then Inl (RuntimeError ''peer topology must not contain self edges'')
      else bind_result (case condition of None \<Rightarrow> Inr () | Some nc \<Rightarrow> ValidateNetworkCondition nc) (\<lambda>_.
        let attributes = \<lparr>ea_latency_ms = latency, ea_condition = condition\<rparr> in
        case map_of (ec_edges c) (src, dst) of
          None \<Rightarrow> Inr (c \<lparr>ec_edges := smap_insert (src, dst) attributes (ec_edges c)\<rparr>)
        | Some present \<Rightarrow>
            if present \<noteq> attributes
            then Inl (RuntimeError ''peer topology contains conflicting duplicate edges'')
            else Inr c))"

definition Collector_AddBidirectional ::
    "nat \<Rightarrow> nat \<Rightarrow> nat option \<Rightarrow> NetworkCondition option \<Rightarrow> EdgeCollector \<Rightarrow> EdgeCollector result" where
  "Collector_AddBidirectional left_node right_node latency condition c =
     bind_result (Collector_Add left_node right_node latency condition c)
       (Collector_Add right_node left_node latency condition)"

definition Collector_Resolve :: "EdgeCollector \<Rightarrow> ResolvedPeerTopologyEdge list" where
  "Collector_Resolve c = map (\<lambda>(nodes, attributes).
     \<lparr>rp_from = fst nodes, rp_to = snd nodes, rp_latency_ms = ea_latency_ms attributes,
      rp_condition = ea_condition attributes\<rparr>) (ec_edges c)"

definition RequireNodeCount :: "nat \<Rightarrow> unit result" where
  "RequireNodeCount node_count =
     (if node_count = 0 then Inl (RuntimeError ''peer topology node count must be greater than zero'')
      else Inr ())"

definition AllNodes :: "nat \<Rightarrow> nat list" where
  "AllNodes node_count = [0..<node_count]"

definition AddFullMesh :: "nat list \<Rightarrow> EdgeCollector \<Rightarrow> EdgeCollector result" where
  "AddFullMesh nodes =
     fold_result (\<lambda>src. fold_result (\<lambda>dst c.
       if src \<noteq> dst then Collector_Add src dst None None c else Inr c) nodes) nodes"

definition CheckPartitionNode :: "nat \<Rightarrow> string \<Rightarrow> nat \<Rightarrow> nat set \<Rightarrow> nat set result" where
  "CheckPartitionNode node_count field node seen =
     (if node \<ge> node_count then Inl (RuntimeError (field @ '' contains an out-of-range node''))
      else if node \<in> seen then Inl (RuntimeError (field @ '' contains a duplicate node''))
      else Inr (insert node seen))"

definition RequireExactNodePartition :: "nat list list \<Rightarrow> nat \<Rightarrow> string \<Rightarrow> unit result" where
  "RequireExactNodePartition groups node_count field =
     (if groups = [] then Inl (RuntimeError (field @ '' must not be empty''))
      else bind_result (fold_result (\<lambda>group seen.
             if group = [] then Inl (RuntimeError (field @ '' must not contain empty groups''))
             else fold_result (CheckPartitionNode node_count field) group seen) groups {}) (\<lambda>seen.
        if \<exists>node\<in>set [0..<node_count]. node \<notin> seen
        then Inl (RuntimeError (field @ '' must assign every simulated node''))
        else Inr ()))"

subsection \<open>Random graphs\<close>

partial_function (option) draw_at_least :: "('g \<Rightarrow> u64 \<times> 'g) \<Rightarrow> u64 \<Rightarrow> 'g \<Rightarrow> (u64 \<times> 'g) option" where
  "draw_at_least draw threshold g =
     (if threshold \<le> fst (draw g) then Some (draw g)
      else draw_at_least draw threshold (snd (draw g)))"

definition BoundedRandom :: "'g rng \<Rightarrow> 'g \<Rightarrow> u64 \<Rightarrow> (u64 \<times> 'g) result" where
  "BoundedRandom R g upper_bound =
     (if upper_bound = 0 then Inl (RuntimeError ''random topology bound must be positive'')
      else let rejection_threshold = (max_u64 - upper_bound + 1) mod upper_bound in
        case draw_at_least (rng_next R) rejection_threshold g of
          None \<Rightarrow> Inl Diverged
        | Some (n, g') \<Rightarrow> Inr (n mod upper_bound, g'))"

definition swap :: "nat \<Rightarrow> nat \<Rightarrow> 'a list \<Rightarrow> 'a list" where
  "swap i j xs = xs[i := xs ! j, j := xs ! i]"

fun Shuffle :: "'g rng \<Rightarrow> nat \<Rightarrow> 'a list \<times> 'g \<Rightarrow> ('a list \<times> 'g) result" where
  "Shuffle R 0 (candidates, g) = Inr (candidates, g)"
| "Shuffle R (Suc 0) (candidates, g) = Inr (candidates, g)"
| "Shuffle R (Suc (Suc k)) (candidates, g) =
     bind_result (BoundedRandom R g (word_of_nat (Suc (Suc k)))) (\<lambda>(selected, g').
       Shuffle R (Suc k) (swap (Suc k) (unat selected) candidates, g'))"

definition Candidates :: "nat \<Rightarrow> EdgeKey list" where
  "Candidates node_count =
     concat (map (\<lambda>left_node. map (\<lambda>right_node. (left_node, right_node)) [left_node + 1..<node_count]) [0..<node_count])"

definition AddRandomGraph :: "'g rng \<Rightarrow> PeerTopologyConfig \<Rightarrow> nat \<Rightarrow> EdgeCollector \<Rightarrow> EdgeCollector result" where
  "AddRandomGraph R topology node_count c =
     (if tc_average_degree topology \<ge> node_count
      then Inl (RuntimeError ''random graph average_degree must be less than node count'')
      else let candidates = Candidates node_count in
        bind_result (Shuffle R (length candidates) (candidates, rng_seed R (tc_seed topology))) (\<lambda>(shuffled, _).
          let desired_edges = node_count * tc_average_degree topology div 2 in
          fold_result (\<lambda>(a, b). Collector_AddBidirectional a b None None) (take desired_edges shuffled) c))"

definition bump :: "nat \<Rightarrow> nat list \<Rightarrow> nat list" where
  "bump i degrees = degrees[i := degrees ! i + 1]"

definition ConnectPair :: "nat \<Rightarrow> nat \<Rightarrow> EdgeCollector \<times> nat list \<Rightarrow> (EdgeCollector \<times> nat list) result" where
  "ConnectPair a b state =
     bind_result (Collector_AddBidirectional a b None None (fst state)) (\<lambda>c.
       Inr (c, bump b (bump a (snd state))))"

definition TotalWeight :: "nat list \<Rightarrow> nat list \<Rightarrow> nat \<Rightarrow> nat result" where
  "TotalWeight degrees selected node =
     fold_result (\<lambda>candidate total.
       if candidate \<in> set selected then Inr total
       else if degrees ! candidate > 2 ^ 64 - 1 - total
       then Inl (RuntimeError ''scale-free graph degree weight overflow'')
       else Inr (total + degrees ! candidate)) [0..<node] 0"

fun PickCandidate :: "nat list \<Rightarrow> nat list \<Rightarrow> nat list \<Rightarrow> nat \<Rightarrow> nat option" where
  "PickCandidate degrees selected [] draw = None"
| "PickCandidate degrees selected (candidate # rest) draw =
     (if candidate \<in> set selected then PickCandidate degrees selected rest draw
      else if draw < degrees ! candidate then Some candidate
      else PickCandidate degrees selected rest (draw - degrees ! candidate))"

text \<open>The loop \<open>while (selected.size() < attachment_count)\<close>.\<close>

partial_function (option) SelectAttachments ::
    "'g rng \<Rightarrow> nat list \<Rightarrow> nat \<Rightarrow> nat \<Rightarrow> nat list \<Rightarrow> 'g \<Rightarrow> (nat list \<times> 'g) result option" where
  "SelectAttachments R degrees attachment_count node selected g =
     (if \<not> length selected < attachment_count then Some (Inr (selected, g))
      else case TotalWeight degrees selected node of
        Inl e \<Rightarrow> Some (Inl e)
      | Inr total_weight \<Rightarrow>
          if total_weight = 0
          then Some (Inl (RuntimeError ''scale-free graph has no weighted attachment candidate''))
          else case BoundedRandom R g (word_of_nat total_weight) of
            Inl e \<Rightarrow> Some (Inl e)
          | Inr drawn \<Rightarrow>
              (case PickCandidate degrees selected [0..<node] (unat (fst drawn)) of
                 None \<Rightarrow> SelectAttachments R degrees attachment_count node selected (snd drawn)
               | Some candidate \<Rightarrow>
                   SelectAttachments R degrees attachment_count node (sset_insert candidate selected) (snd drawn)))"

definition AttachNode ::
    "'g rng \<Rightarrow> nat \<Rightarrow> nat \<Rightarrow> (EdgeCollector \<times> nat list) \<times> 'g \<Rightarrow> ((EdgeCollector \<times> nat list) \<times> 'g) result" where
  "AttachNode R attachment_count node state =
     (case SelectAttachments R (snd (fst state)) attachment_count node [] (snd state) of
        None \<Rightarrow> Inl Diverged
      | Some outcome \<Rightarrow>
          bind_result outcome (\<lambda>(selected, g).
          bind_result (fold_result (ConnectPair node) selected (fst state)) (\<lambda>connected.
            Inr (connected, g))))"

definition AttachmentCount :: "PeerTopologyConfig \<Rightarrow> nat result" where
  "AttachmentCount topology =
     (if tc_attachment_count topology = 0
      then if tc_average_degree topology = 0
           then Inl (RuntimeError ''scale-free graph requires attachment_count or average_degree'')
           else Inr (max 1 (tc_average_degree topology div 2))
      else Inr (tc_attachment_count topology))"

definition AddScaleFreeGraph :: "'g rng \<Rightarrow> PeerTopologyConfig \<Rightarrow> nat \<Rightarrow> EdgeCollector \<Rightarrow> EdgeCollector result" where
  "AddScaleFreeGraph R topology node_count c =
     (if node_count = 1 then Inr c
      else if tc_average_degree topology \<ge> node_count \<and> tc_average_degree topology \<noteq> 0
      then Inl (RuntimeError ''scale-free graph average_degree must be less than node count'')
      else bind_result (AttachmentCount topology) (\<lambda>attachment_count.
        if attachment_count \<ge> node_count
        then Inl (RuntimeError ''scale-free graph attachment_count must be less than node count'')
        else let initial_count = attachment_count + 1 in
          bind_result (fold_result (\<lambda>left_node. fold_result (ConnectPair left_node) [left_node + 1..<initial_count])
              [0..<initial_count] (c, replicate node_count 0)) (\<lambda>initial.
          bind_result (fold_result (AttachNode R attachment_count) [initial_count..<node_count]
              (initial, rng_seed R (tc_seed topology))) (\<lambda>final.
            Inr (fst (fst final))))))"

subsection \<open>Resolving a configuration\<close>

definition AddConfiguredEdge :: "nat \<Rightarrow> PeerTopologyEdge \<Rightarrow> EdgeCollector \<Rightarrow> EdgeCollector result" where
  "AddConfiguredEdge node_count edge c =
     (if te_from edge \<ge> node_count \<or> te_to edge \<ge> node_count
      then Inl (RuntimeError ''peer topology edge node is out of range'')
      else if te_from edge = te_to edge
      then Inl (RuntimeError ''peer topology must not contain self edges'')
      else if \<not> te_active edge then Inr c
      else bind_result (Collector_Add (te_from edge) (te_to edge) (te_latency_ms edge) (te_condition edge) c) (\<lambda>c'.
        if te_bidirectional edge
        then Collector_Add (te_to edge) (te_from edge) (te_latency_ms edge) (te_condition edge) c'
        else Inr c'))"

definition AddLatencyRow :: "nat \<Rightarrow> nat option list list \<Rightarrow> nat \<Rightarrow> EdgeCollector \<Rightarrow> EdgeCollector result" where
  "AddLatencyRow node_count matrix src c =
     (let row = matrix ! src in
      if length row \<noteq> node_count
      then Inl (RuntimeError ''latency matrix column count must match node count'')
      else fold_result (\<lambda>dst c.
        if src = dst
        then if row ! dst \<noteq> None \<and> row ! dst \<noteq> Some 0
             then Inl (RuntimeError ''latency matrix diagonal must be null or zero'') else Inr c
        else case row ! dst of
            None \<Rightarrow> Inr c
          | Some latency \<Rightarrow> Collector_Add src dst (row ! dst)
              (Some (DefaultNetworkCondition \<lparr>delay_ms := latency\<rparr>)) c) [0..<node_count] c)"

definition AddRegionEdge :: "nat list list \<Rightarrow> PeerTopologyRegionEdge \<Rightarrow> EdgeCollector \<Rightarrow> EdgeCollector result" where
  "AddRegionEdge regions edge c =
     (if re_from_region edge \<ge> length regions \<or> re_to_region edge \<ge> length regions
      then Inl (RuntimeError ''region topology edge region is out of range'')
      else if re_from_region edge = re_to_region edge
      then Inl (RuntimeError ''region topology must not contain self edges'')
      else if \<not> re_active edge then Inr c
      else let a = hd (regions ! re_from_region edge); b = hd (regions ! re_to_region edge) in
        bind_result (Collector_Add a b (re_latency_ms edge) (re_condition edge) c) (\<lambda>c'.
          if re_bidirectional edge then Collector_Add b a (re_latency_ms edge) (re_condition edge) c'
          else Inr c'))"

definition AddRegionMesh :: "nat list list \<Rightarrow> EdgeCollector \<Rightarrow> EdgeCollector result" where
  "AddRegionMesh regions =
     fold_result (\<lambda>left_region. fold_result (\<lambda>right_region.
       Collector_AddBidirectional (hd (regions ! left_region)) (hd (regions ! right_region)) None None)
       [left_region + 1..<length regions]) [0..<length regions]"

definition CollectEdges :: "'g rng \<Rightarrow> PeerTopologyConfig \<Rightarrow> nat \<Rightarrow> EdgeCollector \<Rightarrow> EdgeCollector result" where
  "CollectEdges R topology node_count c =
     (case tc_kind topology of
        kFullMesh \<Rightarrow> AddFullMesh (AllNodes node_count) c
      | kRing \<Rightarrow>
          if node_count > 1
          then fold_result (\<lambda>node. Collector_AddBidirectional node ((node + 1) mod node_count) None None)
                 [0..<node_count] c
          else Inr c
      | kStar \<Rightarrow>
          if tc_star_center topology \<ge> node_count
          then Inl (RuntimeError ''star topology center node is out of range'')
          else fold_result (\<lambda>node c.
                 if node \<noteq> tc_star_center topology
                 then Collector_AddBidirectional (tc_star_center topology) node None None c else Inr c)
                 [0..<node_count] c
      | kRandomGraph \<Rightarrow> AddRandomGraph R topology node_count c
      | kScaleFreeGraph \<Rightarrow> AddScaleFreeGraph R topology node_count c
      | kLatencyMatrix \<Rightarrow>
          if length (tc_latency_matrix_ms topology) \<noteq> node_count
          then Inl (RuntimeError ''latency matrix row count must match node count'')
          else fold_result (AddLatencyRow node_count (tc_latency_matrix_ms topology)) [0..<node_count] c
      | kCustomEdgeList \<Rightarrow> fold_result (AddConfiguredEdge node_count) (tc_edges topology) c
      | kPartitionedGroups \<Rightarrow>
          bind_result (RequireExactNodePartition (tc_groups topology) node_count ''peer topology groups'') (\<lambda>_.
            fold_result AddFullMesh (tc_groups topology) c)
      | kInternetLikeRegionGraph \<Rightarrow>
          bind_result (RequireExactNodePartition (tc_regions topology) node_count ''peer topology regions'') (\<lambda>_.
          bind_result (fold_result AddFullMesh (tc_regions topology) c) (\<lambda>c'.
            if tc_region_edges topology = [] then AddRegionMesh (tc_regions topology) c'
            else fold_result (AddRegionEdge (tc_regions topology)) (tc_region_edges topology) c'))
      | kPeerTopologyKindCount \<Rightarrow> Inl (LogicError ''unknown peer topology kind''))"

definition ResolvePeerTopologyEdges ::
    "'g rng \<Rightarrow> PeerTopologyConfig \<Rightarrow> nat \<Rightarrow> ResolvedPeerTopologyEdge list result" where
  "ResolvePeerTopologyEdges R topology node_count =
     bind_result (RequireNodeCount node_count) (\<lambda>_.
     bind_result (CollectEdges R topology node_count \<lparr>ec_node_count = node_count, ec_edges = []\<rparr>) (\<lambda>edges.
       Inr (Collector_Resolve edges)))"

definition ResolvePeerTopologyPeerIndexes ::
    "'g rng \<Rightarrow> PeerTopologyConfig \<Rightarrow> nat \<Rightarrow> nat \<Rightarrow> nat list result" where
  "ResolvePeerTopologyPeerIndexes R topology node_count node_index =
     (if node_index \<ge> node_count then Inl (RuntimeError ''peer topology node is out of range'')
      else bind_result (ResolvePeerTopologyEdges R topology node_count) (\<lambda>edges.
        Inr (map rp_to (filter (\<lambda>edge. rp_from edge = node_index) edges))))"

definition DefaultStartupPeerIndexes :: "nat \<Rightarrow> nat \<Rightarrow> nat list result" where
  "DefaultStartupPeerIndexes node_count node_index =
     (if node_count = 0 \<or> node_index \<ge> node_count
      then Inl (RuntimeError ''default peer topology node is out of range'')
      else Inr (filter (\<lambda>peer_index. peer_index \<noteq> node_index) [0..<node_count]))"

subsection \<open>What every builder keeps\<close>

lemma Collector_Add_iff:
  "Collector_Add src dst latency condition c = Inr c' \<longleftrightarrow>
     src < ec_node_count c \<and> dst < ec_node_count c \<and> src \<noteq> dst
     \<and> (case condition of None \<Rightarrow> True | Some nc \<Rightarrow> ValidateNetworkCondition nc = Inr ())
     \<and> (map_of (ec_edges c) (src, dst) = Some \<lparr>ea_latency_ms = latency, ea_condition = condition\<rparr> \<and> c' = c
        \<or> map_of (ec_edges c) (src, dst) = None
          \<and> c' = c \<lparr>ec_edges := smap_insert (src, dst)
                \<lparr>ea_latency_ms = latency, ea_condition = condition\<rparr> (ec_edges c)\<rparr>)"
  by (auto simp: Collector_Add_def result_simps Let_def split: option.splits)

text \<open>A property of the collector that a single insertion keeps is kept by every
  builder, whatever the configuration.\<close>

locale edge_invariant =
  fixes P :: "EdgeCollector \<Rightarrow> bool"
  assumes add: "Collector_Add src dst latency condition c = Inr c' \<Longrightarrow> P c \<Longrightarrow> P c'"
begin

lemma bidirectional:
  "Collector_AddBidirectional a b latency condition c = Inr c' \<Longrightarrow> P c \<Longrightarrow> P c'"
  by (auto simp: Collector_AddBidirectional_def result_simps intro: add)

lemma full_mesh:
  assumes "AddFullMesh nodes c = Inr c'" "P c"
  shows "P c'"
  using assms unfolding AddFullMesh_def
  by (rule fold_result_invariant) (erule fold_result_invariant, auto split: if_splits intro: add)

lemma configured_edge:
  "AddConfiguredEdge n edge c = Inr c' \<Longrightarrow> P c \<Longrightarrow> P c'"
  by (auto simp: AddConfiguredEdge_def result_simps split: if_splits intro: add)

lemma region_edge:
  "AddRegionEdge regions edge c = Inr c' \<Longrightarrow> P c \<Longrightarrow> P c'"
  by (auto simp: AddRegionEdge_def result_simps Let_def split: if_splits intro: add)

lemma region_mesh:
  assumes "AddRegionMesh regions c = Inr c'" "P c"
  shows "P c'"
  using assms unfolding AddRegionMesh_def
  by (rule fold_result_invariant) (erule fold_result_invariant, auto intro: bidirectional)

lemma latency_row:
  assumes "AddLatencyRow n matrix src c = Inr c'" "P c"
  shows "P c'"
proof -
  have "fold_result (\<lambda>dst c.
        if src = dst
        then if matrix ! src ! dst \<noteq> None \<and> matrix ! src ! dst \<noteq> Some 0
             then Inl (RuntimeError ''latency matrix diagonal must be null or zero'') else Inr c
        else case matrix ! src ! dst of
            None \<Rightarrow> Inr c
          | Some latency \<Rightarrow> Collector_Add src dst (matrix ! src ! dst)
              (Some (DefaultNetworkCondition \<lparr>delay_ms := latency\<rparr>)) c) [0..<n] c = Inr c'"
    using assms(1) by (auto simp: AddLatencyRow_def Let_def split: if_splits)
  then show ?thesis
    using assms(2) by (rule fold_result_invariant) (auto split: if_splits option.splits intro: add)
qed

lemma random_graph:
  assumes "AddRandomGraph R topology n c = Inr c'" "P c"
  shows "P c'"
proof -
  obtain pairs where "fold_result (\<lambda>(a, b). Collector_AddBidirectional a b None None) pairs c = Inr c'"
    using assms(1) by (auto simp: AddRandomGraph_def result_simps Let_def split: if_splits)
  then show ?thesis
    using assms(2) by (rule fold_result_invariant) (auto intro: bidirectional)
qed

lemma connect:
  assumes "fold_result (ConnectPair a) bs state = Inr state'" "P (fst state)"
  shows "P (fst state')"
  using assms
  by (rule fold_result_invariant [where P = "\<lambda>state. P (fst state)"])
    (auto simp: ConnectPair_def result_simps intro: bidirectional)

lemma attach:
  assumes "AttachNode R k node state = Inr state'" "P (fst (fst state))"
  shows "P (fst (fst state'))"
proof -
  obtain selected where "fold_result (ConnectPair node) selected (fst state) = Inr (fst state')"
    using assms(1) by (auto simp: AttachNode_def result_simps split: option.splits)
  then show ?thesis using assms(2) by (rule connect)
qed

lemma scale_free_graph:
  assumes "AddScaleFreeGraph R topology n c = Inr c'" "P c"
  shows "P c'"
proof (cases "n = 1")
  case False
  then obtain k initial final where
      initial: "fold_result (\<lambda>a. fold_result (ConnectPair a) [a + 1..<k + 1]) [0..<k + 1]
        (c, replicate n 0) = Inr initial"
    and final: "fold_result (AttachNode R k) [k + 1..<n] (initial, rng_seed R (tc_seed topology)) = Inr final"
    and c': "c' = fst (fst final)"
    using assms(1) by (auto simp: AddScaleFreeGraph_def result_simps Let_def simp del: upt_Suc split: if_splits)
  have "P (fst initial)"
    using initial by (rule fold_result_invariant [where P = "\<lambda>state. P (fst state)"])
      (simp add: assms(2), rule connect)
  then have "P (fst (fst final))"
    using fold_result_invariant [OF final, of "\<lambda>state. P (fst (fst state))"]
    by (metis attach fst_conv)
  then show ?thesis by (simp add: c')
qed (use assms in \<open>simp add: AddScaleFreeGraph_def\<close>)

lemma folds:
  assumes "fold_result f xs c = Inr c'" "P c" "\<And>x c c'. f x c = Inr c' \<Longrightarrow> P c \<Longrightarrow> P c'"
  shows "P c'"
  using assms(1,2) by (rule fold_result_invariant) (rule assms(3))

lemma ring:
  "fold_result (\<lambda>node. Collector_AddBidirectional node (f node) None None) nodes c = Inr c' \<Longrightarrow> P c \<Longrightarrow> P c'"
  by (erule folds, assumption) (rule bidirectional)

lemma star:
  "fold_result (\<lambda>node c. if node \<noteq> centre then Collector_AddBidirectional centre node None None c else Inr c)
     nodes c = Inr c' \<Longrightarrow> P c \<Longrightarrow> P c'"
  by (erule folds, assumption) (auto split: if_splits intro: bidirectional)

lemma groups: "fold_result AddFullMesh gs c = Inr c' \<Longrightarrow> P c \<Longrightarrow> P c'"
  by (erule folds, assumption) (rule full_mesh)

lemma region_edges: "fold_result (AddRegionEdge regions) edges c = Inr c' \<Longrightarrow> P c \<Longrightarrow> P c'"
  by (erule folds, assumption) (rule region_edge)

lemma latency_rows: "fold_result (AddLatencyRow n matrix) rows c = Inr c' \<Longrightarrow> P c \<Longrightarrow> P c'"
  by (erule folds, assumption) (rule latency_row)

lemma configured_edges: "fold_result (AddConfiguredEdge n) edges c = Inr c' \<Longrightarrow> P c \<Longrightarrow> P c'"
  by (erule folds, assumption) (rule configured_edge)

lemma collect_edges:
  assumes "CollectEdges R topology n c = Inr c'" "P c"
  shows "P c'"
proof (cases "tc_kind topology")
  case kRing
  then show ?thesis using assms ring by (auto simp: CollectEdges_def split: if_splits)
next
  case kStar
  then show ?thesis using assms star by (auto simp: CollectEdges_def split: if_splits)
next
  case kInternetLikeRegionGraph
  then show ?thesis
    using assms groups region_edges region_mesh
    by (auto simp: CollectEdges_def result_simps split: if_splits)
qed (use assms full_mesh random_graph scale_free_graph latency_rows configured_edges groups in
    \<open>auto simp: CollectEdges_def result_simps split: if_splits\<close>)

end

subsection \<open>Well-formed edge sets\<close>

definition valid_edge :: "nat \<Rightarrow> EdgeKey \<times> EdgeAttributes \<Rightarrow> bool" where
  "valid_edge n edge =
     (fst (fst edge) < n \<and> snd (fst edge) < n \<and> fst (fst edge) \<noteq> snd (fst edge)
      \<and> (case ea_condition (snd edge) of None \<Rightarrow> True | Some nc \<Rightarrow> ValidateNetworkCondition nc = Inr ()))"

definition wf_collector :: "nat \<Rightarrow> EdgeCollector \<Rightarrow> bool" where
  "wf_collector n c =
     (ec_node_count c = n \<and> sorted_keys (ec_edges c) \<and> (\<forall>edge\<in>set (ec_edges c). valid_edge n edge))"

interpretation wf_edges: edge_invariant "wf_collector n" for n
proof
  fix src dst latency condition c c'
  assume "Collector_Add src dst latency condition c = Inr c'" "wf_collector n c"
  moreover have "set (smap_insert (src, dst) attributes (ec_edges c))
      \<subseteq> insert ((src, dst), attributes) (set (ec_edges c))" for attributes
    by (rule set_smap_insert)
  ultimately show "wf_collector n c'"
    unfolding Collector_Add_iff wf_collector_def by (fastforce simp: valid_edge_def)
qed

abbreviation edge_pair :: "ResolvedPeerTopologyEdge \<Rightarrow> EdgeKey" where
  "edge_pair edge \<equiv> (rp_from edge, rp_to edge)"

definition edge_keys :: "EdgeCollector \<Rightarrow> EdgeKey set" where
  "edge_keys c = fst ` set (ec_edges c)"

lemma Collector_Resolve_pairs:
  "map edge_pair (Collector_Resolve c) = map fst (ec_edges c)"
  by (auto simp: Collector_Resolve_def)

text \<open>C7. Whatever the configuration, the resolved edges are strictly sorted by source and
  destination (hence unique), join two different nodes of the simulation, and carry
  only network conditions that pass validation.\<close>

theorem resolved_edges_wf:
  assumes "ResolvePeerTopologyEdges R topology n = Inr edges"
  shows "sorted_wrt (<) (map edge_pair edges)
    \<and> (\<forall>edge\<in>set edges. rp_from edge < n \<and> rp_to edge < n \<and> rp_from edge \<noteq> rp_to edge
        \<and> (\<forall>nc. rp_condition edge = Some nc \<longrightarrow> ValidateNetworkCondition nc = Inr ()))"
proof -
  obtain c where c: "CollectEdges R topology n \<lparr>ec_node_count = n, ec_edges = []\<rparr> = Inr c"
    "edges = Collector_Resolve c"
    using assms by (auto simp: ResolvePeerTopologyEdges_def result_simps)
  have "wf_collector n c"
    by (rule wf_edges.collect_edges [OF c(1)]) (simp add: wf_collector_def)
  then show ?thesis
    unfolding c(2) Collector_Resolve_pairs
    by (fastforce simp: wf_collector_def sorted_keys_def valid_edge_def Collector_Resolve_def)
qed

subsection \<open>Builders with known edges\<close>

text \<open>A builder of plain edges adds exactly the pairs \<open>K\<close> and does not throw.\<close>

definition plain_collector :: "nat \<Rightarrow> EdgeCollector \<Rightarrow> bool" where
  "plain_collector n c =
     (ec_node_count c = n \<and> sorted_keys (ec_edges c)
      \<and> (\<forall>edge\<in>set (ec_edges c). snd edge = \<lparr>ea_latency_ms = None, ea_condition = None\<rparr>))"

definition adds :: "nat \<Rightarrow> (EdgeCollector \<Rightarrow> EdgeCollector result) \<Rightarrow> EdgeKey set \<Rightarrow> bool" where
  "adds n build K =
     (\<forall>c. plain_collector n c \<longrightarrow>
        (\<exists>c'. build c = Inr c' \<and> plain_collector n c' \<and> edge_keys c' = edge_keys c \<union> K))"

lemma adds_Add:
  assumes "a < n" "b < n" "a \<noteq> b"
  shows "adds n (Collector_Add a b None None) {(a, b)}"
  unfolding adds_def
proof (intro allI impI)
  fix c assume c: "plain_collector n c"
  let ?plain = "\<lparr>ea_latency_ms = None, ea_condition = None\<rparr> :: EdgeAttributes"
  show "\<exists>c'. Collector_Add a b None None c = Inr c' \<and> plain_collector n c'
      \<and> edge_keys c' = edge_keys c \<union> {(a, b)}"
  proof (cases "map_of (ec_edges c) (a, b)")
    case None
    let ?c = "c \<lparr>ec_edges := smap_insert (a, b) ?plain (ec_edges c)\<rparr>"
    have "plain_collector n ?c"
      using c set_smap_insert [of "(a, b)" ?plain "ec_edges c"] by (fastforce simp: plain_collector_def)
    then show ?thesis
      using None c assms
      by (intro exI [of _ ?c]) (simp add: Collector_Add_iff plain_collector_def edge_keys_def)
  next
    case (Some present)
    then have "((a, b), present) \<in> set (ec_edges c)" by (rule map_of_SomeD)
    then have "present = ?plain" "(a, b) \<in> edge_keys c"
      using c by (force simp: plain_collector_def edge_keys_def)+
    then show ?thesis
      using Some c assms by (intro exI [of _ c]) (auto simp: Collector_Add_iff plain_collector_def)
  qed
qed

lemma adds_Inr: "adds n Inr {}"
  by (simp add: adds_def)

lemma adds_if:
  "(b \<Longrightarrow> adds n f K) \<Longrightarrow> adds n (\<lambda>c. if b then f c else Inr c) (if b then K else {})"
  by (simp add: adds_def)

lemma adds_bind:
  "adds n f K \<Longrightarrow> adds n g L \<Longrightarrow> adds n (\<lambda>c. bind_result (f c) g) (K \<union> L)"
  unfolding adds_def by (metis (no_types, lifting) Un_assoc bind_result.simps(2))

lemma adds_bidirectional:
  "a < n \<Longrightarrow> b < n \<Longrightarrow> a \<noteq> b \<Longrightarrow>
    adds n (Collector_AddBidirectional a b None None) {(a, b), (b, a)}"
  using adds_bind [OF adds_Add [of a n b] adds_Add [of b n a]]
  by (simp add: Collector_AddBidirectional_def [abs_def] insert_commute)

lemma adds_fold:
  assumes "\<And>x. x \<in> set xs \<Longrightarrow> adds n (f x) (K x)"
  shows "adds n (fold_result f xs) (\<Union>x\<in>set xs. K x)"
  using assms
proof (induction xs)
  case Nil
  have "fold_result f [] = Inr" by (rule ext) simp
  then show ?case by (simp add: adds_Inr)
next
  case (Cons x xs)
  have "fold_result f (x # xs) = (\<lambda>c. bind_result (f x c) (fold_result f xs))" by (rule ext) simp
  then show ?case using adds_bind [of n "f x" "K x" "fold_result f xs"] Cons by simp
qed

lemma adds_full_mesh:
  assumes "\<forall>node\<in>set nodes. node < n"
  shows "adds n (AddFullMesh nodes) {(a, b). a \<in> set nodes \<and> b \<in> set nodes \<and> a \<noteq> b}"
proof -
  have "adds n (AddFullMesh nodes) (\<Union>a\<in>set nodes. \<Union>b\<in>set nodes. if a \<noteq> b then {(a, b)} else {})"
    unfolding AddFullMesh_def using assms by (intro adds_fold adds_if adds_Add) auto
  moreover have "(\<Union>a\<in>set nodes. \<Union>b\<in>set nodes. if a \<noteq> b then {(a, b)} else {})
      = {(a, b). a \<in> set nodes \<and> b \<in> set nodes \<and> a \<noteq> b}"
    by auto
  ultimately show ?thesis by simp
qed

subsection \<open>Partitions\<close>

lemma CheckPartitionNodes_iff:
  "fold_result (CheckPartitionNode n field) g seen = Inr seen' \<longleftrightarrow>
     (\<forall>node\<in>set g. node < n) \<and> distinct g \<and> set g \<inter> seen = {} \<and> seen' = seen \<union> set g"
  by (induction g arbitrary: seen) (auto simp: CheckPartitionNode_def result_simps)

lemma CheckPartitionGroups_iff:
  "fold_result (\<lambda>group seen.
       if group = [] then Inl (RuntimeError (field @ '' must not contain empty groups''))
       else fold_result (CheckPartitionNode n field) group seen) groups seen = Inr seen' \<longleftrightarrow>
     [] \<notin> set groups \<and> (\<forall>node\<in>set (concat groups). node < n) \<and> distinct (concat groups)
     \<and> set (concat groups) \<inter> seen = {} \<and> seen' = seen \<union> set (concat groups)"
proof (induction groups arbitrary: seen)
  case (Cons g gs)
  show ?case
  proof (cases "g = []")
    case False
    then show ?thesis by (auto simp: result_simps CheckPartitionNodes_iff Cons.IH)
  qed simp
qed auto

text \<open>The partition check accepts exactly the lists of nonempty groups that contain
  every node once.\<close>

lemma RequireExactNodePartition_iff:
  "RequireExactNodePartition groups n field = Inr () \<longleftrightarrow>
     groups \<noteq> [] \<and> [] \<notin> set groups \<and> distinct (concat groups) \<and> set (concat groups) = {..<n}"
  by (auto simp: RequireExactNodePartition_def result_simps CheckPartitionGroups_iff)

subsection \<open>The deterministic topologies\<close>

text \<open>Who is a neighbour of whom.\<close>

definition adjacent :: "PeerTopologyConfig \<Rightarrow> nat \<Rightarrow> nat \<Rightarrow> nat \<Rightarrow> bool" where
  "adjacent topology n a b =
     (case tc_kind topology of
        kFullMesh \<Rightarrow> a \<noteq> b
      | kRing \<Rightarrow> 1 < n \<and> (b = (a + 1) mod n \<or> a = (b + 1) mod n)
      | kStar \<Rightarrow> a \<noteq> b \<and> (a = tc_star_center topology \<or> b = tc_star_center topology)
      | kPartitionedGroups \<Rightarrow> a \<noteq> b \<and> (\<exists>g\<in>set (tc_groups topology). a \<in> set g \<and> b \<in> set g)
      | kInternetLikeRegionGraph \<Rightarrow>
          a \<noteq> b \<and> ((\<exists>g\<in>set (tc_regions topology). a \<in> set g \<and> b \<in> set g)
            \<or> a \<in> hd ` set (tc_regions topology) \<and> b \<in> hd ` set (tc_regions topology))
      | _ \<Rightarrow> False)"

definition deterministic :: "PeerTopologyConfig \<Rightarrow> nat \<Rightarrow> bool" where
  "deterministic topology n =
     (case tc_kind topology of
        kFullMesh \<Rightarrow> True
      | kRing \<Rightarrow> True
      | kStar \<Rightarrow> tc_star_center topology < n
      | kPartitionedGroups \<Rightarrow>
          RequireExactNodePartition (tc_groups topology) n ''peer topology groups'' = Inr ()
      | kInternetLikeRegionGraph \<Rightarrow>
          RequireExactNodePartition (tc_regions topology) n ''peer topology regions'' = Inr ()
          \<and> tc_region_edges topology = []
      | _ \<Rightarrow> False)"

lemma adds_cong: "adds n f K \<Longrightarrow> K = L \<Longrightarrow> adds n f L"
  by simp

lemma adds_ring:
  assumes "1 < n"
  shows "adds n (fold_result (\<lambda>node. Collector_AddBidirectional node ((node + 1) mod n) None None) [0..<n])
    {(a, b). a < n \<and> b < n \<and> (b = (a + 1) mod n \<or> a = (b + 1) mod n)}"
proof (rule adds_cong)
  have "node \<noteq> (node + 1) mod n" if "node < n" for node
    using that assms by (cases "node + 1 = n") auto
  then show "adds n (fold_result (\<lambda>node. Collector_AddBidirectional node ((node + 1) mod n) None None) [0..<n])
      (\<Union>node\<in>set [0..<n]. {(node, (node + 1) mod n), ((node + 1) mod n, node)})"
    using assms by (intro adds_fold adds_bidirectional) auto
qed (use assms in auto)

lemma adds_star:
  assumes "centre < n"
  shows "adds n (fold_result (\<lambda>node c. if node \<noteq> centre
      then Collector_AddBidirectional centre node None None c else Inr c) [0..<n])
    {(a, b). a < n \<and> b < n \<and> a \<noteq> b \<and> (a = centre \<or> b = centre)}"
proof (rule adds_cong)
  show "adds n (fold_result (\<lambda>node c. if node \<noteq> centre
      then Collector_AddBidirectional centre node None None c else Inr c) [0..<n])
      (\<Union>node\<in>set [0..<n]. if node \<noteq> centre then {(centre, node), (node, centre)} else {})"
    using assms by (intro adds_fold adds_if adds_bidirectional) auto
qed (use assms in \<open>auto split: if_splits\<close>)

lemma adds_groups:
  assumes "set (concat groups) = {..<n}"
  shows "adds n (fold_result AddFullMesh groups)
    {(a, b). a < n \<and> b < n \<and> a \<noteq> b \<and> (\<exists>g\<in>set groups. a \<in> set g \<and> b \<in> set g)}"
proof (rule adds_cong)
  show "adds n (fold_result AddFullMesh groups)
      (\<Union>g\<in>set groups. {(a, b). a \<in> set g \<and> b \<in> set g \<and> a \<noteq> b})"
    using assms by (intro adds_fold adds_full_mesh) auto
qed (use assms in auto)

lemma region_heads_distinct:
  assumes "distinct (concat regions)" "[] \<notin> set regions" "i < j" "j < length regions"
  shows "hd (regions ! i) \<noteq> hd (regions ! j)"
proof -
  have "hd (regions ! i) \<in> set (regions ! i)" "hd (regions ! j) \<in> set (regions ! j)"
    using assms(2-4) by (metis hd_in_set less_trans nth_mem)+
  moreover have "set (regions ! i) \<inter> set (regions ! j) = {}"
  proof -
    have "distinct (concat (take j regions @ [regions ! j]))"
      using assms(1,4) by (metis append_take_drop_id concat_append distinct_append take_Suc_conv_app_nth)
    moreover have "regions ! i \<in> set (take j regions)"
      using assms(3,4) by (metis in_set_conv_nth length_take less_imp_le min.absorb2 nth_take)
    ultimately show ?thesis by auto
  qed
  ultimately show ?thesis by auto
qed

lemma adds_region_mesh:
  assumes "set (concat regions) = {..<n}" "distinct (concat regions)" "[] \<notin> set regions"
  shows "adds n (AddRegionMesh regions)
    {(a, b). a \<noteq> b \<and> a \<in> hd ` set regions \<and> b \<in> hd ` set regions}"
proof (rule adds_cong)
  let ?h = "\<lambda>i. hd (regions ! i)" and ?m = "length regions"
  have "?h i < n" if "i < ?m" for i
    using that assms(1,3) hd_in_set [of "regions ! i"] nth_mem [OF that] by fastforce
  then show "adds n (AddRegionMesh regions)
      (\<Union>i\<in>set [0..<?m]. \<Union>j\<in>set [i + 1..<?m]. {(?h i, ?h j), (?h j, ?h i)})"
    unfolding AddRegionMesh_def
    by (intro adds_fold adds_bidirectional) (auto simp: region_heads_distinct [OF assms(2,3)])
  show "(\<Union>i\<in>set [0..<?m]. \<Union>j\<in>set [i + 1..<?m]. {(?h i, ?h j), (?h j, ?h i)})
      = {(a, b). a \<noteq> b \<and> a \<in> hd ` set regions \<and> b \<in> hd ` set regions}" (is "?L = ?R")
  proof
    show "?L \<subseteq> ?R"
      using region_heads_distinct [OF assms(2,3)] by (auto simp: Suc_le_eq) (metis Suc_le_eq)+
    show "?R \<subseteq> ?L"
    proof (clarify, unfold in_set_conv_nth, clarify)
      fix i j assume "?h i \<noteq> ?h j" "i < ?m" "j < ?m"
      then have "i < j \<or> j < i" by (metis nat_neq_iff)
      then show "(?h i, ?h j) \<in> ?L" using \<open>i < ?m\<close> \<open>j < ?m\<close> by fastforce
    qed
  qed
qed

lemma adds_deterministic:
  assumes "deterministic topology n"
  shows "adds n (CollectEdges R topology n) {(a, b). a < n \<and> b < n \<and> adjacent topology n a b}"
proof (cases "tc_kind topology")
  case kFullMesh
  then show ?thesis
    using adds_full_mesh [of "AllNodes n" n] by (simp add: CollectEdges_def [abs_def] adjacent_def AllNodes_def conj_ac)
next
  case kRing
  then show ?thesis
    using adds_ring [of n] adds_Inr [of n] by (cases "1 < n") (simp_all add: CollectEdges_def [abs_def] adjacent_def)
next
  case kStar
  then show ?thesis
    using adds_star [of "tc_star_center topology" n] assms
    by (simp add: CollectEdges_def [abs_def] adjacent_def deterministic_def)
next
  case kPartitionedGroups
  have groups: "RequireExactNodePartition (tc_groups topology) n ''peer topology groups'' = Inr ()"
    using assms kPartitionedGroups by (simp add: deterministic_def)
  then have "set (concat (tc_groups topology)) = {..<n}" unfolding RequireExactNodePartition_iff by blast
  then show ?thesis
    using adds_groups [of "tc_groups topology" n] kPartitionedGroups groups
    by (simp add: CollectEdges_def [abs_def] adjacent_def)
next
  case kInternetLikeRegionGraph
  let ?regions = "tc_regions topology"
  have regions: "RequireExactNodePartition ?regions n ''peer topology regions'' = Inr ()"
      "tc_region_edges topology = []" "set (concat ?regions) = {..<n}"
      "distinct (concat ?regions)" "[] \<notin> set ?regions"
    using assms kInternetLikeRegionGraph by (simp_all add: deterministic_def RequireExactNodePartition_iff)
  have "adds n (CollectEdges R topology n)
      ({(a, b). a < n \<and> b < n \<and> a \<noteq> b \<and> (\<exists>g\<in>set ?regions. a \<in> set g \<and> b \<in> set g)}
       \<union> {(a, b). a \<noteq> b \<and> a \<in> hd ` set ?regions \<and> b \<in> hd ` set ?regions})"
    using adds_bind [OF adds_groups [OF regions(3)] adds_region_mesh [OF regions(3-5)]]
      kInternetLikeRegionGraph regions(1,2)
    by (simp add: CollectEdges_def [abs_def])
  moreover have "hd g < n" if "g \<in> set ?regions" for g
    using that regions(3,5) hd_in_set [of g] by fastforce
  ultimately show ?thesis
    by (elim adds_cong) (auto simp: adjacent_def kInternetLikeRegionGraph)
qed (use assms in \<open>simp_all add: deterministic_def\<close>)

lemma adds_resolve:
  assumes "adds n (CollectEdges R topology n) K" "0 < n"
  shows "\<exists>edges. ResolvePeerTopologyEdges R topology n = Inr edges
    \<and> set (map edge_pair edges) = K \<and> sorted_wrt (<) (map edge_pair edges)
    \<and> (\<forall>edge\<in>set edges. rp_latency_ms edge = None \<and> rp_condition edge = None)"
proof -
  have "plain_collector n \<lparr>ec_node_count = n, ec_edges = []\<rparr>" by (simp add: plain_collector_def)
  then obtain c where c: "CollectEdges R topology n \<lparr>ec_node_count = n, ec_edges = []\<rparr> = Inr c"
    "plain_collector n c" "edge_keys c = K"
    using assms(1) by (auto simp: adds_def edge_keys_def)
  then have "ResolvePeerTopologyEdges R topology n = Inr (Collector_Resolve c)"
    using assms(2) by (simp add: ResolvePeerTopologyEdges_def RequireNodeCount_def)
  moreover have "set (map edge_pair (Collector_Resolve c)) = K" "sorted_wrt (<) (map edge_pair (Collector_Resolve c))"
    using c(2,3) unfolding Collector_Resolve_pairs by (simp_all add: edge_keys_def plain_collector_def sorted_keys_def)
  moreover have "\<forall>edge\<in>set (Collector_Resolve c). rp_latency_ms edge = None \<and> rp_condition edge = None"
    using c(2) by (auto simp: plain_collector_def Collector_Resolve_def)
  ultimately show ?thesis by blast
qed

text \<open>C8. Full mesh, ring, star, partitioned groups and the region graph without explicit
  region edges resolve, without an exception, to exactly the neighbour relation of their
  kind: a partition leaves no edge between two groups.\<close>

theorem deterministic_topologies_exact:
  assumes "0 < n" "deterministic topology n"
  shows "\<exists>edges. ResolvePeerTopologyEdges R topology n = Inr edges
    \<and> set (map edge_pair edges) = {(a, b). a < n \<and> b < n \<and> adjacent topology n a b}
    \<and> sorted_wrt (<) (map edge_pair edges)
    \<and> (\<forall>edge\<in>set edges. rp_latency_ms edge = None \<and> rp_condition edge = None)"
  by (rule adds_resolve [OF adds_deterministic [OF assms(2)] assms(1)])

text \<open>The peers of a node in a full mesh are the default startup peers.\<close>

theorem full_mesh_default_peers:
  assumes "tc_kind topology = kFullMesh"
  shows "ResolvePeerTopologyPeerIndexes R topology n i = Inr peers
    \<longleftrightarrow> DefaultStartupPeerIndexes n i = Inr peers"
proof (cases "i < n")
  case True
  obtain edges where edges: "ResolvePeerTopologyEdges R topology n = Inr edges"
    "set (map edge_pair edges) = {(a, b). a < n \<and> b < n \<and> a \<noteq> b}" "sorted_wrt (<) (map edge_pair edges)"
    using adds_resolve [OF adds_deterministic, of topology n R] assms True
    by (auto simp: deterministic_def adjacent_def)
  let ?peers = "map rp_to (filter (\<lambda>edge. rp_from edge = i) edges)"
  have "sorted_wrt (<) ?peers"
    using edges(3) by (induction edges) (auto simp: sorted_wrt_map less_prod_def)
  moreover have "set ?peers = {b. b < n \<and> b \<noteq> i}"
  proof -
    have "b \<in> set ?peers \<longleftrightarrow> (i, b) \<in> set (map edge_pair edges)" for b by auto
    then have "b \<in> set ?peers \<longleftrightarrow> b < n \<and> b \<noteq> i" for b unfolding edges(2) using True by auto
    then show ?thesis by blast
  qed
  moreover have "set (filter (\<lambda>p. p \<noteq> i) [0..<n]) = {b. b < n \<and> b \<noteq> i}" by auto
  ultimately have "?peers = filter (\<lambda>p. p \<noteq> i) [0..<n]"
    by (intro sorted_distinct_set_unique) (auto simp: strict_sorted_iff sorted_wrt_filter)
  then show ?thesis
    using True edges(1) by (auto simp: ResolvePeerTopologyPeerIndexes_def DefaultStartupPeerIndexes_def)
qed (auto simp: ResolvePeerTopologyPeerIndexes_def DefaultStartupPeerIndexes_def)

subsection \<open>Drawing below a bound\<close>

text \<open>The engine produces a value with the top bit set again and again.\<close>

fun nth_draw :: "'g rng \<Rightarrow> nat \<Rightarrow> 'g \<Rightarrow> u64" where
  "nth_draw R 0 g = fst (rng_next R g)"
| "nth_draw R (Suc k) g = nth_draw R k (snd (rng_next R g))"

definition recurrent :: "'g rng \<Rightarrow> bool" where
  "recurrent R = (\<forall>g. \<exists>k. 2 ^ 63 \<le> unat (nth_draw R k g))"

lemma draw_at_least_some: "draw_at_least draw t g = Some r \<Longrightarrow> t \<le> fst r"
  by (erule draw_at_least.raw_induct [where P = "\<lambda>draw t g r. t \<le> fst r", rotated]) (auto split: if_splits)

lemma draw_at_least_returns:
  assumes "t \<le> nth_draw R k g"
  shows "\<exists>n g'. draw_at_least (rng_next R) t g = Some (n, g')"
  using assms
proof (induction k arbitrary: g)
  case 0
  then show ?case by (subst draw_at_least.simps) (auto simp: prod_eq_iff intro: exI [of _ "fst (rng_next R g)"])
next
  case (Suc k)
  then show ?case by (subst draw_at_least.simps) (metis nth_draw.simps(2) surj_pair)
qed

lemma rejection_threshold:
  fixes b :: u64
  assumes "b \<noteq> 0"
  shows "unat ((max_u64 - b + 1) mod b) = 2 ^ 64 mod unat b"
proof -
  have b: "0 < unat b" "unat b < 2 ^ 64" using assms u64_lt [of b] by (auto simp: unat_gt_0)
  have sub: "unat (max_u64 - b) = 2 ^ 64 - 1 - unat b" by (subst unat_sub) simp_all
  then have "max_u64 - b \<noteq> max_u64" using assms by (metis cancel_comm_monoid_add_class.diff_zero diff_left_imp_eq)
  from u64_succ_exact [OF this] have "unat (max_u64 - b + 1) = 2 ^ 64 - unat b"
    using sub u64_lt [of b] unfolding two_to_64 by linarith
  then have "unat ((max_u64 - b + 1) mod b) = (2 ^ 64 - unat b) mod unat b"
    by (simp only: unat_mod)
  also have "\<dots> = 2 ^ 64 mod unat b" by (rule le_mod_geq [symmetric, OF less_imp_le [OF b(2)]])
  finally show ?thesis .
qed

lemma threshold_low:
  fixes b :: u64
  assumes "b \<noteq> 0"
  shows "2 ^ 64 mod unat b < 2 ^ 63"
proof (cases "unat b \<le> 2 ^ 63")
  case True
  moreover have "2 ^ 64 mod unat b < unat b" using assms by (intro mod_less_divisor) (simp add: unat_gt_0)
  ultimately show ?thesis by simp
next
  case False
  then have high: "9223372036854775808 < unat b" by simp
  have "unat b \<le> 18446744073709551616" using u64_lt [of b] by (rule less_imp_le)
  then have "(18446744073709551616 :: nat) mod unat b = (18446744073709551616 - unat b) mod unat b"
    by (rule le_mod_geq)
  also have "\<dots> = 18446744073709551616 - unat b" using high by (intro mod_less) linarith
  finally show ?thesis using high unfolding two_to_64 by simp
qed

lemma BoundedRandom_returns:
  assumes "recurrent R" "b \<noteq> 0"
  shows "\<exists>n g'. BoundedRandom R g b = Inr (n, g') \<and> unat n < unat b"
proof -
  obtain k where "2 ^ 63 \<le> unat (nth_draw R k g)" using assms(1) by (auto simp: recurrent_def)
  then have "(max_u64 - b + 1) mod b \<le> nth_draw R k g"
    unfolding word_le_nat_alt rejection_threshold [OF assms(2)] using threshold_low [OF assms(2)] by linarith
  from draw_at_least_returns [OF this] obtain n g' where
    "draw_at_least (rng_next R) ((max_u64 - b + 1) mod b) g = Some (n, g')" by blast
  moreover have "unat (n mod b) < unat b"
    using assms(2) by (simp add: unat_mod unat_gt_0)
  ultimately show ?thesis using assms(2) by (simp add: BoundedRandom_def)
qed

text \<open>The engine that repeats one value: the state is the value.\<close>

definition repeat_rng :: "u64 rng" where
  "repeat_rng = \<lparr>rng_seed = id, rng_next = (\<lambda>n. (n, n))\<rparr>"

lemma draw_repeat_some:
  assumes "draw_at_least draw t n = Some r"
  shows "(\<forall>x. draw x = (x, x)) \<longrightarrow> r = (n, n)"
proof (rule draw_at_least.raw_induct [OF _ assms], intro impI)
  fix f draw t n r
  assume IH: "\<And>draw t n r. f draw t n = Some r \<Longrightarrow> (\<forall>x. draw x = (x, x)) \<longrightarrow> r = (n, n)"
    and eq: "(if t \<le> fst (draw n) then Some (draw n) else f draw t (snd (draw n))) = Some r"
    and draw: "\<forall>x. draw x = (x, x)"
  show "r = (n, n)"
  proof (cases "t \<le> n")
    case True
    then show ?thesis using eq draw by simp
  next
    case False
    then have "f draw t n = Some r" using eq draw by simp
    then show ?thesis using IH draw by blast
  qed
qed

lemma draw_repeat:
  "draw_at_least (\<lambda>n. (n, n)) t n = (if t \<le> n then Some (n, n) else None)"
proof (cases "t \<le> n")
  case True
  then show ?thesis by (subst draw_at_least.simps) simp
next
  case False
  show ?thesis
  proof (cases "draw_at_least (\<lambda>n. (n, n)) t n")
    case (Some r)
    then have "t \<le> fst r" "r = (n, n)"
      using draw_at_least_some [OF Some] draw_repeat_some [OF Some] by simp_all
    then show ?thesis using False by simp
  qed (simp add: False)
qed

lemma BoundedRandom_repeat:
  assumes "b \<noteq> 0"
  shows "BoundedRandom repeat_rng n b = Inr (r, n) \<longleftrightarrow> 2 ^ 64 mod unat b \<le> unat n \<and> n mod b = r"
  using rejection_threshold [OF assms] assms
  by (auto simp: BoundedRandom_def repeat_rng_def draw_repeat word_le_nat_alt Let_def)

lemma residue_count:
  assumes "r < u" "T < (u :: nat)"
  shows "card {v. T \<le> v \<and> v < k * u + T \<and> v mod u = r} = k"
proof -
  let ?S = "{v. T \<le> v \<and> v < k * u + T \<and> v mod u = r}"
  let ?Q = "if r < T then {1..k} else {..<k}"
  have "?S = (\<lambda>q. q * u + r) ` ?Q"
  proof (intro set_eqI iffI)
    fix v assume v: "v \<in> ?S"
    then have eq: "v = (v div u) * u + r" by (metis (mono_tags) div_mult_mod_eq mem_Collect_eq)
    have "(v div u) * u < (k + 1) * u" using v eq assms by (simp add: algebra_simps)
    then have "v div u < k + 1" unfolding mult_less_cancel2 by simp
    then have "v div u \<le> k" by simp
    moreover have "r < T \<Longrightarrow> v div u \<noteq> 0"
      using v eq by (metis (mono_tags, lifting) add_0 leD mem_Collect_eq mult_0)
    moreover have "\<not> r < T \<Longrightarrow> v div u \<noteq> k"
      using v eq by (metis (mono_tags, lifting) add_less_cancel_left mem_Collect_eq)
    ultimately have "v div u \<in> ?Q" by auto
    then show "v \<in> (\<lambda>q. q * u + r) ` ?Q" using eq by blast
  next
    fix v assume "v \<in> (\<lambda>q. q * u + r) ` ?Q"
    then obtain q where q: "q \<in> ?Q" "v = q * u + r" by blast
    then have "q \<le> k" "r < T \<Longrightarrow> 1 \<le> q" "\<not> r < T \<Longrightarrow> q + 1 \<le> k" by (auto split: if_splits)
    then have "q * u \<le> k * u" "r < T \<Longrightarrow> 1 * u \<le> q * u" "\<not> r < T \<Longrightarrow> (q + 1) * u \<le> k * u"
      using mult_le_mono1 by blast+
    then have "T \<le> q * u + r \<and> q * u + r < k * u + T"
      unfolding add_mult_distrib using assms by (cases "r < T") linarith+
    then show "v \<in> ?S" using q(2) assms(1) by simp
  qed
  moreover have "inj_on (\<lambda>q. q * u + r) ?Q" using assms by (auto intro: inj_onI)
  ultimately show ?thesis by (simp add: card_image)
qed

text \<open>C9. Drawing below a bound is unbiased and terminates: of the 2^64 values the engine
  may deliver, every result below the bound is obtained from the same number of them, the
  other values being redrawn; and with an engine that keeps delivering values in the
  upper half of its range, the loop ends with a result below the bound.\<close>

theorem BoundedRandom_uniform:
  assumes "b \<noteq> 0"
  shows "(\<forall>r. r < b \<longrightarrow> card {n. BoundedRandom repeat_rng n b = Inr (r, n)} = 2 ^ 64 div unat b)
    \<and> (recurrent R \<longrightarrow> (\<exists>n g'. BoundedRandom R g b = Inr (n, g') \<and> n < b))"
proof (intro conjI allI impI)
  fix r :: u64 assume r: "r < b"
  let ?u = "unat b" and ?k = "2 ^ 64 div unat b" and ?T = "2 ^ 64 mod unat b"
  have u: "0 < ?u" using assms by (simp add: unat_gt_0)
  have total: "?k * ?u + ?T = 2 ^ 64" by (rule div_mult_mod_eq)
  have image: "unat ` {n. BoundedRandom repeat_rng n b = Inr (r, n)}
      = {v. ?T \<le> v \<and> v < ?k * ?u + ?T \<and> v mod ?u = unat r}" (is "?L = ?R")
  proof
    show "?L \<subseteq> ?R"
      unfolding total BoundedRandom_repeat [OF assms] by (auto simp: unat_mod)
    show "?R \<subseteq> ?L"
    proof
      fix v assume v: "v \<in> ?R"
      then have "unat (word_of_nat v :: u64) = v" unfolding total by (simp add: unat_of_nat)
      then show "v \<in> ?L"
        using v unfolding BoundedRandom_repeat [OF assms]
        by (intro image_eqI [of _ _ "word_of_nat v"]) (auto simp: word_unat_eq_iff unat_mod)
    qed
  qed
  have "inj_on unat {n. BoundedRandom repeat_rng n b = Inr (r, n)}"
    by (auto intro: inj_onI simp: word_unat_eq_iff)
  then have "card {n. BoundedRandom repeat_rng n b = Inr (r, n)}
      = card (unat ` {n. BoundedRandom repeat_rng n b = Inr (r, n)})"
    by (rule card_image [symmetric])
  also have "\<dots> = card {v. ?T \<le> v \<and> v < ?k * ?u + ?T \<and> v mod ?u = unat r}" by (simp only: image)
  also have "\<dots> = ?k" 
    by (rule residue_count) (use r u in \<open>simp_all add: word_less_nat_alt del: power_numeral\<close>)
  finally show "card {n. BoundedRandom repeat_rng n b = Inr (r, n)} = ?k" .
next
  assume "recurrent R"
  then show "\<exists>n g'. BoundedRandom R g b = Inr (n, g') \<and> n < b"
    using BoundedRandom_returns [OF _ assms] by (simp add: word_less_nat_alt)
qed

subsection \<open>The random graph\<close>

lemma mset_swap_nat: "i < length xs \<Longrightarrow> j < length xs \<Longrightarrow> mset (swap i j xs) = mset xs"
  by (simp add: swap_def mset_swap)

lemma Shuffle_permutes:
  assumes "recurrent R" "k \<le> length xs" "length xs < 2 ^ 64"
  shows "\<exists>ys g'. Shuffle R k (xs, g) = Inr (ys, g') \<and> mset ys = mset xs"
  using assms(2,3)
proof (induction k arbitrary: xs g rule: less_induct)
  case (less k)
  consider "k = 0" | "k = Suc 0" | m where "k = Suc (Suc m)" by (metis not0_implies_Suc)
  then show ?case
  proof cases
    case 3
    let ?b = "word_of_nat (Suc (Suc m)) :: u64"
    have b: "unat ?b = Suc (Suc m)" using less.prems 3 by (simp only: unat_of_nat) simp
    then have "?b \<noteq> 0" by (metis nat.distinct(1) unat_0)
    from BoundedRandom_returns [OF assms(1) this, of g]
    obtain n g' where n: "BoundedRandom R g ?b = Inr (n, g')" "unat n < Suc (Suc m)"
      unfolding b by blast
    let ?xs = "swap (Suc m) (unat n) xs"
    have mset: "mset ?xs = mset xs" using less.prems(1) 3 n(2) by (intro mset_swap_nat) auto
    moreover have "length ?xs = length xs" by (simp add: swap_def)
    ultimately show ?thesis
      using less.IH [of "Suc m" ?xs g'] less.prems 3 n(1) by auto
  qed (use less.prems in simp_all)
qed

lemma set_Candidates: "set (Candidates n) = {(a, b). a < b \<and> b < n}"
  by (force simp: Candidates_def image_iff)

lemma distinct_Candidates: "distinct (Candidates n)"
proof -
  have "x = y" if eq: "map (Pair x) [Suc x..<n] = map (Pair y) [Suc y..<n]" and "x < n" "y < n" for x y
  proof (cases "Suc x < n")
    case True
    then have "(x, Suc x) \<in> set (map (Pair x) [Suc x..<n])" by simp
    then show ?thesis unfolding eq by auto
  next
    case False
    then have "[Suc y..<n] = []" using eq by simp
    then show ?thesis using False that by auto
  qed
  then show ?thesis
    unfolding Candidates_def by (intro distinct_concat) (auto simp: distinct_map inj_on_def)
qed

lemma length_Candidates: "2 * length (Candidates n) = n * (n - 1)"
proof -
  have "length (Candidates n) = (\<Sum>i<n. n - Suc i)"
    by (simp add: Candidates_def length_concat comp_def sum_list_distinct_conv_sum_set atLeast0LessThan)
  also have "\<dots> = (\<Sum>i<n. i)" by (rule sum.nat_diff_reindex [of "\<lambda>i. i"])
  also have "2 * (\<Sum>i<n. i) = n * (n - 1)" by (induction n) (auto simp: algebra_simps)
  finally show ?thesis by simp
qed

lemma card_both_directions:
  fixes pairs :: "EdgeKey list"
  assumes "distinct pairs" "\<forall>(a, b)\<in>set pairs. a < b"
  shows "card (\<Union>(a, b)\<in>set pairs. {(a, b), (b, a)}) = 2 * length pairs"
proof -
  have "(\<Union>(a, b)\<in>set pairs. {(a, b), (b, a)}) = set pairs \<union> prod.swap ` set pairs"
    by (auto simp del: pair_in_swap_image) (auto simp: image_iff)
  moreover have "set pairs \<inter> prod.swap ` set pairs = {}"
  proof -
    have "(b, a) \<notin> set pairs" if "(a, b) \<in> set pairs" for a b
    proof
      assume "(b, a) \<in> set pairs"
      then have "a < b" "b < a" using assms(2) that by blast+
      then show False by simp
    qed
    then show ?thesis by fastforce
  qed
  moreover have "card (prod.swap ` set pairs) = card (set pairs)" by (rule card_image) simp
  ultimately show ?thesis using assms(1) by (simp add: card_Un_disjoint distinct_card)
qed

lemma sorted_pairs_length:
  assumes "sorted_wrt (<) (map edge_pair edges)" "set (map edge_pair edges) = K"
  shows "length edges = card K"
  using assms by (metis distinct_card length_map strict_sorted_iff)

text \<open>C10. With an engine that keeps delivering large values, a random graph of average
  degree \<open>d < n\<close> resolves to exactly \<open>n * d div 2\<close> undirected edges, each present in both
  directions.\<close>

theorem random_graph_exact:
  assumes "recurrent R" "tc_kind topology = kRandomGraph" "tc_average_degree topology < n" "n < 2 ^ 32"
  shows "\<exists>edges. ResolvePeerTopologyEdges R topology n = Inr edges
    \<and> length edges = 2 * (n * tc_average_degree topology div 2)
    \<and> (\<forall>a b. (a, b) \<in> set (map edge_pair edges) \<longleftrightarrow> (b, a) \<in> set (map edge_pair edges))"
proof -
  let ?d = "tc_average_degree topology"
  let ?m = "n * ?d div 2"
  have "n * (n - 1) < 2 ^ 32 * 2 ^ 32" using assms(4) by (intro mult_strict_mono) auto
  then have "length (Candidates n) < 2 ^ 64" using length_Candidates [of n] by simp
  then obtain ys g' where ys: "Shuffle R (length (Candidates n)) (Candidates n, rng_seed R (tc_seed topology)) = Inr (ys, g')"
    "mset ys = mset (Candidates n)"
    using Shuffle_permutes [OF assms(1) order_refl] by blast
  have set_ys: "set ys = {(a, b). a < b \<and> b < n}" "distinct ys" "length ys = length (Candidates n)"
    using ys(2) distinct_Candidates set_Candidates
    by (metis mset_eq_setD, metis mset_eq_imp_distinct_iff, metis size_mset)
  have "n * ?d \<le> n * (n - 1)" using assms(3) by (intro mult_le_mono2) simp
  then have m: "?m \<le> length ys" using length_Candidates [of n] set_ys(3) by linarith
  let ?pairs = "take ?m ys"
  let ?K = "\<Union>(a, b)\<in>set ?pairs. {(a, b), (b, a)}"
  have pairs: "(a, b) \<in> set ?pairs \<Longrightarrow> a < b \<and> b < n" for a b
    using in_set_takeD [of "(a, b)" ?m ys] unfolding set_ys(1) by blast
  have "adds n (fold_result (\<lambda>(a, b). Collector_AddBidirectional a b None None) ?pairs) ?K"
  proof (rule adds_fold)
    fix p assume p: "p \<in> set ?pairs"
    obtain a b where ab: "p = (a, b)" by (cases p)
    show "adds n (case p of (a, b) \<Rightarrow> Collector_AddBidirectional a b None None)
        (case p of (a, b) \<Rightarrow> {(a, b), (b, a)})"
      using pairs [of a b] p unfolding ab by (auto intro!: adds_bidirectional)
  qed
  then have "adds n (CollectEdges R topology n) ?K"
    using assms(2,3) ys(1) by (simp add: CollectEdges_def [abs_def] AddRandomGraph_def Let_def)
  from adds_resolve [OF this] obtain edges where edges: "ResolvePeerTopologyEdges R topology n = Inr edges"
    "set (map edge_pair edges) = ?K" "sorted_wrt (<) (map edge_pair edges)"
    using assms(3) by auto
  have "\<forall>(a, b)\<in>set ?pairs. a < b" using pairs by blast
  then have "card ?K = 2 * length ?pairs"
    by (rule card_both_directions [OF distinct_take [OF set_ys(2)]])
  then have "length edges = 2 * ?m" using sorted_pairs_length [OF edges(3,2)] m by (simp only: length_take min.absorb2)
  moreover have "(a, b) \<in> ?K \<longleftrightarrow> (b, a) \<in> ?K" for a b by auto
  then have "(a, b) \<in> set (map edge_pair edges) \<longleftrightarrow> (b, a) \<in> set (map edge_pair edges)" for a b
    unfolding edges(2) .
  ultimately show ?thesis using edges(1) by blast
qed

subsection \<open>The scale-free graph\<close>

abbreviation out_edges :: "EdgeCollector \<Rightarrow> nat \<Rightarrow> nat set" where
  "out_edges c i \<equiv> {b. (i, b) \<in> edge_keys c}"

text \<open>The degree table counts the peers of every node in the edges collected so far.\<close>

definition degrees_match :: "nat \<Rightarrow> EdgeCollector \<times> nat list \<Rightarrow> bool" where
  "degrees_match n state =
     (plain_collector n (fst state) \<and> length (snd state) = n
      \<and> edge_keys (fst state) \<subseteq> {..<n} \<times> {..<n}
      \<and> (\<forall>i<n. snd state ! i = card (out_edges (fst state) i)))"

lemma finite_out_edges: "finite (out_edges c i)"
proof -
  have "out_edges c i \<subseteq> snd ` edge_keys c" by force
  then show ?thesis by (rule finite_subset) (simp add: edge_keys_def)
qed

lemma ConnectPair_step:
  assumes "degrees_match n state" "a < n" "b < n" "a \<noteq> b"
    and "(a, b) \<notin> edge_keys (fst state)" "(b, a) \<notin> edge_keys (fst state)"
  shows "\<exists>state'. ConnectPair a b state = Inr state' \<and> degrees_match n state'
    \<and> edge_keys (fst state') = edge_keys (fst state) \<union> {(a, b), (b, a)}"
proof -
  obtain c deg where state: "state = (c, deg)" by (cases state)
  have plain: "plain_collector n c" and len: "length deg = n"
    and keys: "edge_keys c \<subseteq> {..<n} \<times> {..<n}" and deg: "\<And>i. i < n \<Longrightarrow> deg ! i = card (out_edges c i)"
    using assms(1) by (auto simp: state degrees_match_def)
  obtain c' where c': "Collector_AddBidirectional a b None None c = Inr c'" "plain_collector n c'"
    "edge_keys c' = edge_keys c \<union> {(a, b), (b, a)}"
    using adds_bidirectional [OF assms(2-4)] plain unfolding adds_def by blast
  have out: "out_edges c' i = (if i = a then insert b (out_edges c i)
      else if i = b then insert a (out_edges c i) else out_edges c i)" for i
    using assms(4) unfolding c'(3) by auto
  have "bump b (bump a deg) ! i = card (out_edges c' i)" if "i < n" for i
    using that deg [OF that] assms len unfolding out
    by (auto simp: bump_def nth_list_update state finite_out_edges)
  then have "degrees_match n (c', bump b (bump a deg))"
    using c' keys len assms(2,3) by (auto simp: degrees_match_def bump_def)
  then show ?thesis using c' by (auto simp: ConnectPair_def state)
qed

lemma ConnectPairs:
  assumes "degrees_match n state" "distinct bs" "a < n" "\<forall>b\<in>set bs. b < n \<and> b \<noteq> a"
    and "\<forall>b\<in>set bs. (a, b) \<notin> edge_keys (fst state) \<and> (b, a) \<notin> edge_keys (fst state)"
  shows "\<exists>state'. fold_result (ConnectPair a) bs state = Inr state' \<and> degrees_match n state'
    \<and> edge_keys (fst state') = edge_keys (fst state) \<union> (\<Union>b\<in>set bs. {(a, b), (b, a)})"
  using assms
proof (induction bs arbitrary: state)
  case (Cons b bs)
  obtain state' where state': "ConnectPair a b state = Inr state'" "degrees_match n state'"
    "edge_keys (fst state') = edge_keys (fst state) \<union> {(a, b), (b, a)}"
    using ConnectPair_step [of n state a b] Cons.prems by auto
  have "\<forall>b\<in>set bs. (a, b) \<notin> edge_keys (fst state') \<and> (b, a) \<notin> edge_keys (fst state')"
    using Cons.prems(2,4,5) unfolding state'(3) by auto
  then obtain state'' where "fold_result (ConnectPair a) bs state' = Inr state''" "degrees_match n state''"
    "edge_keys (fst state'') = edge_keys (fst state') \<union> (\<Union>b\<in>set bs. {(a, b), (b, a)})"
    using Cons.IH [OF state'(2)] Cons.prems by auto
  then show ?case using state' by auto
qed simp

lemma TotalWeight_exact:
  fixes degrees :: "nat list"
  assumes "(\<Sum>i\<leftarrow>filter (\<lambda>i. i \<notin> set selected) xs. degrees ! i) + acc < 2 ^ 64"
  shows "fold_result (\<lambda>candidate total.
       if candidate \<in> set selected then Inr total
       else if degrees ! candidate > 2 ^ 64 - 1 - total
       then Inl (RuntimeError ''scale-free graph degree weight overflow'')
       else Inr (total + degrees ! candidate)) xs acc
    = Inr ((\<Sum>i\<leftarrow>filter (\<lambda>i. i \<notin> set selected) xs. degrees ! i) + acc)"
  using assms
proof (induction xs arbitrary: acc)
  case (Cons x xs)
  show ?case
  proof (cases "x \<in> set selected")
    case False
    then have "\<not> degrees ! x > 2 ^ 64 - 1 - acc" using Cons.prems by simp
    then show ?thesis
      using False Cons.IH [of "acc + degrees ! x"] Cons.prems by (simp add: ac_simps)
  qed (use Cons in simp)
qed simp

lemma PickCandidate_some:
  fixes degrees :: "nat list"
  assumes "draw < (\<Sum>i\<leftarrow>filter (\<lambda>i. i \<notin> set selected) xs. degrees ! i)"
  shows "\<exists>c. PickCandidate degrees selected xs draw = Some c \<and> c \<in> set xs \<and> c \<notin> set selected"
  using assms
proof (induction xs arbitrary: draw)
  case (Cons x xs)
  show ?case
  proof (cases "x \<in> set selected")
    case True
    then show ?thesis using Cons.IH [of draw] Cons.prems by auto
  next
    case False
    then have "draw - degrees ! x < (\<Sum>i\<leftarrow>filter (\<lambda>i. i \<notin> set selected) xs. degrees ! i)"
      if "\<not> draw < degrees ! x"
      using Cons.prems that by simp
    then show ?thesis using Cons.IH False by fastforce
  qed
qed simp

lemma SelectAttachments_returns:
  assumes "recurrent R" "sum_list degrees < 2 ^ 64" "k < node" "node \<le> length degrees" "\<forall>i<node. 0 < degrees ! i"
    and "sorted selected" "distinct selected" "set selected \<subseteq> {..<node}" "length selected \<le> k"
  shows "\<exists>sel g'. SelectAttachments R degrees k node selected g = Some (Inr (sel, g'))
    \<and> distinct sel \<and> set sel \<subseteq> {..<node} \<and> length sel = k"
  using assms(6-9)
proof (induction "k - length selected" arbitrary: selected g)
  case 0
  then show ?case by (subst SelectAttachments.simps) simp
next
  case (Suc m)
  let ?free = "filter (\<lambda>i. i \<notin> set selected) [0..<node]"
  let ?w = "\<Sum>i\<leftarrow>?free. degrees ! i"
  have "card (set selected) < card {..<node}"
    using Suc.prems(2,4) assms(3) by (simp add: distinct_card)
  then have "\<not> {..<node} \<subseteq> set selected" by (meson card_mono leD List.finite_set)
  then obtain j where j: "j < node" "j \<notin> set selected" by auto
  then have "degrees ! j \<le> ?w" by (intro member_le_sum_list) auto
  then have pos: "0 < ?w" using j(1) assms(5) by fastforce
  have "?w \<le> (\<Sum>i\<leftarrow>[0..<node]. degrees ! i)" by (rule sum_list_filter_le_nat)
  also have "map ((!) degrees) [0..<node] = take node degrees"
    using assms(4) by (intro nth_equalityI) auto
  also have "sum_list (take node degrees) \<le> sum_list degrees"
    by (metis append_take_drop_id le_add1 sum_list_append)
  finally have "?w < 2 ^ 64" using assms(2) by simp
  then have weight: "TotalWeight degrees selected node = Inr ?w"
    using TotalWeight_exact [of degrees selected "[0..<node]" 0] by (simp add: TotalWeight_def)
  have unat: "unat (word_of_nat ?w :: u64) = ?w" using \<open>?w < 2 ^ 64\<close> by (simp only: unat_of_nat) simp
  then have "(word_of_nat ?w :: u64) \<noteq> 0" using pos by (metis less_irrefl unat_0)
  from BoundedRandom_returns [OF assms(1) this, of g]
  obtain d g' where d: "BoundedRandom R g (word_of_nat ?w) = Inr (d, g')" "unat d < ?w"
    unfolding unat by blast
  obtain c where c: "PickCandidate degrees selected [0..<node] (unat d) = Some c" "c < node" "c \<notin> set selected"
    using PickCandidate_some [OF d(2)] by auto
  have "length (sset_insert c selected) = Suc (length selected)" using c(3) by (simp add: sset_insert_def)
  then have "\<exists>sel g''. SelectAttachments R degrees k node (sset_insert c selected) g' = Some (Inr (sel, g''))
      \<and> distinct sel \<and> set sel \<subseteq> {..<node} \<and> length sel = k"
    using Suc.hyps(2) Suc.prems c(2) by (intro Suc.hyps(1)) auto
  moreover have "length selected < k" using Suc.hyps(2) by simp
  ultimately show ?case
    using j assms(5) by (subst SelectAttachments.simps) (auto simp: weight d(1) c(1))
qed

lemma degrees_sum:
  assumes "degrees_match n state"
  shows "sum_list (snd state) = card (edge_keys (fst state))"
proof -
  have sigma: "Sigma {..<n} (out_edges (fst state)) = edge_keys (fst state)"
    using assms by (auto simp: degrees_match_def)
  have "card (Sigma {..<n} (out_edges (fst state))) = (\<Sum>i<n. card (out_edges (fst state) i))"
    by (rule card_SigmaI) (simp_all add: finite_out_edges)
  also have "\<dots> = (\<Sum>i<n. snd state ! i)"
    using assms by (intro sum.cong) (auto simp: degrees_match_def)
  also have "\<dots> = sum_list (snd state)"
    using assms by (simp add: degrees_match_def sum_list_sum_nth atLeast0LessThan)
  finally show ?thesis unfolding sigma by simp
qed

text \<open>The edges when the nodes below \<open>m\<close> are attached.\<close>

definition attached :: "nat \<Rightarrow> nat \<Rightarrow> nat \<Rightarrow> EdgeCollector \<times> nat list \<Rightarrow> bool" where
  "attached n k m state =
     (degrees_match n state
      \<and> edge_keys (fst state) \<subseteq> {..<m} \<times> {..<m}
      \<and> (\<forall>i<m. out_edges (fst state) i \<noteq> {})
      \<and> card (edge_keys (fst state)) = k * (k + 1) + 2 * k * (m - (k + 1))
      \<and> (\<forall>a b. (a, b) \<in> edge_keys (fst state) \<longleftrightarrow> (b, a) \<in> edge_keys (fst state))
      \<and> (\<forall>j. k < j \<and> j < m \<longrightarrow> card {b \<in> out_edges (fst state) j. b < j} = k))"

lemma card_spokes:
  fixes m :: nat
  assumes "distinct sel" "set sel \<subseteq> {..<m}"
  shows "card (\<Union>b\<in>set sel. {(m, b), (b, m)}) = 2 * length sel"
proof -
  have "(\<Union>b\<in>set sel. {(m, b), (b, m)}) = Pair m ` set sel \<union> (\<lambda>b. (b, m)) ` set sel" by auto
  moreover have "m \<notin> set sel" using assms(2) by auto
  then have "Pair m ` set sel \<inter> (\<lambda>b. (b, m)) ` set sel = {}" by auto
  moreover have "card (Pair m ` set sel) = length sel" "card ((\<lambda>b. (b, m)) ` set sel) = length sel"
    using assms(1) by (simp_all add: card_image inj_on_def distinct_card)
  ultimately show ?thesis by (simp add: card_Un_disjoint)
qed

lemma attached_step:
  assumes "attached n k m state" "k < m" "0 < k" "m < n" "degrees_match n state'"
    and sel: "distinct sel" "set sel \<subseteq> {..<m}" "length sel = k"
    and keys: "edge_keys (fst state') = edge_keys (fst state) \<union> (\<Union>b\<in>set sel. {(m, b), (b, m)})"
  shows "attached n k (Suc m) state'"
proof -
  let ?E = "edge_keys (fst state)" and ?S = "\<Union>b\<in>set sel. {(m, b), (b, m)}"
  have E: "?E \<subseteq> {..<m} \<times> {..<m}" and old: "\<forall>i<m. out_edges (fst state) i \<noteq> {}"
    and sym: "\<And>a b. (a, b) \<in> ?E \<longleftrightarrow> (b, a) \<in> ?E"
    using assms(1) by (simp_all add: attached_def)
  have fin: "finite ?E" by (simp add: edge_keys_def)
  have "?E \<inter> ?S = {}" using E by auto
  then have card: "card (edge_keys (fst state')) = card ?E + 2 * k"
    unfolding keys using card_spokes [OF sel(1,2)] sel(3) fin by (simp add: card_Un_disjoint)
  have count: "k * (k + 1) + 2 * k * (m - (k + 1)) + 2 * k = k * (k + 1) + 2 * k * (Suc m - (k + 1))"
    using assms(2) by (auto simp: less_iff_Suc_add)
  have below: "{b \<in> out_edges (fst state') j. b < j}
      = (if j = m then set sel else {b \<in> out_edges (fst state) j. b < j})" if "j \<le> m" for j
    using E sel(2) that unfolding keys by auto
  have "hd sel \<in> set sel" using sel(3) assms(3) by (intro hd_in_set) auto
  then have "hd sel \<in> out_edges (fst state') m" unfolding keys by blast
  then have "out_edges (fst state') m \<noteq> {}" by blast
  moreover have "out_edges (fst state) i \<subseteq> out_edges (fst state') i" for i unfolding keys by auto
  ultimately have "\<forall>i<Suc m. out_edges (fst state') i \<noteq> {}"
    using old by (metis less_Suc_eq subset_empty)
  moreover have "edge_keys (fst state') \<subseteq> {..<Suc m} \<times> {..<Suc m}" using E sel(2) unfolding keys by auto
  moreover have "(a, b) \<in> edge_keys (fst state') \<longleftrightarrow> (b, a) \<in> edge_keys (fst state')" for a b
    unfolding keys using sym [of a b] by blast
  moreover have "card {b \<in> out_edges (fst state') j. b < j} = k" if "k < j" "j < Suc m" for j
    using below [of j] that assms(1) sel distinct_card [of sel] by (auto simp: attached_def)
  ultimately show ?thesis using assms(1,5) card count unfolding attached_def by auto
qed

lemma AttachNode_step:
  assumes "recurrent R" "attached n k m (fst state)" "k < m" "0 < k" "m < n" "n < 2 ^ 32"
  shows "\<exists>state'. AttachNode R k m state = Inr state' \<and> attached n k (Suc m) (fst state')"
proof -
  let ?deg = "snd (fst state)"
  have match: "degrees_match n (fst state)" using assms(2) by (simp add: attached_def)
  then have len: "length ?deg = n" by (simp add: degrees_match_def)
  have "card (edge_keys (fst (fst state))) \<le> card ({..<n} \<times> {..<n})"
    using match by (intro card_mono) (auto simp: degrees_match_def)
  moreover have "n * n < 2 ^ 32 * 2 ^ 32" using assms(6) by (intro mult_strict_mono) auto
  ultimately have "sum_list ?deg < 2 ^ 64" using degrees_sum [OF match] by simp
  moreover have "\<forall>i<m. 0 < ?deg ! i"
    using assms(2,5) finite_out_edges by (auto simp: attached_def degrees_match_def card_gt_0_iff)
  ultimately obtain sel g' where sel: "SelectAttachments R ?deg k m [] (snd state) = Some (Inr (sel, g'))"
    "distinct sel" "set sel \<subseteq> {..<m}" "length sel = k"
    using SelectAttachments_returns [OF assms(1), of ?deg k m "[]" "snd state"] assms(3,5) len by auto
  have "edge_keys (fst (fst state)) \<subseteq> {..<m} \<times> {..<m}" using assms(2) by (simp add: attached_def)
  then have "\<forall>b\<in>set sel. (m, b) \<notin> edge_keys (fst (fst state)) \<and> (b, m) \<notin> edge_keys (fst (fst state))" by auto
  moreover have "\<forall>b\<in>set sel. b < n \<and> b \<noteq> m" using sel(3) assms(5) by fastforce
  ultimately obtain state' where state': "fold_result (ConnectPair m) sel (fst state) = Inr state'"
    "degrees_match n state'"
    "edge_keys (fst state') = edge_keys (fst (fst state)) \<union> (\<Union>b\<in>set sel. {(m, b), (b, m)})"
    using ConnectPairs [OF match sel(2) assms(5)] by blast
  have "attached n k (Suc m) state'"
    by (rule attached_step [OF assms(2-5) state'(2) sel(2-4) state'(3)])
  then show ?thesis using sel(1) state'(1) by (simp add: AttachNode_def)
qed

lemma initial_clique:
  assumes "k < n" "plain_collector n c" "edge_keys c = {}"
  shows "\<exists>state. fold_result (\<lambda>a. fold_result (ConnectPair a) [a + 1..<k + 1]) [0..<k + 1] (c, replicate n 0) = Inr state
    \<and> degrees_match n state \<and> edge_keys (fst state) = {(a, b). a < k + 1 \<and> b < k + 1 \<and> a \<noteq> b}"
proof -
  let ?I = "\<lambda>m state. degrees_match n state
    \<and> edge_keys (fst state) = {(a, b). a < k + 1 \<and> b < k + 1 \<and> a \<noteq> b \<and> (a < m \<or> b < m)}"
  have "\<exists>state. fold_result (\<lambda>a. fold_result (ConnectPair a) [a + 1..<k + 1]) [0..<k + 1] (c, replicate n 0) = Inr state
      \<and> ?I (k + 1) state"
  proof (rule fold_result_upt [where I = ?I])
    show "?I 0 (c, replicate n 0)" using assms by (simp add: degrees_match_def)
  next
    fix m state assume m: "m < k + 1" and I: "?I m state"
    have match: "degrees_match n state" and keys: "(a, b) \<in> edge_keys (fst state) \<longleftrightarrow>
        a < k + 1 \<and> b < k + 1 \<and> a \<noteq> b \<and> (a < m \<or> b < m)" for a b
      using I by blast+
    have fresh: "\<forall>b\<in>set [m + 1..<k + 1]. (m, b) \<notin> edge_keys (fst state) \<and> (b, m) \<notin> edge_keys (fst state)"
      unfolding keys by (auto simp del: upt_Suc)
    have range: "m < n" "\<forall>b\<in>set [m + 1..<k + 1]. b < n \<and> b \<noteq> m" using m assms(1) by (auto simp del: upt_Suc)
    obtain state' where state': "fold_result (ConnectPair m) [m + 1..<k + 1] state = Inr state'"
      "degrees_match n state'"
      "edge_keys (fst state') = edge_keys (fst state) \<union> (\<Union>b\<in>set [m + 1..<k + 1]. {(m, b), (b, m)})"
      using ConnectPairs [OF match distinct_upt range fresh] by metis
    have "(a, b) \<in> edge_keys (fst state') \<longleftrightarrow>
        a < k + 1 \<and> b < k + 1 \<and> a \<noteq> b \<and> (a < Suc m \<or> b < Suc m)" for a b
      using m keys [of a b] unfolding state'(3) by (auto simp: less_Suc_eq simp del: upt_Suc)
    then have "edge_keys (fst state') = {(a, b). a < k + 1 \<and> b < k + 1 \<and> a \<noteq> b \<and> (a < Suc m \<or> b < Suc m)}"
      by blast
    then show "\<exists>state'. fold_result (ConnectPair m) [m + 1..<k + 1] state = Inr state' \<and> ?I (Suc m) state'"
      using state'(1,2) by blast
  qed simp
  moreover have "{(a, b). a < k + 1 \<and> b < k + 1 \<and> a \<noteq> b \<and> (a < k + 1 \<or> b < k + 1)}
      = {(a, b). a < k + 1 \<and> b < k + 1 \<and> a \<noteq> b}" by blast
  ultimately show ?thesis by simp
qed

lemma card_clique: "card {(a, b). a < k + 1 \<and> b < k + 1 \<and> a \<noteq> b} = k * (k + 1)"
proof -
  have "{(a, b). a < k + 1 \<and> b < k + 1 \<and> a \<noteq> b} = (SIGMA a:{..<k + 1}. {..<k + 1} - {a})" by auto
  then have "card {(a, b). a < k + 1 \<and> b < k + 1 \<and> a \<noteq> b} = (\<Sum>a<k + 1. card ({..<k + 1} - {a}))" by simp
  also have "\<dots> = (\<Sum>a<k + 1. k)" by (intro sum.cong) auto
  finally show ?thesis by simp
qed

lemma clique_attached:
  assumes "degrees_match n state" "0 < k"
    and keys: "edge_keys (fst state) = {(a, b). a < k + 1 \<and> b < k + 1 \<and> a \<noteq> b}"
  shows "attached n k (k + 1) state"
proof -
  have "\<exists>b. b < k + 1 \<and> i \<noteq> b" for i using assms(2) by (cases "i = 0") (auto intro: exI [of _ 1] exI [of _ 0])
  then have "\<forall>i<k + 1. out_edges (fst state) i \<noteq> {}" unfolding keys by auto
  then show ?thesis
    using assms(1) card_clique [of k] unfolding attached_def keys by auto
qed

lemma AttachmentCount_pos: "AttachmentCount topology = Inr k \<Longrightarrow> 0 < k"
  by (auto simp: AttachmentCount_def split: if_splits)

lemma AddScaleFreeGraph_returns:
  fixes R :: "'g rng"
  assumes "recurrent R" "1 < n" "n < 2 ^ 32" "AttachmentCount topology = Inr k" "k < n"
    and "tc_average_degree topology < n" "plain_collector n c" "edge_keys c = {}"
  shows "\<exists>state. AddScaleFreeGraph R topology n c = Inr (fst state) \<and> attached n k n state"
proof -
  have k: "0 < k" by (rule AttachmentCount_pos [OF assms(4)])
  obtain initial where initial:
    "fold_result (\<lambda>a. fold_result (ConnectPair a) [a + 1..<k + 1]) [0..<k + 1] (c, replicate n 0) = Inr initial"
    "attached n k (k + 1) initial"
    using initial_clique [OF assms(5,7,8)] clique_attached [OF _ k] by metis
  have "\<exists>final. fold_result (AttachNode R k) [k + 1..<n] (initial, rng_seed R (tc_seed topology)) = Inr final
      \<and> attached n k n (fst final)"
  proof (rule fold_result_upt [where I = "\<lambda>m state. attached n k m (fst state)"])
    fix m and state :: "(EdgeCollector \<times> nat list) \<times> 'g"
    assume "k + 1 \<le> m" "m < n" "attached n k m (fst state)"
    then show "\<exists>s'. AttachNode R k m state = Inr s' \<and> attached n k (Suc m) (fst s')"
      using AttachNode_step [OF assms(1)] k assms(3) by simp
  qed (use initial(2) assms(5) in auto)
  then obtain final where final: "fold_result (AttachNode R k) [k + 1..<n] (initial, rng_seed R (tc_seed topology)) = Inr final"
    "attached n k n (fst final)" by blast
  have "AddScaleFreeGraph R topology n c = Inr (fst (fst final))"
    using assms(2,4,5,6) initial(1) final(1) by (simp add: AddScaleFreeGraph_def Let_def del: upt_Suc)
  then show ?thesis using final(2) by blast
qed

text \<open>C11. A scale-free graph of \<open>n\<close> nodes with \<open>k\<close> attachments per node resolves without an
  exception (no weight overflow, no missing candidate, no endless draw): the first \<open>k + 1\<close>
  nodes form a clique, every later node has exactly \<open>k\<close> peers among its predecessors, and
  every edge is present in both directions.\<close>

theorem scale_free_graph_exact:
  assumes "recurrent R" "tc_kind topology = kScaleFreeGraph" "1 < n" "n < 2 ^ 32"
    and "AttachmentCount topology = Inr k" "k < n" "tc_average_degree topology < n"
  shows "\<exists>edges. ResolvePeerTopologyEdges R topology n = Inr edges
    \<and> length edges = k * (k + 1) + 2 * k * (n - (k + 1))
    \<and> (\<forall>a b. (a, b) \<in> set (map edge_pair edges) \<longleftrightarrow> (b, a) \<in> set (map edge_pair edges))
    \<and> (\<forall>j. k < j \<and> j < n \<longrightarrow> card {b. (j, b) \<in> set (map edge_pair edges) \<and> b < j} = k)"
proof -
  have "plain_collector n \<lparr>ec_node_count = n, ec_edges = []\<rparr>" "edge_keys \<lparr>ec_node_count = n, ec_edges = []\<rparr> = {}"
    by (simp_all add: plain_collector_def edge_keys_def)
  from AddScaleFreeGraph_returns [OF assms(1,3-7) this] obtain state where
    state: "AddScaleFreeGraph R topology n \<lparr>ec_node_count = n, ec_edges = []\<rparr> = Inr (fst state)" "attached n k n state"
    by blast
  let ?edges = "Collector_Resolve (fst state)"
  have "ResolvePeerTopologyEdges R topology n = Inr ?edges"
    using assms(2,3) state(1) by (simp add: ResolvePeerTopologyEdges_def RequireNodeCount_def CollectEdges_def)
  moreover have keys: "set (map edge_pair ?edges) = edge_keys (fst state)"
    unfolding Collector_Resolve_pairs edge_keys_def by simp
  moreover have "sorted_wrt (<) (map edge_pair ?edges)"
    using state(2) unfolding Collector_Resolve_pairs
    by (simp add: attached_def degrees_match_def plain_collector_def sorted_keys_def)
  then have "length ?edges = card (edge_keys (fst state))" using keys by (rule sorted_pairs_length)
  ultimately show ?thesis
    using state(2) unfolding attached_def by (intro exI [of _ ?edges]) (simp only: keys, simp)
qed

subsection \<open>Examples\<close>

text \<open>An engine that repeats a large value.\<close>

definition high_rng :: "unit rng" where
  "high_rng = \<lparr>rng_seed = (\<lambda>_. ()), rng_next = (\<lambda>_. (max_u64, ()))\<rparr>"

lemma high_rng_recurrent: "recurrent high_rng"
proof -
  have "nth_draw high_rng 0 g = max_u64" for g by (simp add: high_rng_def)
  then have "2 ^ 63 \<le> unat (nth_draw high_rng 0 g)" for g by simp
  then show ?thesis unfolding recurrent_def by blast
qed

lemma mesh_of_two:
  "ResolvePeerTopologyEdges high_rng DefaultPeerTopologyConfig 2 =
     Inr [\<lparr>rp_from = 0, rp_to = 1, rp_latency_ms = None, rp_condition = None\<rparr>,
          \<lparr>rp_from = 1, rp_to = 0, rp_latency_ms = None, rp_condition = None\<rparr>]"
  by code_simp

theorem resolved_edges_wf_witness:
  "sorted_wrt (<) (map edge_pair
     [\<lparr>rp_from = 0, rp_to = 1, rp_latency_ms = None, rp_condition = None\<rparr>,
      \<lparr>rp_from = 1, rp_to = 0, rp_latency_ms = None, rp_condition = None\<rparr>])"
  using resolved_edges_wf [OF mesh_of_two] by blast

definition example_groups :: PeerTopologyConfig where
  "example_groups = DefaultPeerTopologyConfig \<lparr>tc_kind := kPartitionedGroups, tc_groups := [[0, 2], [1]]\<rparr>"

theorem deterministic_topologies_witness:
  "\<exists>edges. ResolvePeerTopologyEdges high_rng example_groups 3 = Inr edges
     \<and> set (map edge_pair edges) = {(0, 2), (2, 0)}"
proof -
  have "deterministic example_groups 3" by code_simp
  moreover have "{(a, b). a < 3 \<and> b < 3 \<and> adjacent example_groups 3 a b} = {(0, 2), (2, 0)}"
    by (auto simp: adjacent_def example_groups_def DefaultPeerTopologyConfig_def)
  ultimately show ?thesis
    using deterministic_topologies_exact [of 3 example_groups high_rng] by auto
qed

theorem full_mesh_default_peers_witness:
  "ResolvePeerTopologyPeerIndexes high_rng DefaultPeerTopologyConfig 4 2 = Inr [0, 1, 3]"
  using full_mesh_default_peers [of DefaultPeerTopologyConfig high_rng 4 2 "[0, 1, 3]"]
  by (simp add: DefaultPeerTopologyConfig_def DefaultStartupPeerIndexes_def upt_rec)

theorem BoundedRandom_uniform_witness:
  "card {n. BoundedRandom repeat_rng n 10 = Inr (3, n)} = 2 ^ 64 div 10
   \<and> (\<exists>n g'. BoundedRandom high_rng () 10 = Inr (n, g') \<and> n < 10)"
  using BoundedRandom_uniform [of 10 high_rng "()"] high_rng_recurrent by simp

theorem random_graph_exact_witness:
  "\<exists>edges. ResolvePeerTopologyEdges high_rng
      (DefaultPeerTopologyConfig \<lparr>tc_kind := kRandomGraph, tc_average_degree := 3\<rparr>) 5 = Inr edges
    \<and> length edges = 14"
  using random_graph_exact [OF high_rng_recurrent,
      of "DefaultPeerTopologyConfig \<lparr>tc_kind := kRandomGraph, tc_average_degree := 3\<rparr>" 5] by auto

theorem scale_free_graph_exact_witness:
  "\<exists>edges. ResolvePeerTopologyEdges high_rng
      (DefaultPeerTopologyConfig \<lparr>tc_kind := kScaleFreeGraph, tc_attachment_count := 2\<rparr>) 5 = Inr edges
    \<and> length edges = 14"
  using scale_free_graph_exact [OF high_rng_recurrent,
      of "DefaultPeerTopologyConfig \<lparr>tc_kind := kScaleFreeGraph, tc_attachment_count := 2\<rparr>" 5 2]
  by (auto simp: AttachmentCount_def DefaultPeerTopologyConfig_def)

end
