(* ===== verification/Runtime_Topology.thy ===== *)
theory Runtime_Topology
  imports Address_Plan Peer_Topology "HOL-Library.List_Lexorder" "HOL-Library.Char_ord"
begin

text \<open>
  The peer topology of a running simulation: \<open>src/runtime_peer_topology.cpp\<close>. Every
  directed edge has a state that operators change at run time and a band of the source
  node's priority queueing discipline: an active edge with a network condition owns one of
  the fifteen bands of its source. \<open>std::map\<close> is a list sorted by key; the array of used
  bands is a set of numbers.
\<close>

record RuntimePeerTopologyEdge =
  rx_from :: nat
  rx_to :: nat
  rx_band :: nat
  rx_active :: bool
  rx_condition :: "NetworkCondition option"

record RuntimePeerTopology =
  rt_node_count :: nat
  rt_baseline_edges :: "RuntimePeerTopologyEdge list"
  rt_edges :: "RuntimePeerTopologyEdge list"

definition kMaximumDirectionalBands :: nat where
  "kMaximumDirectionalBands = 15"

subsection \<open>Bands\<close>

definition AllocateDirectionalBand :: "nat \<Rightarrow> nat set \<Rightarrow> nat result" where
  "AllocateDirectionalBand preferred used =
     (if preferred \<noteq> 0 \<and> preferred \<le> kMaximumDirectionalBands \<and> preferred \<notin> used
      then Inr preferred
      else case find (\<lambda>band. band \<notin> used) [1..<Suc kMaximumDirectionalBands] of
          Some band \<Rightarrow> Inr band
        | None \<Rightarrow> Inl (RuntimeError ''directional qdisc bands exhausted: requested 16, available 15''))"

text \<open>An edge that is active and has a condition occupies its band.\<close>

definition occupies :: "RuntimePeerTopologyEdge \<Rightarrow> bool" where
  "occupies edge \<longleftrightarrow> rx_active edge \<and> rx_condition edge \<noteq> None"

definition MarkUsed ::
    "RuntimePeerTopologyEdge \<Rightarrow> RuntimePeerTopologyEdge \<Rightarrow> nat set \<Rightarrow> nat set result" where
  "MarkUsed state edge used =
     (if rx_from edge = rx_from state \<and> rx_to edge \<noteq> rx_to state \<and> occupies edge
      then (if rx_band edge > kMaximumDirectionalBands then Inl (OutOfRange ''array::at'')
            else Inr (insert (rx_band edge) used))
      else Inr used)"

definition DirectionalBandForState ::
    "RuntimePeerTopologyEdge \<Rightarrow> RuntimePeerTopologyEdge list \<Rightarrow> nat result" where
  "DirectionalBandForState state edges =
     (if \<not> occupies state then Inr (rx_band state)
      else bind_result (fold_result (MarkUsed state) edges {}) (AllocateDirectionalBand (rx_band state)))"

fun AssignDirectionalBands ::
    "nat set list \<Rightarrow> RuntimePeerTopologyEdge list \<Rightarrow> RuntimePeerTopologyEdge list result" where
  "AssignDirectionalBands used [] = Inr []"
| "AssignDirectionalBands used (edge # edges) =
     (if occupies edge
      then bind_result (AllocateDirectionalBand (rx_band edge) (used ! rx_from edge)) (\<lambda>band.
        bind_result (AssignDirectionalBands
            (used[rx_from edge := insert band (used ! rx_from edge)]) edges) (\<lambda>rest.
          Inr (edge\<lparr>rx_band := band\<rparr> # rest)))
      else bind_result (AssignDirectionalBands used edges) (\<lambda>rest. Inr (edge # rest)))"

subsection \<open>Construction\<close>

record InitialEdgeState =
  ie_active :: bool
  ie_latency_ms :: "nat option"
  ie_condition :: "NetworkCondition option"

definition ValidateInitialEdge :: "nat \<Rightarrow> nat \<Rightarrow> nat \<Rightarrow> InitialEdgeState \<Rightarrow> unit result" where
  "ValidateInitialEdge src dst node_count state =
     (if src \<ge> node_count \<or> dst \<ge> node_count
      then Inl (RuntimeError ''runtime topology edge node is out of range'')
      else if src = dst then Inl (RuntimeError ''runtime topology must not contain self edges'')
      else case ie_condition state of
          None \<Rightarrow> Inr ()
        | Some condition \<Rightarrow> bind_result (ValidateNetworkCondition condition) (\<lambda>_.
            case ie_latency_ms state of
              None \<Rightarrow> Inr ()
            | Some latency \<Rightarrow>
                if delay_ms condition \<noteq> latency
                then Inl (RuntimeError ''runtime topology latency and typed delay must match'')
                else Inr ()))"

type_synonym initial_edges = "(EdgeKey \<times> InitialEdgeState) list"

definition AddInitialEdge ::
    "nat \<Rightarrow> nat \<Rightarrow> nat \<Rightarrow> InitialEdgeState \<Rightarrow> initial_edges \<Rightarrow> initial_edges result" where
  "AddInitialEdge node_count src dst state edges =
     bind_result (ValidateInitialEdge src dst node_count state) (\<lambda>_.
       case map_of edges (src, dst) of
         None \<Rightarrow> Inr (smap_insert (src, dst) state edges)
       | Some present \<Rightarrow>
           if present \<noteq> state
           then Inl (RuntimeError ''runtime topology contains conflicting duplicate edges'')
           else Inr edges)"

definition AddInitialPair ::
    "nat \<Rightarrow> nat \<Rightarrow> nat \<Rightarrow> bool \<Rightarrow> InitialEdgeState \<Rightarrow> initial_edges \<Rightarrow> initial_edges result" where
  "AddInitialPair node_count src dst bidirectional state edges =
     bind_result (AddInitialEdge node_count src dst state edges) (\<lambda>edges'.
       if bidirectional then AddInitialEdge node_count dst src state edges' else Inr edges')"

definition AddInactiveRegionEdge ::
    "PeerTopologyConfig \<Rightarrow> nat \<Rightarrow> PeerTopologyRegionEdge \<Rightarrow> initial_edges \<Rightarrow> initial_edges result" where
  "AddInactiveRegionEdge topology node_count edge edges =
     (if re_active edge then Inr edges
      else AddInitialPair node_count
        (hd (tc_regions topology ! re_from_region edge)) (hd (tc_regions topology ! re_to_region edge))
        (re_bidirectional edge)
        \<lparr>ie_active = False, ie_latency_ms = re_latency_ms edge, ie_condition = re_condition edge\<rparr> edges)"

definition AddInactiveRegionEdges :: "PeerTopologyConfig \<Rightarrow> nat \<Rightarrow> initial_edges \<Rightarrow> initial_edges result" where
  "AddInactiveRegionEdges topology node_count edges =
     (if tc_kind topology = kInternetLikeRegionGraph \<and> tc_region_edges topology \<noteq> []
      then fold_result (AddInactiveRegionEdge topology node_count) (tc_region_edges topology) edges
      else Inr edges)"

definition AddConfigured :: "nat \<Rightarrow> PeerTopologyEdge \<Rightarrow> initial_edges \<Rightarrow> initial_edges result" where
  "AddConfigured node_count edge =
     AddInitialPair node_count (te_from edge) (te_to edge) (te_bidirectional edge)
       \<lparr>ie_active = te_active edge, ie_latency_ms = te_latency_ms edge, ie_condition = te_condition edge\<rparr>"

definition AddResolved :: "nat \<Rightarrow> ResolvedPeerTopologyEdge \<Rightarrow> initial_edges \<Rightarrow> initial_edges result" where
  "AddResolved node_count edge =
     AddInitialEdge node_count (rp_from edge) (rp_to edge)
       \<lparr>ie_active = True, ie_latency_ms = rp_latency_ms edge, ie_condition = rp_condition edge\<rparr>"

definition InitialEdges :: "'g rng \<Rightarrow> PeerTopologyConfig \<Rightarrow> nat \<Rightarrow> initial_edges result" where
  "InitialEdges R topology node_count =
     (if tc_kind topology = kCustomEdgeList
      then fold_result (AddConfigured node_count) (tc_edges topology) []
      else bind_result (ResolvePeerTopologyEdges R topology node_count) (\<lambda>resolved.
        bind_result (fold_result (AddResolved node_count) resolved [])
          (AddInactiveRegionEdges topology node_count)))"

text \<open>The loop of the constructor, with the last band given to each source.\<close>

fun NumberedEdges :: "nat list \<Rightarrow> initial_edges \<Rightarrow> RuntimePeerTopologyEdge list" where
  "NumberedEdges next_band [] = []"
| "NumberedEdges next_band (((src, dst), state) # edges) =
     (let band = next_band ! src + 1 in
      \<lparr>rx_from = src, rx_to = dst, rx_band = band, rx_active = ie_active state,
       rx_condition = ie_condition state\<rparr> # NumberedEdges (next_band[src := band]) edges)"

definition new_RuntimePeerTopology ::
    "'g rng \<Rightarrow> PeerTopologyConfig \<Rightarrow> nat \<Rightarrow> bool \<Rightarrow> RuntimePeerTopology result" where
  "new_RuntimePeerTopology R topology node_count allow_empty =
     (if node_count = 0
      then let default_empty_topology = (tc_kind topology = kFullMesh \<and> tc_seed topology = 0 \<and>
             tc_star_center topology = 0 \<and> tc_average_degree topology = 0 \<and>
             tc_attachment_count topology = 0 \<and> tc_edges topology = [] \<and> tc_groups topology = [] \<and>
             tc_latency_matrix_ms topology = [] \<and> tc_regions topology = [] \<and> tc_region_edges topology = []) in
        if \<not> allow_empty \<or> \<not> default_empty_topology
        then Inl (RuntimeError ''runtime topology requires at least one node'')
        else Inr \<lparr>rt_node_count = 0, rt_baseline_edges = [], rt_edges = []\<rparr>
      else bind_result (InitialEdges R topology node_count) (\<lambda>initial.
        bind_result (AssignDirectionalBands (replicate node_count {})
            (NumberedEdges (replicate node_count 0) initial)) (\<lambda>edges.
          Inr \<lparr>rt_node_count = node_count, rt_baseline_edges = edges, rt_edges = edges\<rparr>)))"

subsection \<open>Queries\<close>

definition is_edge :: "nat \<Rightarrow> nat \<Rightarrow> RuntimePeerTopologyEdge \<Rightarrow> bool" where
  "is_edge src dst edge \<longleftrightarrow> rx_from edge = src \<and> rx_to edge = dst"

definition Edge :: "RuntimePeerTopology \<Rightarrow> nat \<Rightarrow> nat \<Rightarrow> RuntimePeerTopologyEdge result" where
  "Edge topology src dst = (case find (is_edge src dst) (rt_edges topology) of
       None \<Rightarrow> Inl (RuntimeError ''runtime topology edge does not exist'')
     | Some edge \<Rightarrow> Inr edge)"

definition ActivePeerIndexes :: "RuntimePeerTopology \<Rightarrow> nat \<Rightarrow> nat list result" where
  "ActivePeerIndexes topology node_index =
     (if node_index \<ge> rt_node_count topology
      then Inl (OutOfRange ''runtime topology node index is out of range'')
      else Inr (map rx_to (filter (\<lambda>edge. rx_from edge = node_index \<and> rx_active edge) (rt_edges topology))))"

definition PhysicalPeerRequired :: "RuntimePeerTopology \<Rightarrow> nat \<Rightarrow> nat \<Rightarrow> bool result" where
  "PhysicalPeerRequired topology first second =
     (if first \<ge> rt_node_count topology \<or> second \<ge> rt_node_count topology
      then Inl (OutOfRange ''runtime topology node index is out of range'')
      else if first = second then Inr False
      else Inr (list_ex (\<lambda>edge. rx_active edge \<and>
             (is_edge first second edge \<or> is_edge second first edge)) (rt_edges topology)))"

definition PreservesPhysicalPeerRequirementsFrom ::
    "RuntimePeerTopology \<Rightarrow> RuntimePeerTopology \<Rightarrow> nat \<Rightarrow> bool result" where
  "PreservesPhysicalPeerRequirementsFrom topology previous common_node_count =
     (if common_node_count > rt_node_count topology \<or> common_node_count > rt_node_count previous
      then Inl (OutOfRange ''common runtime topology node count is out of range'')
      else Inr (list_all (\<lambda>first. list_all (\<lambda>second.
          PhysicalPeerRequired topology first second = PhysicalPeerRequired previous first second)
          [Suc first..<common_node_count]) [0..<common_node_count]))"

definition AddPolicy ::
    "asio \<Rightarrow> SimulationNetworkAddressPlan \<Rightarrow> nat \<Rightarrow> RuntimePeerTopologyEdge \<Rightarrow>
     DirectionalNetworkPolicy list \<Rightarrow> DirectionalNetworkPolicy list result" where
  "AddPolicy A address_plan node_index edge policies =
     (case rx_condition edge of
        Some condition \<Rightarrow>
          if rx_from edge = node_index \<and> rx_active edge
          then (if rx_band edge > 15
                then Inl (RuntimeError (''directional qdisc band unavailable: requested '' @
                       to_string (rx_band edge) @ '', available 15''))
                else bind_result (NodeAddress A address_plan (rx_to edge)) (\<lambda>address.
                  Inr (policies @ [\<lparr>dp_band = rx_band edge, dp_destination_address = address,
                    dp_condition = condition\<rparr>])))
          else Inr policies
      | None \<Rightarrow> Inr policies)"

definition DirectionalPolicies ::
    "asio \<Rightarrow> SimulationNetworkAddressPlan \<Rightarrow> RuntimePeerTopology \<Rightarrow> nat \<Rightarrow> DirectionalNetworkPolicy list result" where
  "DirectionalPolicies A address_plan topology node_index =
     (if node_index \<ge> rt_node_count topology
      then Inl (OutOfRange ''runtime topology node index is out of range'')
      else fold_result (AddPolicy A address_plan node_index) (rt_edges topology) [])"

subsection \<open>Changes\<close>

text \<open>Assignment through the reference that \<open>MutableEdge\<close> returns: the first edge with the
  given ends.\<close>

fun set_edge :: "RuntimePeerTopologyEdge \<Rightarrow> RuntimePeerTopologyEdge list \<Rightarrow> nat \<Rightarrow> nat \<Rightarrow> RuntimePeerTopologyEdge list" where
  "set_edge next [] src dst = []"
| "set_edge next (edge # edges) src dst =
     (if is_edge src dst edge then next # edges else edge # set_edge next edges src dst)"

definition with_edge ::
    "RuntimePeerTopology \<Rightarrow> nat \<Rightarrow> nat \<Rightarrow> (RuntimePeerTopologyEdge \<Rightarrow> RuntimePeerTopologyEdge result) \<Rightarrow>
     RuntimePeerTopology \<times> RuntimePeerTopologyEdge result" where
  "with_edge topology src dst change =
     (case Edge topology src dst of
        Inl e \<Rightarrow> (topology, Inl e)
      | Inr edge \<Rightarrow>
        case change edge of
          Inl e \<Rightarrow> (topology, Inl e)
        | Inr next \<Rightarrow> (topology\<lparr>rt_edges := set_edge next (rt_edges topology) src dst\<rparr>, Inr edge))"

definition with_band ::
    "RuntimePeerTopology \<Rightarrow> RuntimePeerTopologyEdge \<Rightarrow> RuntimePeerTopologyEdge result" where
  "with_band topology next =
     bind_result (DirectionalBandForState next (rt_edges topology)) (\<lambda>band. Inr (next\<lparr>rx_band := band\<rparr>))"

definition SetCondition ::
    "nat \<Rightarrow> nat \<Rightarrow> NetworkCondition \<Rightarrow> RuntimePeerTopology \<Rightarrow> RuntimePeerTopology \<times> RuntimePeerTopologyEdge result" where
  "SetCondition src dst condition topology =
     (case ValidateNetworkCondition condition of
        Inl e \<Rightarrow> (topology, Inl e)
      | Inr _ \<Rightarrow> with_edge topology src dst (\<lambda>edge.
          if \<not> rx_active edge
          then Inl (RuntimeError ''cannot set a condition on an inactive runtime topology edge'')
          else with_band topology (edge\<lparr>rx_condition := Some condition\<rparr>)))"

definition SetActive ::
    "nat \<Rightarrow> nat \<Rightarrow> bool \<Rightarrow> RuntimePeerTopology \<Rightarrow> RuntimePeerTopology \<times> RuntimePeerTopologyEdge result" where
  "SetActive src dst active topology = with_edge topology src dst (\<lambda>edge.
     if rx_active edge = active
     then Inl (RuntimeError (if active then ''runtime topology edge is already active''
            else ''runtime topology edge is already inactive''))
     else with_band topology (edge\<lparr>rx_active := active\<rparr>))"

definition RestoreBaseline ::
    "nat \<Rightarrow> nat \<Rightarrow> RuntimePeerTopology \<Rightarrow> RuntimePeerTopology \<times> RuntimePeerTopologyEdge result" where
  "RestoreBaseline src dst topology = with_edge topology src dst (\<lambda>_.
     case find (is_edge src dst) (rt_baseline_edges topology) of
       None \<Rightarrow> Inl (RuntimeError ''runtime topology baseline edge does not exist'')
     | Some baseline \<Rightarrow> with_band topology baseline)"

definition RestoreState ::
    "RuntimePeerTopologyEdge \<Rightarrow> RuntimePeerTopology \<Rightarrow> RuntimePeerTopology \<times> unit result" where
  "RestoreState state topology =
     map_prod id (\<lambda>r. bind_result r (\<lambda>_. Inr ()))
       (with_edge topology (rx_from state) (rx_to state) (\<lambda>_.
         bind_result (case rx_condition state of None \<Rightarrow> Inr () | Some c \<Rightarrow> ValidateNetworkCondition c) (\<lambda>_.
         bind_result (DirectionalBandForState state (rt_edges topology)) (\<lambda>band.
           if band \<noteq> rx_band state
           then Inl (RuntimeError ''runtime topology restore band is unavailable'')
           else Inr state))))"

text \<open>\<open>emplace\<close> keeps the first edge with a key.\<close>

definition carry_over ::
    "(EdgeKey \<rightharpoonup> RuntimePeerTopologyEdge) \<Rightarrow> RuntimePeerTopologyEdge \<Rightarrow> RuntimePeerTopologyEdge" where
  "carry_over previous_edges edge = (case previous_edges (rx_from edge, rx_to edge) of
       None \<Rightarrow> edge
     | Some previous \<Rightarrow> edge\<lparr>rx_active := rx_active previous, rx_condition := rx_condition previous,
         rx_band := rx_band previous\<rparr>)"

definition PreserveStateFrom ::
    "(EdgeKey \<rightharpoonup> RuntimePeerTopologyEdge) \<Rightarrow> RuntimePeerTopology \<Rightarrow> RuntimePeerTopology \<times> unit result" where
  "PreserveStateFrom previous_edges topology =
     (case AssignDirectionalBands (replicate (rt_node_count topology) {})
         (map (carry_over previous_edges) (rt_edges topology)) of
        Inl e \<Rightarrow> (topology, Inl e)
      | Inr edges \<Rightarrow> (topology\<lparr>rt_edges := edges\<rparr>, Inr ()))"

definition PreserveCommonStateFrom ::
    "RuntimePeerTopology \<Rightarrow> RuntimePeerTopology \<Rightarrow> RuntimePeerTopology \<times> unit result" where
  "PreserveCommonStateFrom previous topology =
     PreserveStateFrom (map_of (map (\<lambda>edge. ((rx_from edge, rx_to edge), edge)) (rt_edges previous))) topology"

definition RemappedEdge ::
    "nat option list \<Rightarrow> RuntimePeerTopologyEdge \<Rightarrow> (EdgeKey \<times> RuntimePeerTopologyEdge) list" where
  "RemappedEdge old_to_new edge = (case (old_to_new ! rx_from edge, old_to_new ! rx_to edge) of
       (Some src, Some dst) \<Rightarrow> [((src, dst), edge)]
     | _ \<Rightarrow> [])"

definition PreserveRemappedStateFrom ::
    "RuntimePeerTopology \<Rightarrow> nat option list \<Rightarrow> RuntimePeerTopology \<Rightarrow> RuntimePeerTopology \<times> unit result" where
  "PreserveRemappedStateFrom previous old_to_new topology =
     (if length old_to_new \<noteq> rt_node_count previous
      then (topology, Inl (InvalidArgument ''runtime topology remap size must match the previous node count''))
      else PreserveStateFrom (map_of (concat (map (RemappedEdge old_to_new) (rt_edges previous)))) topology)"

subsection \<open>Peers of a replaced node\<close>

fun IndexNodes :: "string list \<Rightarrow> nat \<Rightarrow> (string \<rightharpoonup> nat) \<Rightarrow> (string \<rightharpoonup> nat) result" where
  "IndexNodes [] index indexes = Inr indexes"
| "IndexNodes (node_id # node_ids) index indexes =
     (if node_id = [] \<or> indexes node_id \<noteq> None
      then Inl (RuntimeError
        ''runtime node replacement peer plan has an empty or duplicate node id'')
      else IndexNodes node_ids (Suc index) (indexes(node_id \<mapsto> index)))"

definition CollectActiveEdge ::
    "nat \<Rightarrow> RuntimePeerTopologyEdge \<Rightarrow> EdgeKey list \<Rightarrow> EdgeKey list result" where
  "CollectActiveEdge node_count edge edges =
     (if rx_from edge \<ge> node_count \<or> rx_to edge \<ge> node_count \<or> rx_from edge = rx_to edge
      then Inl (RuntimeError ''runtime node replacement topology edge is invalid'')
      else Inr (if rx_active edge then sset_insert (rx_from edge, rx_to edge) edges else edges))"

definition CollectAllowedPeer ::
    "(string \<rightharpoonup> nat) \<Rightarrow> nat \<Rightarrow> string \<Rightarrow> nat set \<times> EdgeKey list \<Rightarrow> (nat set \<times> EdgeKey list) result" where
  "CollectAllowedPeer indexes src peer_id state =
     (let unknown = RuntimeError
        ''runtime node replacement peer plan contains an unknown, self, or duplicate allowed peer'' in
      case indexes peer_id of
        None \<Rightarrow> Inl unknown
      | Some peer \<Rightarrow>
          if peer = src \<or> peer \<in> fst state then Inl unknown
          else Inr (insert peer (fst state), sset_insert (src, peer) (snd state)))"

definition CollectAllowedNode ::
    "(string \<rightharpoonup> nat) \<Rightarrow> string list \<Rightarrow> (string \<times> string list) list \<Rightarrow> nat \<Rightarrow> EdgeKey list \<Rightarrow> EdgeKey list result" where
  "CollectAllowedNode indexes node_ids allowed_peers src edges =
     (case map_of allowed_peers (node_ids ! src) of
        None \<Rightarrow> Inl (RuntimeError
          (''runtime node replacement peer plan is missing allowed peers for '' @ node_ids ! src))
      | Some allowed \<Rightarrow>
          bind_result (fold_result (CollectAllowedPeer indexes src) allowed ({}, edges)) (\<lambda>state. Inr (snd state)))"

text \<open>\<open>allowed_peers\<close> is the list of the entries of a \<open>std::map\<close>.\<close>

definition ResolveRuntimeNodeReplacementPeerEdges ::
    "RuntimePeerTopology \<Rightarrow> string list \<Rightarrow> (string \<times> string list) list \<Rightarrow> nat \<Rightarrow> EdgeKey list result" where
  "ResolveRuntimeNodeReplacementPeerEdges topology node_ids allowed_peers target_index =
     (if target_index \<ge> length node_ids
      then Inl (OutOfRange ''runtime node replacement target index is out of range'')
      else bind_result (IndexNodes node_ids 0 Map.empty) (\<lambda>indexes.
      if length allowed_peers \<noteq> length node_ids
      then Inl (RuntimeError ''runtime node replacement peer plan requires an exact allowed-peer map'')
      else bind_result (fold_result (CollectActiveEdge (length node_ids)) (rt_edges topology) []) (\<lambda>topology_edges.
      bind_result (fold_result (CollectAllowedNode indexes node_ids allowed_peers) [0..<length node_ids] [])
        (\<lambda>allowed_edges.
      if allowed_edges \<noteq> topology_edges
      then Inl (RuntimeError ''runtime node replacement topology and allowed-peer map disagree'')
      else Inr (filter (\<lambda>(src, dst). src = target_index \<or> dst = target_index) topology_edges)))))"

subsection \<open>Bands\<close>

definition edge_key :: "RuntimePeerTopologyEdge \<Rightarrow> EdgeKey" where
  "edge_key edge = (rx_from edge, rx_to edge)"

lemma is_edge_key: "is_edge src dst edge \<longleftrightarrow> edge_key edge = (src, dst)"
  by (simp add: is_edge_def edge_key_def)

lemma edge_key_update [simp]:
  "edge_key (edge\<lparr>rx_band := band\<rparr>) = edge_key edge"
  "edge_key (edge\<lparr>rx_active := active\<rparr>) = edge_key edge"
  "edge_key (edge\<lparr>rx_condition := condition\<rparr>) = edge_key edge"
  by (simp_all add: edge_key_def)

lemma occupies_band [simp]: "occupies (edge\<lparr>rx_band := band\<rparr>) = occupies edge"
  by (simp add: occupies_def)

lemma Allocate_preferred:
  "1 \<le> preferred \<Longrightarrow> preferred \<le> 15 \<Longrightarrow> preferred \<notin> used \<Longrightarrow> AllocateDirectionalBand preferred used = Inr preferred"
  by (simp add: AllocateDirectionalBand_def kMaximumDirectionalBands_def)

lemma Allocate_sound:
  assumes "AllocateDirectionalBand preferred used = Inr band"
  shows "1 \<le> band \<and> band \<le> 15 \<and> band \<notin> used"
proof (cases "find (\<lambda>band. band \<notin> used) [1..<Suc kMaximumDirectionalBands]")
  case None
  then show ?thesis using assms
    by (auto simp: AllocateDirectionalBand_def kMaximumDirectionalBands_def split: if_splits)
next
  case (Some b)
  then have "b \<in> set [1..<Suc kMaximumDirectionalBands]" "b \<notin> used" using find_SomeD [OF Some] by auto
  then show ?thesis using assms Some
    by (auto simp: AllocateDirectionalBand_def kMaximumDirectionalBands_def split: if_splits)
qed

lemma Allocate_total:
  assumes "1 \<le> band" "band \<le> 15" "band \<notin> used"
  shows "\<exists>b. AllocateDirectionalBand preferred used = Inr b"
proof -
  have "find (\<lambda>band. band \<notin> used) [1..<Suc kMaximumDirectionalBands] \<noteq> None"
    using assms unfolding find_None_iff kMaximumDirectionalBands_def
    by (auto intro!: exI [of _ band])
  then show ?thesis by (auto simp: AllocateDirectionalBand_def simp del: upt_Suc)
qed

text \<open>The bands taken by the other edges of a source.\<close>

definition taken :: "RuntimePeerTopologyEdge \<Rightarrow> RuntimePeerTopologyEdge set \<Rightarrow> nat set" where
  "taken state edges =
     rx_band ` {edge \<in> edges. rx_from edge = rx_from state \<and> rx_to edge \<noteq> rx_to state \<and> occupies edge}"

definition bands_ok :: "RuntimePeerTopologyEdge set \<Rightarrow> bool" where
  "bands_ok edges \<longleftrightarrow> (\<forall>edge\<in>edges. occupies edge \<longrightarrow> 1 \<le> rx_band edge \<and> rx_band edge \<le> 15) \<and>
     (\<forall>e\<in>edges. \<forall>e'\<in>edges. occupies e \<and> occupies e' \<and> rx_from e = rx_from e' \<and> rx_band e = rx_band e'
        \<longrightarrow> rx_to e = rx_to e')"

lemma MarkUsed_loop:
  assumes "\<forall>edge\<in>set edges. occupies edge \<longrightarrow> rx_band edge \<le> 15"
  shows "fold_result (MarkUsed state) edges used = Inr (taken state (set edges) \<union> used)"
  using assms
proof (induction edges arbitrary: used)
  case (Cons edge edges)
  let ?hit = "rx_from edge = rx_from state \<and> rx_to edge \<noteq> rx_to state \<and> occupies edge"
  have "taken state (set (edge # edges)) = (if ?hit then insert (rx_band edge) (taken state (set edges)) else taken state (set edges))"
    by (auto simp: taken_def)
  moreover have "MarkUsed state edge used = Inr (if ?hit then insert (rx_band edge) used else used)"
    using Cons.prems by (auto simp: MarkUsed_def kMaximumDirectionalBands_def)
  ultimately show ?case using Cons by auto
qed (simp add: taken_def)

lemma DirectionalBandForState_spec:
  assumes "bands_ok (set edges)"
  shows "DirectionalBandForState state edges =
    (if occupies state then AllocateDirectionalBand (rx_band state) (taken state (set edges)) else Inr (rx_band state))"
proof -
  have "\<forall>edge\<in>set edges. occupies edge \<longrightarrow> rx_band edge \<le> 15" using assms by (simp add: bands_ok_def)
  from MarkUsed_loop [OF this, of state "{}"] show ?thesis by (simp add: DirectionalBandForState_def)
qed

lemma bands_ok_replace:
  assumes "bands_ok edges" "occupies next \<Longrightarrow> 1 \<le> rx_band next \<and> rx_band next \<le> 15 \<and> rx_band next \<notin> taken next edges"
  shows "bands_ok (insert next {edge \<in> edges. edge_key edge \<noteq> edge_key next})"
proof -
  let ?rest = "{edge \<in> edges. edge_key edge \<noteq> edge_key next}"
  have range: "1 \<le> rx_band e \<and> rx_band e \<le> 15" if "e \<in> ?rest" "occupies e" for e
    using assms(1) that by (simp add: bands_ok_def)
  have unique: "rx_to e = rx_to e'"
    if "e \<in> ?rest" "e' \<in> ?rest" "occupies e" "occupies e'" "rx_from e = rx_from e'" "rx_band e = rx_band e'" for e e'
    using assms(1) that by (simp add: bands_ok_def)
  have ne: "rx_band e \<noteq> rx_band next" if "e \<in> ?rest" "occupies e" "occupies next" "rx_from e = rx_from next" for e
  proof -
    have "rx_band e \<in> taken next edges" using that by (auto simp: taken_def edge_key_def)
    then show ?thesis using assms(2) that(3) by metis
  qed
  show ?thesis unfolding bands_ok_def
  proof (intro conjI ballI impI)
    fix edge
    assume "edge \<in> insert next ?rest" "occupies edge"
    then show "1 \<le> rx_band edge" "rx_band edge \<le> 15" using range assms(2) by (elim insertE; simp)+
  next
    fix e e'
    assume "e \<in> insert next ?rest" "e' \<in> insert next ?rest"
      "occupies e \<and> occupies e' \<and> rx_from e = rx_from e' \<and> rx_band e = rx_band e'"
    then show "rx_to e = rx_to e'" using ne [of e] ne [of e'] unique [of e e'] by (elim insertE) auto
  qed
qed

lemma AssignDirectionalBands_spec:
  assumes "AssignDirectionalBands used edges = Inr result" "\<forall>edge\<in>set edges. rx_from edge < length used"
  shows "map (\<lambda>e. e\<lparr>rx_band := 0\<rparr>) result = map (\<lambda>e. e\<lparr>rx_band := 0\<rparr>) edges \<and>
    (\<forall>e\<in>set result. occupies e \<longrightarrow> 1 \<le> rx_band e \<and> rx_band e \<le> 15 \<and> rx_band e \<notin> used ! rx_from e) \<and>
    (\<forall>e\<in>set result. \<forall>e'\<in>set result. occupies e \<and> occupies e' \<and> rx_from e = rx_from e' \<and> rx_band e = rx_band e'
        \<longrightarrow> e = e')"
  using assms
proof (induction used edges arbitrary: result rule: AssignDirectionalBands.induct)
  case (2 used edge edges)
  show ?case
  proof (cases "occupies edge")
    case False
    then obtain rest where "AssignDirectionalBands used edges = Inr rest" "result = edge # rest"
      using "2.prems"(1) by (auto simp: result_simps)
    then show ?thesis using 2 False by auto
  next
    case True
    then obtain band rest where band: "AllocateDirectionalBand (rx_band edge) (used ! rx_from edge) = Inr band"
      and rest: "AssignDirectionalBands (used[rx_from edge := insert band (used ! rx_from edge)]) edges = Inr rest"
      and r: "result = edge\<lparr>rx_band := band\<rparr> # rest"
      using "2.prems"(1) by (auto simp: result_simps)
    let ?used = "used[rx_from edge := insert band (used ! rx_from edge)]"
    have IH: "map (\<lambda>e. e\<lparr>rx_band := 0\<rparr>) rest = map (\<lambda>e. e\<lparr>rx_band := 0\<rparr>) edges"
      "\<forall>e\<in>set rest. occupies e \<longrightarrow> 1 \<le> rx_band e \<and> rx_band e \<le> 15 \<and> rx_band e \<notin> ?used ! rx_from e"
      "\<forall>e\<in>set rest. \<forall>e'\<in>set rest. occupies e \<and> occupies e' \<and> rx_from e = rx_from e' \<and> rx_band e = rx_band e' \<longrightarrow> e = e'"
      using "2.IH"(1) [OF True rest] "2.prems"(2) by simp_all
    have fresh: "rx_band e \<noteq> band" if "e \<in> set rest" "occupies e" "rx_from e = rx_from edge" for e
      using IH(2) that "2.prems"(2) by auto
    have used: "used ! i \<subseteq> ?used ! i" for i
      using "2.prems"(2) by (cases "i = rx_from edge") auto
    have "1 \<le> band \<and> band \<le> 15 \<and> band \<notin> used ! rx_from edge" using Allocate_sound [OF band] .
    then have "\<forall>e\<in>set result. occupies e \<longrightarrow> 1 \<le> rx_band e \<and> rx_band e \<le> 15 \<and> rx_band e \<notin> used ! rx_from e"
      using IH(2) used unfolding r by fastforce
    moreover have "\<forall>e\<in>set result. \<forall>e'\<in>set result. occupies e \<and> occupies e' \<and> rx_from e = rx_from e' \<and> rx_band e = rx_band e' \<longrightarrow> e = e'"
      unfolding r using IH(3) by (auto dest: fresh)
    ultimately show ?thesis using IH(1) unfolding r by simp
  qed
qed simp

subsection \<open>The invariant\<close>

definition condition_ok :: "RuntimePeerTopologyEdge \<Rightarrow> bool" where
  "condition_ok edge \<longleftrightarrow> (case rx_condition edge of None \<Rightarrow> True | Some c \<Rightarrow> ValidateNetworkCondition c = Inr ())"

definition edge_ok :: "nat \<Rightarrow> RuntimePeerTopologyEdge \<Rightarrow> bool" where
  "edge_ok n edge \<longleftrightarrow> rx_from edge < n \<and> rx_to edge < n \<and> rx_from edge \<noteq> rx_to edge \<and> condition_ok edge"

definition edges_ok :: "nat \<Rightarrow> RuntimePeerTopologyEdge list \<Rightarrow> bool" where
  "edges_ok n edges \<longleftrightarrow> sorted_wrt (<) (map edge_key edges) \<and> list_all (edge_ok n) edges \<and> bands_ok (set edges)"

definition wf_runtime :: "RuntimePeerTopology \<Rightarrow> bool" where
  "wf_runtime topology \<longleftrightarrow> edges_ok (rt_node_count topology) (rt_edges topology) \<and>
     edges_ok (rt_node_count topology) (rt_baseline_edges topology) \<and>
     map edge_key (rt_baseline_edges topology) = map edge_key (rt_edges topology)"

lemma sorted_keys_distinct_edges: "sorted_wrt (<) (map edge_key edges) \<Longrightarrow> distinct (map edge_key edges)"
  by (induction edges) auto

lemma edge_with_key_unique:
  "distinct (map edge_key edges) \<Longrightarrow> e \<in> set edges \<Longrightarrow> e' \<in> set edges \<Longrightarrow> edge_key e = edge_key e' \<Longrightarrow> e = e'"
  by (meson distinct_map inj_onD)

lemma map_key_set_edge [simp]:
  "edge_key repl = (src, dst) \<Longrightarrow> map edge_key (set_edge repl edges src dst) = map edge_key edges"
  by (induction repl edges src dst rule: set_edge.induct) (auto simp: is_edge_key)

lemma set_set_edge:
  assumes "distinct (map edge_key edges)" "edge \<in> set edges" "edge_key edge = (src, dst)"
  shows "set (set_edge repl edges src dst) = insert repl {e \<in> set edges. edge_key e \<noteq> (src, dst)}"
  using assms
proof (induction edges)
  case (Cons e edges)
  show ?case
  proof (cases "is_edge src dst e")
    case True
    then have "edge_key e' \<noteq> (src, dst)" if "e' \<in> set edges" for e'
      using Cons.prems(1) that by (auto simp: is_edge_key image_iff)
    then show ?thesis using True by (auto simp: is_edge_key)
  next
    case False
    then show ?thesis using Cons by (auto simp: is_edge_key)
  qed
qed simp

lemma set_edge_same:
  assumes "distinct (map edge_key edges)" "edge \<in> set edges" "edge_key edge = (src, dst)"
    and "edge_key repl = (src, dst)"
  shows "set_edge edge (set_edge repl edges src dst) src dst = edges"
  using assms
proof (induction edges)
  case (Cons e edges)
  then show ?case
    by (cases "is_edge src dst e") (auto simp: is_edge_key intro: rev_image_eqI)
qed simp

lemma Edge_Inr:
  assumes "Edge topology src dst = Inr edge"
  shows "edge \<in> set (rt_edges topology) \<and> edge_key edge = (src, dst)"
  using assms find_SomeD [of "is_edge src dst" "rt_edges topology"]
  by (auto simp: Edge_def is_edge_key split: option.splits)

lemma Edge_exists: "edge_key edge = (src, dst) \<Longrightarrow> edge \<in> set (rt_edges topology) \<Longrightarrow> \<exists>e. Edge topology src dst = Inr e"
  by (cases "find (is_edge src dst) (rt_edges topology)") (auto simp: Edge_def find_None_iff is_edge_key)

text \<open>What a change may put in the place of an edge.\<close>

definition placeable :: "RuntimePeerTopology \<Rightarrow> nat \<Rightarrow> nat \<Rightarrow> RuntimePeerTopologyEdge \<Rightarrow> bool" where
  "placeable topology src dst repl \<longleftrightarrow> edge_key repl = (src, dst) \<and> condition_ok repl \<and>
     (occupies repl \<longrightarrow> 1 \<le> rx_band repl \<and> rx_band repl \<le> 15 \<and> rx_band repl \<notin> taken repl (set (rt_edges topology)))"

lemma edges_ok_set_edge:
  assumes wf: "edges_ok n (rt_edges topology)" and edge: "Edge topology src dst = Inr edge"
    and p: "placeable topology src dst repl"
  shows "edges_ok n (set_edge repl (rt_edges topology) src dst)"
proof -
  note E = Edge_Inr [OF edge]
  have d: "distinct (map edge_key (rt_edges topology))"
    using wf sorted_keys_distinct_edges by (auto simp: edges_ok_def)
  have key: "edge_key repl = (src, dst)" using p by (simp add: placeable_def)
  have s: "set (set_edge repl (rt_edges topology) src dst)
      = insert repl {e \<in> set (rt_edges topology). edge_key e \<noteq> edge_key repl}"
    using set_set_edge [OF d] E key by auto
  have "edge_ok n edge" using wf E by (auto simp: edges_ok_def list_all_iff)
  then have "edge_ok n repl" using E p by (auto simp: edge_ok_def placeable_def edge_key_def)
  then have "list_all (edge_ok n) (set_edge repl (rt_edges topology) src dst)"
    using wf s by (auto simp: edges_ok_def list_all_iff)
  moreover have "bands_ok (set (set_edge repl (rt_edges topology) src dst))"
    unfolding s using wf p by (intro bands_ok_replace) (auto simp: edges_ok_def placeable_def)
  ultimately show ?thesis using wf key by (simp add: edges_ok_def)
qed

lemma with_edge_wf:
  assumes wf: "wf_runtime topology" and r: "with_edge topology src dst change = (topology', r)"
    and p: "\<And>edge repl. Edge topology src dst = Inr edge \<Longrightarrow> change edge = Inr repl \<Longrightarrow> placeable topology src dst repl"
  shows "wf_runtime topology'"
proof (cases "Edge topology src dst")
  case (Inl e)
  then show ?thesis using r wf by (simp add: with_edge_def)
next
  case (Inr edge)
  show ?thesis
  proof (cases "change edge")
    case (Inl e)
    then show ?thesis using r wf \<open>Edge topology src dst = Inr edge\<close> by (simp add: with_edge_def)
  next
    case (Inr repl)
    note e = \<open>Edge topology src dst = Inr edge\<close>
    have t': "topology' = topology\<lparr>rt_edges := set_edge repl (rt_edges topology) src dst\<rparr>"
      using r e Inr by (simp add: with_edge_def)
    have pl: "placeable topology src dst repl" using p e Inr by blast
    then have "edge_key repl = (src, dst)" by (simp add: placeable_def)
    then show ?thesis
      using wf edges_ok_set_edge [OF _ e pl, of "rt_node_count topology"] unfolding t' by (simp add: wf_runtime_def)
  qed
qed

lemma taken_band [simp]: "taken (edge\<lparr>rx_band := band\<rparr>) edges = taken edge edges"
  by (simp add: taken_def)

lemma with_band_placeable:
  assumes wf: "wf_runtime topology" and n: "with_band topology repl = Inr repl'"
    and k: "edge_key repl = (src, dst)" "condition_ok repl"
  shows "placeable topology src dst repl'"
proof -
  have b: "bands_ok (set (rt_edges topology))" using wf by (simp add: wf_runtime_def edges_ok_def)
  obtain band where "DirectionalBandForState repl (rt_edges topology) = Inr band" "repl' = repl\<lparr>rx_band := band\<rparr>"
    using n by (auto simp: with_band_def result_simps)
  then show ?thesis
    using k Allocate_sound unfolding DirectionalBandForState_spec [OF b]
    by (auto simp: placeable_def condition_ok_def split: if_splits)
qed

lemma RestoreState_placeable:
  assumes wf: "wf_runtime topology"
    and "bind_result (case rx_condition state of None \<Rightarrow> Inr () | Some c \<Rightarrow> ValidateNetworkCondition c) (\<lambda>_.
         bind_result (DirectionalBandForState state (rt_edges topology)) (\<lambda>band.
           if band \<noteq> rx_band state
           then Inl (RuntimeError ''runtime topology restore band is unavailable'')
           else Inr state)) = Inr repl"
  shows "placeable topology (rx_from state) (rx_to state) repl"
proof -
  have b: "bands_ok (set (rt_edges topology))" using wf by (simp add: wf_runtime_def edges_ok_def)
  show ?thesis
    using assms(2) Allocate_sound unfolding DirectionalBandForState_spec [OF b]
    by (auto simp: placeable_def condition_ok_def edge_key_def result_simps split: if_splits option.splits)
qed

subsection \<open>Every change keeps the invariant\<close>

datatype topology_op =
    SetConditionOp nat nat NetworkCondition
  | SetActiveOp nat nat bool
  | RestoreBaselineOp nat nat
  | RestoreStateOp RuntimePeerTopologyEdge

fun topology_exec :: "RuntimePeerTopology \<Rightarrow> topology_op \<Rightarrow> RuntimePeerTopology \<times> bool" where
  "topology_exec topology (SetConditionOp src dst condition) = map_prod id ok (SetCondition src dst condition topology)"
| "topology_exec topology (SetActiveOp src dst active) = map_prod id ok (SetActive src dst active topology)"
| "topology_exec topology (RestoreBaselineOp src dst) = map_prod id ok (RestoreBaseline src dst topology)"
| "topology_exec topology (RestoreStateOp state) = map_prod id ok (RestoreState state topology)"

lemma wf_edge_condition: "wf_runtime topology \<Longrightarrow> edge \<in> set (rt_edges topology) \<Longrightarrow> condition_ok edge"
  by (auto simp: wf_runtime_def edges_ok_def edge_ok_def list_all_iff)

lemma SetCondition_placeable:
  assumes "wf_runtime topology" "ValidateNetworkCondition condition = Inr ()" "Edge topology src dst = Inr edge"
    and "(if \<not> rx_active edge
      then Inl (RuntimeError ''cannot set a condition on an inactive runtime topology edge'')
      else with_band topology (edge\<lparr>rx_condition := Some condition\<rparr>)) = Inr repl"
  shows "placeable topology src dst repl"
  using assms Edge_Inr [OF assms(3)]
  by (auto split: if_splits simp: condition_ok_def intro!: with_band_placeable)

lemma SetActive_placeable:
  assumes "wf_runtime topology" "Edge topology src dst = Inr edge"
    and "(if rx_active edge = active
     then Inl (RuntimeError (if active then ''runtime topology edge is already active''
            else ''runtime topology edge is already inactive''))
     else with_band topology (edge\<lparr>rx_active := active\<rparr>)) = Inr repl"
  shows "placeable topology src dst repl"
  using assms Edge_Inr [OF assms(2)] wf_edge_condition [OF assms(1), of edge]
  by (auto split: if_splits simp: condition_ok_def intro!: with_band_placeable)

lemma baseline_placeable:
  assumes "wf_runtime topology"
    and "(case find (is_edge src dst) (rt_baseline_edges topology) of
      None \<Rightarrow> Inl (RuntimeError ''runtime topology baseline edge does not exist'')
    | Some baseline \<Rightarrow> with_band topology baseline) = Inr repl"
  shows "placeable topology src dst repl"
proof -
  obtain baseline where b: "find (is_edge src dst) (rt_baseline_edges topology) = Some baseline"
    "with_band topology baseline = Inr repl"
    using assms(2) by (auto split: option.splits)
  have "edge_key baseline = (src, dst)" "condition_ok baseline"
    using find_SomeD [OF b(1)] assms(1)
    by (auto simp: is_edge_key wf_runtime_def edges_ok_def edge_ok_def list_all_iff)
  with b(2) show ?thesis by (rule with_band_placeable [OF assms(1)])
qed

lemma SetCondition_valid:
  "SetCondition src dst condition topology = (topology', r) \<Longrightarrow> topology' = topology \<and> \<not> ok r \<or>
     ValidateNetworkCondition condition = Inr () \<and> with_edge topology src dst (\<lambda>edge. if \<not> rx_active edge
       then Inl (RuntimeError ''cannot set a condition on an inactive runtime topology edge'')
       else with_band topology (edge\<lparr>rx_condition := Some condition\<rparr>)) = (topology', r)"
  by (auto simp: SetCondition_def split: sum.splits)

lemma SetCondition_wf:
  assumes "wf_runtime topology" "SetCondition src dst condition topology = (topology', r)"
  shows "wf_runtime topology'"
  using SetCondition_valid [OF assms(2)]
proof (elim disjE conjE)
  assume v: "ValidateNetworkCondition condition = Inr ()"
    and r: "with_edge topology src dst (\<lambda>edge. if \<not> rx_active edge
      then Inl (RuntimeError ''cannot set a condition on an inactive runtime topology edge'')
      else with_band topology (edge\<lparr>rx_condition := Some condition\<rparr>)) = (topology', r)"
  show ?thesis by (rule with_edge_wf [OF assms(1) r]) (rule SetCondition_placeable [OF assms(1) v])
qed (use assms(1) in simp)

lemma SetActive_wf:
  assumes "wf_runtime topology" "SetActive src dst active topology = (topology', r)"
  shows "wf_runtime topology'"
  using assms(2) unfolding SetActive_def
  by (rule with_edge_wf [OF assms(1)]) (rule SetActive_placeable [OF assms(1)])

lemma RestoreBaseline_wf:
  assumes "wf_runtime topology" "RestoreBaseline src dst topology = (topology', r)"
  shows "wf_runtime topology'"
  using assms(2) unfolding RestoreBaseline_def
  by (rule with_edge_wf [OF assms(1)]) (rule baseline_placeable [OF assms(1)])

lemma RestoreState_wf:
  assumes "wf_runtime topology" "RestoreState state topology = (topology', r)"
  shows "wf_runtime topology'"
proof -
  obtain r' where "with_edge topology (rx_from state) (rx_to state) (\<lambda>_.
         bind_result (case rx_condition state of None \<Rightarrow> Inr () | Some c \<Rightarrow> ValidateNetworkCondition c) (\<lambda>_.
         bind_result (DirectionalBandForState state (rt_edges topology)) (\<lambda>band.
           if band \<noteq> rx_band state
           then Inl (RuntimeError ''runtime topology restore band is unavailable'')
           else Inr state))) = (topology', r')"
    using assms(2) unfolding RestoreState_def by (cases "with_edge topology (rx_from state) (rx_to state) (\<lambda>_.
         bind_result (case rx_condition state of None \<Rightarrow> Inr () | Some c \<Rightarrow> ValidateNetworkCondition c) (\<lambda>_.
         bind_result (DirectionalBandForState state (rt_edges topology)) (\<lambda>band.
           if band \<noteq> rx_band state
           then Inl (RuntimeError ''runtime topology restore band is unavailable'')
           else Inr state)))") auto
  then show ?thesis by (rule with_edge_wf [OF assms(1)]) (rule RestoreState_placeable [OF assms(1)])
qed

interpretation topology_object: guarded_object topology_exec wf_runtime
proof
  fix topology :: RuntimePeerTopology and op
  assume "wf_runtime topology"
  then show "wf_runtime (fst (topology_exec topology op))"
    by (cases op)
      (simp_all add: SetCondition_wf [OF _ prod.collapse [symmetric]] SetActive_wf [OF _ prod.collapse [symmetric]]
        RestoreBaseline_wf [OF _ prod.collapse [symmetric]] RestoreState_wf [OF _ prod.collapse [symmetric]])
qed

lemma same_but_bands:
  assumes "map (\<lambda>e. e\<lparr>rx_band := 0\<rparr>) result = map (\<lambda>e. e\<lparr>rx_band := 0\<rparr>) edges"
  shows "map edge_key result = map edge_key edges" "list_all (edge_ok n) result = list_all (edge_ok n) edges"
    "map rx_active result = map rx_active edges" "map rx_condition result = map rx_condition edges"
proof -
  have f: "map f result = map f edges" if "\<And>e. f (e\<lparr>rx_band := 0\<rparr>) = f e" for f :: "RuntimePeerTopologyEdge \<Rightarrow> 'c"
    using arg_cong [OF assms, of "map f"] that by (simp add: comp_def)
  show "map edge_key result = map edge_key edges" "map rx_active result = map rx_active edges"
    "map rx_condition result = map rx_condition edges"
    by (rule f; simp)+
  have "map (edge_ok n) result = map (edge_ok n) edges"
    by (rule f) (simp add: edge_ok_def condition_ok_def)
  then have "list_all id (map (edge_ok n) result) = list_all id (map (edge_ok n) edges)" by (rule arg_cong)
  then show "list_all (edge_ok n) result = list_all (edge_ok n) edges" by (simp add: list.pred_map)
qed

lemma assigned_edges_ok:
  assumes "AssignDirectionalBands (replicate n {}) edges = Inr result"
    and "sorted_wrt (<) (map edge_key edges)" "list_all (edge_ok n) edges"
  shows "edges_ok n result" "map edge_key result = map edge_key edges"
    "map rx_active result = map rx_active edges" "map rx_condition result = map rx_condition edges"
proof -
  have "\<forall>edge\<in>set edges. rx_from edge < length (replicate n {})"
    using assms(3) by (auto simp: list_all_iff edge_ok_def)
  note S = AssignDirectionalBands_spec [OF assms(1) this]
  note same = same_but_bands [OF conjunct1 [OF S]]
  show "map edge_key result = map edge_key edges"
    "map rx_active result = map rx_active edges" "map rx_condition result = map rx_condition edges"
    using same by auto
  have "bands_ok (set result)" using S by (auto simp: bands_ok_def)
  then show "edges_ok n result" using same assms(2,3) by (simp add: edges_ok_def)
qed

lemma PreserveStateFrom_wf:
  assumes wf: "wf_runtime topology" and prev: "\<And>key e. previous_edges key = Some e \<Longrightarrow> condition_ok e"
    and r: "PreserveStateFrom previous_edges topology = (topology', r)"
  shows "wf_runtime topology' \<and> (r = Inr () \<longrightarrow>
    map edge_key (rt_edges topology') = map edge_key (rt_edges topology) \<and>
    map rx_active (rt_edges topology') = map (\<lambda>e. rx_active (carry_over previous_edges e)) (rt_edges topology) \<and>
    map rx_condition (rt_edges topology') = map (\<lambda>e. rx_condition (carry_over previous_edges e)) (rt_edges topology))"
proof (cases "AssignDirectionalBands (replicate (rt_node_count topology) {}) (map (carry_over previous_edges) (rt_edges topology))")
  case (Inl e)
  then show ?thesis using wf r by (auto simp: PreserveStateFrom_def)
next
  case (Inr edges)
  let ?next = "map (carry_over previous_edges) (rt_edges topology)"
  have key: "edge_key (carry_over previous_edges e) = edge_key e" for e
    by (simp add: carry_over_def edge_key_def split: option.splits)
  then have keys: "map edge_key ?next = map edge_key (rt_edges topology)" by simp
  have cond: "edge_ok n e \<Longrightarrow> edge_ok n (carry_over previous_edges e)" for n e
    using prev [of "(rx_from e, rx_to e)"]
    by (auto simp: carry_over_def edge_ok_def condition_ok_def split: option.splits)
  have ok: "sorted_wrt (<) (map edge_key ?next)" "list_all (edge_ok (rt_node_count topology)) ?next"
    unfolding keys using wf cond by (auto simp: wf_runtime_def edges_ok_def list_all_iff)
  have t': "topology' = topology\<lparr>rt_edges := edges\<rparr>" "r = Inr ()"
    using Inr r by (auto simp: PreserveStateFrom_def)
  show ?thesis
    using assigned_edges_ok [OF Inr ok] wf keys unfolding t' by (simp add: wf_runtime_def comp_def)
qed

lemma wf_runtime_conditions:
  "wf_runtime previous \<Longrightarrow> e \<in> set (rt_edges previous) \<Longrightarrow> condition_ok e"
  by (auto simp: wf_runtime_def edges_ok_def edge_ok_def list_all_iff)

lemma PreserveRemappedStateFrom_wf:
  assumes "wf_runtime topology" "wf_runtime previous"
    and "PreserveRemappedStateFrom previous old_to_new topology = (topology', r)"
  shows "wf_runtime topology'"
proof (cases "length old_to_new = rt_node_count previous")
  case True
  have prev: "condition_ok e" if "map_of (concat (map (RemappedEdge old_to_new) (rt_edges previous))) key = Some e" for key e
    using map_of_SomeD [OF that] wf_runtime_conditions [OF assms(2)]
    by (auto simp: RemappedEdge_def split: option.splits)
  have "PreserveStateFrom (map_of (concat (map (RemappedEdge old_to_new) (rt_edges previous)))) topology = (topology', r)"
    using assms(3) True by (simp add: PreserveRemappedStateFrom_def)
  from PreserveStateFrom_wf [OF assms(1) prev this] show ?thesis by simp
qed (use assms in \<open>simp add: PreserveRemappedStateFrom_def\<close>)

lemma PreserveCommonStateFrom_wf:
  assumes "wf_runtime topology" "wf_runtime previous"
    and "PreserveCommonStateFrom previous topology = (topology', r)"
  shows "wf_runtime topology'"
proof -
  have prev: "condition_ok e"
    if "map_of (map (\<lambda>edge. ((rx_from edge, rx_to edge), edge)) (rt_edges previous)) key = Some e" for key e
    using map_of_SomeD [OF that] wf_runtime_conditions [OF assms(2)] by auto
  show ?thesis
    using PreserveStateFrom_wf [OF assms(1) prev assms(3) [unfolded PreserveCommonStateFrom_def]] by simp
qed

subsection \<open>Construction\<close>

definition initial_ok :: "nat \<Rightarrow> initial_edges \<Rightarrow> bool" where
  "initial_ok n edges \<longleftrightarrow> sorted_keys edges \<and>
     (\<forall>(key, state)\<in>set edges. ok (ValidateInitialEdge (fst key) (snd key) n state))"

lemma AddInitialEdge_ok:
  assumes "initial_ok n edges" "AddInitialEdge n src dst state edges = Inr edges'"
  shows "initial_ok n edges'"
proof -
  have v: "ok (ValidateInitialEdge src dst n state)"
    using assms(2) by (auto simp: AddInitialEdge_def result_simps ok_iff)
  show ?thesis
  proof (cases "map_of edges (src, dst)")
    case None
    then have e: "edges' = smap_insert (src, dst) state edges"
      using assms(2) by (auto simp: AddInitialEdge_def result_simps)
    then show ?thesis
      using assms(1) v set_smap_insert [of "(src, dst)" state edges] unfolding initial_ok_def
      by (auto simp: sorted_keys_smap_insert)
  next
    case (Some present)
    then show ?thesis using assms by (auto simp: AddInitialEdge_def result_simps split: if_splits)
  qed
qed

lemma AddInitialPair_ok:
  assumes "initial_ok n edges" "AddInitialPair n src dst both state edges = Inr edges'"
  shows "initial_ok n edges'"
  using assms AddInitialEdge_ok unfolding AddInitialPair_def bind_result_Inr
  by (metis (full_types) Inr_inject)

lemma InitialEdges_ok:
  assumes "InitialEdges R topology n = Inr edges"
  shows "initial_ok n edges"
proof -
  have empty: "initial_ok n []" by (simp add: initial_ok_def)
  have region: "initial_ok n edges'"
    if "AddInactiveRegionEdges topology n edges = Inr edges'" "initial_ok n edges" for edges edges'
  proof (cases "tc_kind topology = kInternetLikeRegionGraph \<and> tc_region_edges topology \<noteq> []")
    case True
    then have "fold_result (AddInactiveRegionEdge topology n) (tc_region_edges topology) edges = Inr edges'"
      using that(1) by (simp add: AddInactiveRegionEdges_def)
    then show ?thesis
      by (rule fold_result_invariant [where P = "initial_ok n"])
        (use that(2) AddInitialPair_ok in \<open>auto simp: AddInactiveRegionEdge_def split: if_splits\<close>)
  next
    case False
    then show ?thesis using that unfolding AddInactiveRegionEdges_def by (metis Inr_inject)
  qed
  show ?thesis
  proof (cases "tc_kind topology = kCustomEdgeList")
    case True
    then have "fold_result (AddConfigured n) (tc_edges topology) [] = Inr edges"
      using assms by (simp add: InitialEdges_def)
    then show ?thesis
      by (rule fold_result_invariant [where P = "initial_ok n"])
        (use empty AddInitialPair_ok in \<open>auto simp: AddConfigured_def\<close>)
  next
    case False
    then obtain resolved edges1 where e1: "fold_result (AddResolved n) resolved [] = Inr edges1"
      and e2: "AddInactiveRegionEdges topology n edges1 = Inr edges"
      using assms by (auto simp: InitialEdges_def result_simps)
    have "initial_ok n edges1"
      by (rule fold_result_invariant [OF e1, where P = "initial_ok n"])
        (use empty AddInitialEdge_ok in \<open>auto simp: AddResolved_def\<close>)
    then show ?thesis using region e2 by blast
  qed
qed

lemma NumberedEdges_keys:
  "map edge_key (NumberedEdges next_band edges) = map fst edges"
  "map rx_active (NumberedEdges next_band edges) = map (ie_active \<circ> snd) edges"
  "map rx_condition (NumberedEdges next_band edges) = map (ie_condition \<circ> snd) edges"
  by (induction next_band edges rule: NumberedEdges.induct) (auto simp: Let_def edge_key_def)

lemma NumberedEdges_ok:
  "\<forall>(key, state)\<in>set edges. ok (ValidateInitialEdge (fst key) (snd key) n state) \<Longrightarrow>
    list_all (edge_ok n) (NumberedEdges next_band edges)"
  by (induction next_band edges rule: NumberedEdges.induct)
    (auto simp: Let_def edge_ok_def condition_ok_def ValidateInitialEdge_def ok_iff result_simps
      split: if_splits option.splits)

lemma new_RuntimePeerTopology_wf:
  assumes "new_RuntimePeerTopology R topology n allow_empty = Inr t"
  shows "wf_runtime t \<and> rt_node_count t = n \<and> rt_baseline_edges t = rt_edges t"
proof (cases "n = 0")
  case True
  then have "t = \<lparr>rt_node_count = 0, rt_baseline_edges = [], rt_edges = []\<rparr>"
    using assms by (simp add: new_RuntimePeerTopology_def Let_def split: if_splits)
  then show ?thesis using True by (simp add: wf_runtime_def edges_ok_def bands_ok_def)
next
  case False
  then obtain initial edges where i: "InitialEdges R topology n = Inr initial"
    and e: "AssignDirectionalBands (replicate n {}) (NumberedEdges (replicate n 0) initial) = Inr edges"
    and t: "t = \<lparr>rt_node_count = n, rt_baseline_edges = edges, rt_edges = edges\<rparr>"
    using assms by (auto simp: new_RuntimePeerTopology_def result_simps)
  have "initial_ok n initial" using i by (rule InitialEdges_ok)
  then have "sorted_wrt (<) (map edge_key (NumberedEdges (replicate n 0) initial))"
    "list_all (edge_ok n) (NumberedEdges (replicate n 0) initial)"
    using NumberedEdges_ok by (auto simp: initial_ok_def sorted_keys_def NumberedEdges_keys(1))
  from assigned_edges_ok(1) [OF e this] show ?thesis unfolding t by (simp add: wf_runtime_def)
qed

text \<open>C20. A topology that construction yields stays well formed under every sequence of
  condition changes, activations, restores of the baseline and restores of a state, failed
  calls included: its edges are sorted and unique, join two different existing nodes, carry
  valid conditions, and the active edges with a condition that leave a node own different
  bands between 1 and 15.\<close>

theorem runtime_topology_invariant:
  assumes "new_RuntimePeerTopology R config n allow_empty = Inr topology"
  shows "wf_runtime (fst (run topology_exec topology ops))"
  using new_RuntimePeerTopology_wf [OF assms] topology_object.run_inv by blast

subsection \<open>Undoing a change\<close>

lemma taken_other_edges:
  assumes "distinct (map edge_key edges)" "edge \<in> set edges" "edge_key edge = (src, dst)"
    "edge_key state = (src, dst)" "edge_key repl = (src, dst)"
  shows "taken state (set (set_edge repl edges src dst)) = taken state (set edges)"
proof -
  have ends: "rx_from state = src" "rx_to state = dst" "rx_from repl = src" "rx_to repl = dst"
    using assms(4,5) by (simp_all add: edge_key_def)
  have "{e \<in> insert repl {e \<in> set edges. edge_key e \<noteq> (src, dst)}. rx_from e = src \<and> rx_to e \<noteq> dst \<and> occupies e}
      = {e \<in> set edges. rx_from e = src \<and> rx_to e \<noteq> dst \<and> occupies e}"
    using ends(3,4) unfolding edge_key_def by blast
  then show ?thesis unfolding set_set_edge [OF assms(1-3)] taken_def ends by (rule arg_cong)
qed

lemma bands_ok_range: "bands_ok edges \<Longrightarrow> e \<in> edges \<Longrightarrow> occupies e \<Longrightarrow> 1 \<le> rx_band e \<and> rx_band e \<le> 15"
  unfolding bands_ok_def by blast

lemma bands_ok_unique:
  assumes "bands_ok edges" "e \<in> edges" "e' \<in> edges" "occupies e" "occupies e'"
    "rx_from e = rx_from e'" "rx_band e = rx_band e'"
  shows "rx_to e = rx_to e'"
  using assms(1) [unfolded bands_ok_def, THEN conjunct2, rule_format, OF assms(2,3)] assms(4-7) by blast

lemma own_band_free:
  assumes "bands_ok edges" "edge \<in> edges" "occupies edge"
  shows "1 \<le> rx_band edge \<and> rx_band edge \<le> 15 \<and> rx_band edge \<notin> taken edge edges"
proof -
  have "rx_band edge \<notin> taken edge edges"
    using bands_ok_unique [OF assms(1) _ assms(2) _ assms(3)] by (force simp: taken_def)
  then show ?thesis using bands_ok_range [OF assms] by simp
qed

lemma with_edge_undo:
  assumes wf: "wf_runtime topology" and r: "with_edge topology src dst change = (topology', Inr previous)"
    and p: "\<And>edge repl. Edge topology src dst = Inr edge \<Longrightarrow> change edge = Inr repl \<Longrightarrow> placeable topology src dst repl"
  shows "RestoreState previous topology' = (topology, Inr ())"
proof -
  let ?edges = "rt_edges topology"
  obtain repl where e: "Edge topology src dst = Inr previous" and c: "change previous = Inr repl"
    and t': "topology' = topology\<lparr>rt_edges := set_edge repl ?edges src dst\<rparr>"
    using r by (auto simp: with_edge_def split: sum.splits)
  note E = Edge_Inr [OF e]
  have key: "edge_key repl = (src, dst)" using p [OF e c] by (simp add: placeable_def)
  have d: "distinct (map edge_key ?edges)"
    using wf sorted_keys_distinct_edges by (auto simp: wf_runtime_def edges_ok_def)
  have wf': "wf_runtime topology'" by (rule with_edge_wf [OF wf r]) (rule p)
  have b: "bands_ok (set ?edges)" "bands_ok (set (rt_edges topology'))"
    using wf wf' by (auto simp: wf_runtime_def edges_ok_def)
  have "repl \<in> set (rt_edges topology')" unfolding t' using set_set_edge [OF d] E by auto
  then obtain e' where e': "Edge topology' src dst = Inr e'" using Edge_exists key by blast
  have "DirectionalBandForState previous (rt_edges topology') = Inr (rx_band previous)"
    unfolding DirectionalBandForState_spec [OF b(2)]
    using own_band_free [OF b(1)] E taken_other_edges [OF d, of previous src dst previous repl] key
    by (auto simp: t' intro!: Allocate_preferred)
  moreover have "(case rx_condition previous of None \<Rightarrow> Inr () | Some c \<Rightarrow> ValidateNetworkCondition c) = Inr ()"
    using wf_edge_condition [OF wf conjunct1 [OF E]] by (simp add: condition_ok_def split: option.splits)
  moreover have "rx_from previous = src" "rx_to previous = dst" using E by (auto simp: edge_key_def)
  moreover have "topology'\<lparr>rt_edges := set_edge previous (rt_edges topology') src dst\<rparr> = topology"
    unfolding t' using set_edge_same [OF d] E key by simp
  ultimately show ?thesis using e' by (simp add: RestoreState_def with_edge_def)
qed

text \<open>C21. Every change can be undone: restoring the state that \<open>SetCondition\<close>, \<open>SetActive\<close> or
  \<open>RestoreBaseline\<close> returned gives back exactly the topology before the call.\<close>

theorem change_then_restore:
  assumes "wf_runtime topology"
    and "SetCondition src dst condition topology = (topology', Inr previous) \<or>
      SetActive src dst active topology = (topology', Inr previous) \<or>
      RestoreBaseline src dst topology = (topology', Inr previous)"
  shows "RestoreState previous topology' = (topology, Inr ())"
  using assms(2)
proof (elim disjE)
  assume "SetCondition src dst condition topology = (topology', Inr previous)"
  from SetCondition_valid [OF this] have v: "ValidateNetworkCondition condition = Inr ()"
    and r: "with_edge topology src dst (\<lambda>edge. if \<not> rx_active edge
      then Inl (RuntimeError ''cannot set a condition on an inactive runtime topology edge'')
      else with_band topology (edge\<lparr>rx_condition := Some condition\<rparr>)) = (topology', Inr previous)"
    by simp_all
  show ?thesis by (rule with_edge_undo [OF assms(1) r]) (rule SetCondition_placeable [OF assms(1) v])
next
  assume "SetActive src dst active topology = (topology', Inr previous)"
  then show ?thesis unfolding SetActive_def
    by (rule with_edge_undo [OF assms(1)]) (rule SetActive_placeable [OF assms(1)])
next
  assume "RestoreBaseline src dst topology = (topology', Inr previous)"
  then show ?thesis unfolding RestoreBaseline_def
    by (rule with_edge_undo [OF assms(1)]) (rule baseline_placeable [OF assms(1)])
qed

subsection \<open>Policies for the kernel\<close>

definition policy_of :: "(nat \<Rightarrow> string) \<Rightarrow> RuntimePeerTopologyEdge \<Rightarrow> DirectionalNetworkPolicy" where
  "policy_of address edge = \<lparr>dp_band = rx_band edge, dp_destination_address = address (rx_to edge),
     dp_condition = the (rx_condition edge)\<rparr>"

lemma AddPolicy_loop:
  assumes "\<And>edge. edge \<in> set edges \<Longrightarrow> occupies edge \<Longrightarrow> rx_band edge \<le> 15"
    and "\<And>edge. edge \<in> set edges \<Longrightarrow> NodeAddress A plan (rx_to edge) = Inr (address (rx_to edge))"
  shows "fold_result (AddPolicy A plan i) edges policies =
    Inr (policies @ map (policy_of address) (filter (\<lambda>edge. rx_from edge = i \<and> occupies edge) edges))"
  using assms
proof (induction edges arbitrary: policies)
  case (Cons edge edges)
  have "AddPolicy A plan i edge policies =
      Inr (if rx_from edge = i \<and> occupies edge then policies @ [policy_of address edge] else policies)"
    using Cons.prems(1) [of edge] Cons.prems(2) [of edge]
    by (cases "rx_condition edge") (auto simp: AddPolicy_def occupies_def policy_of_def)
  moreover have "fold_result (AddPolicy A plan i) edges p =
      Inr (p @ map (policy_of address) (filter (\<lambda>edge. rx_from edge = i \<and> occupies edge) edges))" for p
    using Cons.prems by (intro Cons.IH) simp_all
  ultimately show ?case by simp
qed simp

text \<open>What the address library and \<open>inet_pton\<close> document: a printed IPv4 address reads back.\<close>

definition prints_addresses :: "asio \<Rightarrow> (string \<Rightarrow> bool) \<Rightarrow> bool" where
  "prints_addresses A inet_pton \<longleftrightarrow>
     (\<forall>a. a < 2 ^ 32 \<longrightarrow> make_address_v4 A (address_v4_to_string A a) = Some a \<and>
        inet_pton (c_str (address_v4_to_string A a)))"

lemma NodeAddress_ok:
  assumes "wf_plan plan" "prints_addresses A inet_pton" "i < capacity plan"
  shows "NodeAddress A plan i = Inr (address_v4_to_string A (link_bases plan ! i + 1))"
    "link_bases plan ! i + 1 < 2 ^ 32"
proof -
  have "link_bases plan ! i \<in> set (link_bases plan)" using assms(3) by (simp add: capacity_def)
  then have "link_bases plan ! i + 2 \<le> 2 ^ 32" using assms(1) unfolding wf_plan_def by fastforce
  then show "link_bases plan ! i + 1 < 2 ^ 32" by simp
  then show "NodeAddress A plan i = Inr (address_v4_to_string A (link_bases plan ! i + 1))"
    using assms(3) by (simp add: NodeAddress_def)
qed

lemma NodeAddress_inj:
  assumes "wf_plan plan" "prints_addresses A inet_pton" "i < capacity plan" "j < capacity plan"
    "address_v4_to_string A (link_bases plan ! i + 1) = address_v4_to_string A (link_bases plan ! j + 1)"
  shows "i = j"
proof -
  have "Some (link_bases plan ! i + 1) = Some (link_bases plan ! j + 1)"
    using assms(2,5) NodeAddress_ok(2) [OF assms(1,2,3)] NodeAddress_ok(2) [OF assms(1,2,4)]
    unfolding prints_addresses_def by metis
  moreover have "i < length (link_bases plan)" "j < length (link_bases plan)"
    using assms(3,4) unfolding capacity_def by (meson less_le_trans mod_less_eq_dividend)+
  moreover have "distinct (link_bases plan)" using assms(1) by (simp add: wf_plan_def)
  ultimately show ?thesis by (simp add: nth_eq_iff_index_eq)
qed

lemma distinct_map_filter_key:
  assumes "distinct (map f xs)" "\<And>x y. x \<in> set xs \<Longrightarrow> y \<in> set xs \<Longrightarrow> P x \<Longrightarrow> P y \<Longrightarrow> g x = g y \<Longrightarrow> f x = f y"
  shows "distinct (map g (filter P xs))"
  using assms
proof (induction xs)
  case (Cons x xs)
  then have "g x \<notin> g ` set (filter P xs)" if "P x"
    using that by (auto simp: image_iff)
  moreover have "distinct (map g (filter P xs))" using Cons by simp
  ultimately show ?case by simp
qed simp

lemma own_bands_distinct:
  assumes "bands_ok (set edges)" "distinct (map edge_key edges)"
  shows "distinct (map rx_band (filter (\<lambda>edge. rx_from edge = i \<and> occupies edge) edges))"
proof (rule distinct_map_filter_key [OF assms(2)])
  fix x y
  assume "x \<in> set edges" "y \<in> set edges" "rx_from x = i \<and> occupies x" "rx_from y = i \<and> occupies y"
    "rx_band x = rx_band y"
  then show "edge_key x = edge_key y" using bands_ok_unique [OF assms(1), of x y] by (simp add: edge_key_def)
qed

definition own_policies :: "asio \<Rightarrow> SimulationNetworkAddressPlan \<Rightarrow> nat \<Rightarrow> RuntimePeerTopologyEdge list \<Rightarrow>
    DirectionalNetworkPolicy list" where
  "own_policies A plan i edges = map (policy_of (\<lambda>j. address_v4_to_string A (link_bases plan ! j + 1)))
     (filter (\<lambda>edge. rx_from edge = i \<and> occupies edge) edges)"

lemma wf_edge_facts:
  assumes "wf_runtime topology" "rt_node_count topology \<le> capacity plan" "edge \<in> set (rt_edges topology)"
  shows "rx_to edge < capacity plan" "condition_ok edge" "occupies edge \<Longrightarrow> 0 < rx_band edge \<and> rx_band edge \<le> 15"
proof -
  have ok: "edges_ok (rt_node_count topology) (rt_edges topology)" using assms(1) by (simp add: wf_runtime_def)
  then have "edge_ok (rt_node_count topology) edge" using assms(3) by (simp add: edges_ok_def list_all_iff)
  then show "rx_to edge < capacity plan" "condition_ok edge" using assms(2) by (simp_all add: edge_ok_def)
  have "bands_ok (set (rt_edges topology))" using ok by (simp add: edges_ok_def)
  then show "occupies edge \<Longrightarrow> 0 < rx_band edge \<and> rx_band edge \<le> 15"
    using bands_ok_range assms(3) by (metis less_eq_Suc_le One_nat_def)
qed

lemma own_policies_returned:
  assumes wf: "wf_runtime topology" and plan: "wf_plan plan" "rt_node_count topology \<le> capacity plan"
    and lib: "prints_addresses A inet_pton" and i: "i < rt_node_count topology"
  shows "DirectionalPolicies A plan topology i = Inr (own_policies A plan i (rt_edges topology))"
proof -
  have "fold_result (AddPolicy A plan i) (rt_edges topology) [] = Inr ([] @ own_policies A plan i (rt_edges topology))"
    unfolding own_policies_def
  proof (rule AddPolicy_loop)
    show "rx_band edge \<le> 15" if "edge \<in> set (rt_edges topology)" "occupies edge" for edge
      using wf_edge_facts(3) [OF wf plan(2) that] by blast
    show "NodeAddress A plan (rx_to edge) = Inr (address_v4_to_string A (link_bases plan ! rx_to edge + 1))"
      if "edge \<in> set (rt_edges topology)" for edge
      using NodeAddress_ok(1) [OF plan(1) lib] wf_edge_facts(1) [OF wf plan(2) that] by blast
  qed
  then show ?thesis using i by (simp add: DirectionalPolicies_def)
qed

lemma own_policies_valid:
  assumes wf: "wf_runtime topology" and plan: "wf_plan plan" "rt_node_count topology \<le> capacity plan"
    and lib: "prints_addresses A inet_pton" and p: "p \<in> set (own_policies A plan i (rt_edges topology))"
  shows "0 < dp_band p \<and> dp_band p \<le> 15 \<and> inet_pton (c_str (dp_destination_address p)) \<and>
    ValidateNetworkCondition (dp_condition p) = Inr ()"
proof -
  obtain edge where edge: "edge \<in> set (rt_edges topology)" "occupies edge"
    "p = policy_of (\<lambda>j. address_v4_to_string A (link_bases plan ! j + 1)) edge"
    using p by (auto simp: own_policies_def)
  note facts = wf_edge_facts [OF wf plan(2) edge(1)]
  show ?thesis
    using facts(2,3) edge(2,3) NodeAddress_ok(2) [OF plan(1) lib facts(1)] lib
    by (auto simp: policy_of_def occupies_def condition_ok_def prints_addresses_def)
qed

lemma own_policies_distinct:
  assumes wf: "wf_runtime topology" and plan: "wf_plan plan" "rt_node_count topology \<le> capacity plan"
    and lib: "prints_addresses A inet_pton"
  shows "distinct (map dp_band (own_policies A plan i (rt_edges topology)))"
    "distinct (map dp_destination_address (own_policies A plan i (rt_edges topology)))"
proof -
  let ?edges = "rt_edges topology" and ?address = "\<lambda>j. address_v4_to_string A (link_bases plan ! j + 1)"
  have b: "bands_ok (set ?edges)" and d: "distinct (map edge_key ?edges)"
    using wf sorted_keys_distinct_edges by (simp_all add: wf_runtime_def edges_ok_def)
  show "distinct (map dp_band (own_policies A plan i ?edges))"
    using own_bands_distinct [OF b d, of i] by (simp add: own_policies_def comp_def policy_of_def)
  have "distinct (map (\<lambda>edge. ?address (rx_to edge)) (filter (\<lambda>edge. rx_from edge = i \<and> occupies edge) ?edges))"
  proof (rule distinct_map_filter_key [OF d])
    fix x y
    assume "x \<in> set ?edges" "y \<in> set ?edges" "rx_from x = i \<and> occupies x" "rx_from y = i \<and> occupies y"
      "?address (rx_to x) = ?address (rx_to y)"
    then show "edge_key x = edge_key y"
      using NodeAddress_inj [OF plan(1) lib, of "rx_to x" "rx_to y"] wf_edge_facts(1) [OF wf plan(2)] by (simp add: edge_key_def)
  qed
  then show "distinct (map dp_destination_address (own_policies A plan i ?edges))"
    by (simp add: own_policies_def comp_def policy_of_def)
qed

text \<open>C22. The policies that a well-formed topology yields for a node are accepted by the kernel
  layer: every policy has its own band between 1 and 15 and its own destination, the private
  address of the peer in the address plan, and there is one policy for every active edge
  with a condition that leaves the node.\<close>

theorem policies_accepted:
  assumes wf: "wf_runtime topology" and plan: "wf_plan plan" "rt_node_count topology \<le> capacity plan"
    and lib: "prints_addresses A inet_pton" and i: "i < rt_node_count topology"
  shows "\<exists>policies. DirectionalPolicies A plan topology i = Inr policies \<and>
    ValidateDirectionalNetworkPolicies inet_pton policies = Inr () \<and>
    map dp_band policies = map rx_band (filter (\<lambda>edge. rx_from edge = i \<and> occupies edge) (rt_edges topology))"
proof -
  let ?policies = "own_policies A plan i (rt_edges topology)"
  have valid: "\<forall>p\<in>set ?policies. 0 < dp_band p \<and> dp_band p \<le> 15 \<and> inet_pton (c_str (dp_destination_address p)) \<and>
      ValidateNetworkCondition (dp_condition p) = Inr ()"
    using own_policies_valid [OF wf plan lib] by blast
  note unique = own_policies_distinct [OF wf plan lib, of i]
  have "length ?policies = card (set (map dp_band ?policies))" using distinct_card [OF unique(1)] by simp
  also have "\<dots> \<le> card {1..15 :: nat}" using valid by (intro card_mono) auto
  finally have "length ?policies \<le> 15" by simp
  then have "ValidateDirectionalNetworkPolicies inet_pton ?policies = Inr ()"
    using valid unique unfolding ValidateDirectionalNetworkPolicies_iff by (auto simp: kMaximumDirectionalPolicies_def)
  moreover have "map dp_band ?policies = map rx_band (filter (\<lambda>edge. rx_from edge = i \<and> occupies edge) (rt_edges topology))"
    by (simp add: own_policies_def policy_of_def comp_def)
  ultimately show ?thesis using own_policies_returned [OF wf plan lib i] by blast
qed

subsection \<open>Peers of a replaced node\<close>

lemma IndexNodes_fresh:
  "IndexNodes node_ids k indexes = Inr indexes' \<Longrightarrow> distinct node_ids \<and> set node_ids \<inter> dom indexes = {}"
proof (induction node_ids k indexes rule: IndexNodes.induct)
  case (2 node_id node_ids index indexes)
  have fresh: "node_id \<noteq> []" "node_id \<notin> dom indexes"
    and rest: "IndexNodes node_ids (Suc index) (indexes(node_id \<mapsto> index)) = Inr indexes'"
    using "2.prems" by (auto split: if_splits)
  have "distinct node_ids \<and> set node_ids \<inter> dom (indexes(node_id \<mapsto> index)) = {}"
    by (rule "2.IH" [OF _ rest]) (use fresh in auto)
  then show ?case using fresh by auto
qed simp

lemma IndexNodes_Inr:
  "IndexNodes node_ids k indexes = Inr indexes' \<Longrightarrow>
    indexes' = indexes ++ map_of (zip node_ids [k..<k + length node_ids])"
proof (induction node_ids k indexes rule: IndexNodes.induct)
  case (2 node_id node_ids index indexes)
  have fresh: "node_id \<noteq> []" "indexes node_id = None"
    and rest: "IndexNodes node_ids (Suc index) (indexes(node_id \<mapsto> index)) = Inr indexes'"
    using "2.prems" by (auto split: if_splits)
  have "indexes' = indexes(node_id \<mapsto> index) ++ map_of (zip node_ids [Suc index..<Suc index + length node_ids])"
    by (rule "2.IH" [OF _ rest]) (use fresh in auto)
  moreover have "node_id \<notin> dom (map_of (zip node_ids [Suc index..<Suc index + length node_ids]))"
    using IndexNodes_fresh [OF rest] by (auto simp: dom_map_of_zip)
  moreover have "[index..<index + length (node_id # node_ids)] = index # [Suc index..<Suc index + length node_ids]"
    by (simp add: upt_conv_Cons del: upt_Suc)
  ultimately show ?case
    by (auto simp: fun_eq_iff map_add_def simp del: upt_Suc split: option.splits)
qed simp

definition active_edges :: "RuntimePeerTopologyEdge list \<Rightarrow> EdgeKey set" where
  "active_edges edges = edge_key ` {edge \<in> set edges. rx_active edge}"

lemma CollectActiveEdge_loop:
  "fold_result (CollectActiveEdge n) edges collected = Inr collected' \<Longrightarrow> sorted collected \<Longrightarrow> distinct collected \<Longrightarrow>
    set collected' = set collected \<union> active_edges edges \<and> sorted collected' \<and> distinct collected'"
proof (induction edges arbitrary: collected)
  case (Cons edge edges)
  let ?c = "if rx_active edge then sset_insert (rx_from edge, rx_to edge) collected else collected"
  obtain c where c: "CollectActiveEdge n edge collected = Inr c"
    and r: "fold_result (CollectActiveEdge n) edges c = Inr collected'"
    using Cons.prems(1) by (auto simp: result_simps)
  have "c = ?c" using c by (simp add: CollectActiveEdge_def split: if_splits)
  with r have "fold_result (CollectActiveEdge n) edges ?c = Inr collected'" by simp
  moreover have "sorted ?c" "distinct ?c" using Cons.prems by auto
  ultimately have "set collected' = set ?c \<union> active_edges edges \<and> sorted collected' \<and> distinct collected'"
    by (rule Cons.IH)
  then show ?case by (auto simp: active_edges_def edge_key_def)
qed (simp add: active_edges_def)

lemma CollectAllowedPeer_loop:
  "fold_result (CollectAllowedPeer indexes src) allowed (seen, edges) = Inr (seen', edges') \<Longrightarrow>
    set edges' = set edges \<union> Pair src ` {p. \<exists>x\<in>set allowed. indexes x = Some p} \<and>
    (\<forall>x\<in>set allowed. indexes x \<noteq> None)"
proof (induction allowed arbitrary: seen edges)
  case (Cons x allowed)
  then obtain s where s: "CollectAllowedPeer indexes src x (seen, edges) = Inr s"
    and "fold_result (CollectAllowedPeer indexes src) allowed s = Inr (seen', edges')"
    by (auto simp: result_simps)
  moreover obtain peer where p: "indexes x = Some peer" "s = (insert peer seen, sset_insert (src, peer) edges)"
    using s by (auto simp: CollectAllowedPeer_def Let_def split: option.splits if_splits)
  ultimately have r: "fold_result (CollectAllowedPeer indexes src) allowed (insert peer seen, sset_insert (src, peer) edges) = Inr (seen', edges')"
    by simp
  show ?case using Cons.IH [OF r] p by auto
qed simp

definition allowed_of ::
    "(string \<rightharpoonup> nat) \<Rightarrow> string list \<Rightarrow> (string \<times> string list) list \<Rightarrow> nat \<Rightarrow> EdgeKey set" where
  "allowed_of indexes node_ids allowed_peers src =
     Pair src ` {p. \<exists>allowed. map_of allowed_peers (node_ids ! src) = Some allowed \<and>
       (\<exists>x\<in>set allowed. indexes x = Some p)}"

lemma CollectAllowedNode_loop:
  "fold_result (CollectAllowedNode indexes node_ids allowed_peers) srcs edges = Inr edges' \<Longrightarrow>
    set edges' = set edges \<union> (\<Union>src\<in>set srcs. allowed_of indexes node_ids allowed_peers src) \<and>
    (\<forall>src\<in>set srcs. \<exists>allowed. map_of allowed_peers (node_ids ! src) = Some allowed \<and>
       (\<forall>x\<in>set allowed. indexes x \<noteq> None))"
proof (induction srcs arbitrary: edges)
  case (Cons src srcs)
  then obtain edges1 where c: "CollectAllowedNode indexes node_ids allowed_peers src edges = Inr edges1"
    and r: "fold_result (CollectAllowedNode indexes node_ids allowed_peers) srcs edges1 = Inr edges'"
    by (auto simp: result_simps)
  obtain allowed seen1 where a: "map_of allowed_peers (node_ids ! src) = Some allowed"
    and f: "fold_result (CollectAllowedPeer indexes src) allowed ({}, edges) = Inr (seen1, edges1)"
    using c by (auto simp: CollectAllowedNode_def result_simps split: option.splits)
  have "allowed_of indexes node_ids allowed_peers src = Pair src ` {p. \<exists>x\<in>set allowed. indexes x = Some p}"
    using a by (simp add: allowed_of_def)
  then show ?case using Cons.IH [OF r] CollectAllowedPeer_loop [OF f] a by auto
qed simp


lemma IndexNodes_at:
  assumes i: "IndexNodes node_ids 0 Map.empty = Inr indexes"
  shows "indexes x = Some p \<longleftrightarrow> p < length node_ids \<and> x = node_ids ! p"
proof -
  have d: "distinct node_ids" using IndexNodes_fresh [OF i] by simp
  have ix: "indexes = map_of (zip node_ids [0..<length node_ids])" using IndexNodes_Inr [OF i] by simp
  show ?thesis
  proof
    assume "indexes x = Some p"
    then have "(x, p) \<in> set (zip node_ids [0..<length node_ids])" unfolding ix by (rule map_of_SomeD)
    then show "p < length node_ids \<and> x = node_ids ! p" by (auto simp: in_set_zip)
  next
    assume "p < length node_ids \<and> x = node_ids ! p"
    then show "indexes x = Some p"
      unfolding ix using map_of_zip_nth [of node_ids "[0..<length node_ids]" p] d by simp
  qed
qed

lemma allowed_of_union:
  assumes "src < n"
  shows "(src, dst) \<in> (\<Union>src\<in>set [0..<n]. allowed_of indexes node_ids allowed_peers src) \<longleftrightarrow>
    (src, dst) \<in> allowed_of indexes node_ids allowed_peers src"
proof
  assume "(src, dst) \<in> (\<Union>src\<in>set [0..<n]. allowed_of indexes node_ids allowed_peers src)"
  then obtain src' where "(src, dst) \<in> allowed_of indexes node_ids allowed_peers src'" by blast
  moreover from this have "src' = src" by (auto simp: allowed_of_def)
  ultimately show "(src, dst) \<in> allowed_of indexes node_ids allowed_peers src" by simp
next
  assume "(src, dst) \<in> allowed_of indexes node_ids allowed_peers src"
  then show "(src, dst) \<in> (\<Union>src\<in>set [0..<n]. allowed_of indexes node_ids allowed_peers src)"
    using assms by (intro UN_I [of src]) simp_all
qed

text \<open>C23. The peer edges of a replaced node are computed only when the allowed-peer map and the
  topology agree: every node may talk exactly to the nodes its active edges lead to. The
  result is then, in order and once each, the active edges that touch the replaced node.\<close>

theorem replacement_edges_exact:
  assumes "ResolveRuntimeNodeReplacementPeerEdges topology node_ids allowed_peers target = Inr result"
  shows "sorted result \<and> distinct result \<and>
    set result = {(src, dst) \<in> active_edges (rt_edges topology). src = target \<or> dst = target} \<and>
    (\<forall>src<length node_ids. \<exists>allowed. map_of allowed_peers (node_ids ! src) = Some allowed \<and>
       set allowed = {node_ids ! dst | dst. dst < length node_ids \<and> (src, dst) \<in> active_edges (rt_edges topology)})"
proof -
  obtain indexes topo allowed_edges where i: "IndexNodes node_ids 0 Map.empty = Inr indexes"
    and t: "fold_result (CollectActiveEdge (length node_ids)) (rt_edges topology) [] = Inr topo"
    and n: "fold_result (CollectAllowedNode indexes node_ids allowed_peers) [0..<length node_ids] [] = Inr topo"
    and r: "result = filter (\<lambda>(src, dst). src = target \<or> dst = target) topo"
    using assms by (auto simp: ResolveRuntimeNodeReplacementPeerEdges_def result_simps split: if_splits)
  note at = IndexNodes_at [OF i]
  have T: "set topo = active_edges (rt_edges topology)" "sorted topo" "distinct topo"
    using CollectActiveEdge_loop [OF t] by simp_all
  have N: "set topo = (\<Union>src\<in>set [0..<length node_ids]. allowed_of indexes node_ids allowed_peers src)"
    "\<And>src. src < length node_ids \<Longrightarrow> \<exists>allowed. map_of allowed_peers (node_ids ! src) = Some allowed \<and>
       (\<forall>x\<in>set allowed. indexes x \<noteq> None)"
    using CollectAllowedNode_loop [OF n] by simp_all
  have "\<exists>allowed. map_of allowed_peers (node_ids ! src) = Some allowed \<and>
      set allowed = {node_ids ! dst | dst. dst < length node_ids \<and> (src, dst) \<in> active_edges (rt_edges topology)}"
    if src: "src < length node_ids" for src
  proof -
    obtain allowed where a: "map_of allowed_peers (node_ids ! src) = Some allowed"
      "\<forall>x\<in>set allowed. indexes x \<noteq> None" using N(2) [OF src] by blast
    have "(src, dst) \<in> set topo \<longleftrightarrow> (\<exists>x\<in>set allowed. indexes x = Some dst)" for dst
      unfolding N(1) allowed_of_union [OF src] using a(1) by (auto simp: allowed_of_def)
    then have "(src, dst) \<in> active_edges (rt_edges topology) \<longleftrightarrow> dst < length node_ids \<and> node_ids ! dst \<in> set allowed" for dst
      unfolding T(1) at by auto
    then have "set allowed = {node_ids ! dst | dst. dst < length node_ids \<and> (src, dst) \<in> active_edges (rt_edges topology)}"
      using a(2) at by auto
    then show ?thesis using a(1) by blast
  qed
  moreover have "set result = {(src, dst) \<in> active_edges (rt_edges topology). src = target \<or> dst = target}"
    unfolding r using T(1) by auto
  ultimately show ?thesis using T(2,3) unfolding r by (simp add: sorted_wrt_filter)
qed

subsection \<open>Examples\<close>

definition example_condition :: NetworkCondition where
  "example_condition = DefaultNetworkCondition\<lparr>delay_ms := 40\<rparr>"

definition example_links :: PeerTopologyConfig where
  "example_links = DefaultPeerTopologyConfig\<lparr>tc_kind := kCustomEdgeList,
     tc_edges := [\<lparr>te_from = 0, te_to = 1, te_bidirectional = True, te_active = True,
       te_latency_ms = Some 40, te_condition = Some example_condition\<rparr>]\<rparr>"

definition example_edge :: "nat \<Rightarrow> nat \<Rightarrow> bool \<Rightarrow> RuntimePeerTopologyEdge" where
  "example_edge src dst active = \<lparr>rx_from = src, rx_to = dst, rx_band = 1, rx_active = active,
     rx_condition = Some example_condition\<rparr>"

definition example_runtime :: RuntimePeerTopology where
  "example_runtime = (let edges = [example_edge 0 1 True, example_edge 1 0 True] in
     \<lparr>rt_node_count = 2, rt_baseline_edges = edges, rt_edges = edges\<rparr>)"

lemma example_condition_valid:
  "ValidateNetworkCondition example_condition = Inr ()" "delay_ms example_condition = 40"
  by (simp_all add: ValidateNetworkCondition_def example_condition_def DefaultNetworkCondition_def)

lemma example_runtime_new: "new_RuntimePeerTopology high_rng example_links 2 False = Inr example_runtime"
  by (simp add: new_RuntimePeerTopology_def InitialEdges_def example_links_def DefaultPeerTopologyConfig_def
      AddConfigured_def AddInitialPair_def AddInitialEdge_def ValidateInitialEdge_def example_condition_valid
      Let_def numeral_2_eq_2 occupies_def
      AllocateDirectionalBand_def kMaximumDirectionalBands_def example_runtime_def example_edge_def)

lemma example_runtime_wf: "wf_runtime example_runtime"
  using new_RuntimePeerTopology_wf [OF example_runtime_new] by simp

theorem runtime_topology_invariant_witness:
  "wf_runtime (fst (run topology_exec example_runtime
     [SetActiveOp 0 1 False, RestoreBaselineOp 0 1, SetActiveOp 5 5 True]))"
  by (rule runtime_topology_invariant [OF example_runtime_new])

lemma example_deactivated:
  "SetActive 0 1 False example_runtime =
     (example_runtime\<lparr>rt_edges := [example_edge 0 1 False, example_edge 1 0 True]\<rparr>, Inr (example_edge 0 1 True))"
  by (simp add: SetActive_def with_edge_def Edge_def is_edge_def with_band_def DirectionalBandForState_def occupies_def
      example_runtime_def example_edge_def Let_def)

theorem change_then_restore_witness:
  "RestoreState (example_edge 0 1 True)
     (example_runtime\<lparr>rt_edges := [example_edge 0 1 False, example_edge 1 0 True]\<rparr>) = (example_runtime, Inr ())"
  using change_then_restore [OF example_runtime_wf, of 0 1 _ _ _ False] example_deactivated by blast

definition example_links_plan :: SimulationNetworkAddressPlan where
  "example_links_plan = example_plan\<lparr>link_bases := [167772162, 167772166]\<rparr>"

theorem policies_accepted_witness:
  "\<exists>policies. DirectionalPolicies binary_asio example_links_plan example_runtime 0 = Inr policies \<and>
     ValidateDirectionalNetworkPolicies (\<lambda>s. length s = 32) policies = Inr () \<and> map dp_band policies = [1]"
proof -
  have plan: "wf_plan example_links_plan" "rt_node_count example_runtime \<le> capacity example_links_plan"
    "0 < rt_node_count example_runtime"
    by (simp_all add: wf_plan_def example_links_plan_def example_plan_def AddressCount_eq capacity_def
        example_runtime_def Let_def)
  have "c_str (bits_text 32 a) = bits_text 32 a" for a
    unfolding c_str_def by (rule takeWhile_eq_all_conv [THEN iffD2]) (auto simp: bits_text_def)
  then have lib: "prints_addresses binary_asio (\<lambda>s. length s = 32)"
    by (simp add: prints_addresses_def binary_asio_def text_bits_text)
  have "map rx_band (filter (\<lambda>edge. rx_from edge = 0 \<and> occupies edge) (rt_edges example_runtime)) = [1]"
    by (simp add: occupies_def example_runtime_def example_edge_def Let_def)
  with policies_accepted [OF example_runtime_wf plan(1,2) lib plan(3)] show ?thesis by simp
qed

theorem replacement_edges_exact_witness:
  "ResolveRuntimeNodeReplacementPeerEdges example_runtime [''a'', ''b''] [(''a'', [''b'']), (''b'', [''a''])] 1
     = Inr [(0, 1), (1, 0)] \<and> sorted [(0::nat, 1::nat), (1, 0)]"
proof -
  have "ResolveRuntimeNodeReplacementPeerEdges example_runtime [''a'', ''b''] [(''a'', [''b'']), (''b'', [''a''])] 1
     = Inr [(0, 1), (1, 0)]"
    by (simp add: ResolveRuntimeNodeReplacementPeerEdges_def example_runtime_def example_edge_def Let_def
        CollectActiveEdge_def CollectAllowedNode_def CollectAllowedPeer_def numeral_2_eq_2 sset_insert_def)
  then show ?thesis using replacement_edges_exact by blast
qed

end
