(* ===== verification/Topology_Remap.thy ===== *)
theory Topology_Remap
  imports Runtime_Topology
begin

text \<open>
  The peer topology after nodes were removed: \<open>RemapPeerTopologyConfig\<close> of
  \<open>src/default_peer_topology.cpp\<close>. A remap gives every old node its new index, or none if the
  node is gone; the new indexes are compact. \<open>std::vector<bool> seen\<close> is a set of numbers.
\<close>

definition CheckMapped :: "nat \<Rightarrow> nat option \<Rightarrow> nat set \<times> nat \<Rightarrow> (nat set \<times> nat) result" where
  "CheckMapped old_count mapped state = (case mapped of
       None \<Rightarrow> Inr state
     | Some node \<Rightarrow>
         if node \<ge> old_count \<or> node \<in> fst state
         then Inl (InvalidArgument ''peer topology node remap must contain unique compact indexes'')
         else Inr (insert node (fst state), max (snd state) (node + 1)))"

definition RemappedNodeCount :: "nat option list \<Rightarrow> nat result" where
  "RemappedNodeCount old_to_new =
     bind_result (fold_result (CheckMapped (length old_to_new)) old_to_new ({}, 0)) (\<lambda>(seen, next_node_count).
       if list_ex (\<lambda>node. node \<notin> seen) [0..<next_node_count]
       then Inl (InvalidArgument ''peer topology node remap must contain unique compact indexes'')
       else Inr next_node_count)"

definition MapNode :: "nat option list \<Rightarrow> nat \<Rightarrow> nat option result" where
  "MapNode old_to_new node =
     (if node \<ge> length old_to_new
      then Inl (InvalidArgument ''peer topology contains an out-of-range node during remap'')
      else Inr (old_to_new ! node))"

definition RemapEdge ::
    "nat option list \<Rightarrow> PeerTopologyEdge \<Rightarrow> PeerTopologyEdge list \<Rightarrow> PeerTopologyEdge list result" where
  "RemapEdge old_to_new edge edges =
     bind_result (MapNode old_to_new (te_from edge)) (\<lambda>src.
     bind_result (MapNode old_to_new (te_to edge)) (\<lambda>dst.
       case (src, dst) of
         (Some src, Some dst) \<Rightarrow> Inr (edges @ [edge\<lparr>te_from := src, te_to := dst\<rparr>])
       | _ \<Rightarrow> Inr edges))"

definition RemapMember :: "nat option list \<Rightarrow> nat \<Rightarrow> nat list \<Rightarrow> nat list result" where
  "RemapMember old_to_new node members =
     bind_result (MapNode old_to_new node) (\<lambda>mapped.
       Inr (case mapped of None \<Rightarrow> members | Some node \<Rightarrow> members @ [node]))"

definition RemapGroup :: "nat option list \<Rightarrow> nat list \<Rightarrow> nat list list \<Rightarrow> nat list list result" where
  "RemapGroup old_to_new old_group groups =
     bind_result (fold_result (RemapMember old_to_new) old_group []) (\<lambda>members.
       Inr (if members = [] then groups else groups @ [members]))"

definition RetainedOldNodes :: "nat option list \<Rightarrow> nat \<Rightarrow> nat list" where
  "RetainedOldNodes old_to_new next_node_count =
     fold (\<lambda>old nodes. case old_to_new ! old of None \<Rightarrow> nodes | Some node \<Rightarrow> nodes[node := old])
       [0..<length old_to_new] (replicate next_node_count 0)"

definition RemapLatencyCell ::
    "nat option list \<Rightarrow> nat list \<Rightarrow> nat \<Rightarrow> nat option list \<Rightarrow> nat option list result" where
  "RemapLatencyCell old_row retained_old_nodes dst row =
     (let old_to = retained_old_nodes ! dst in
      if old_to \<ge> length old_row
      then Inl (InvalidArgument ''peer topology latency matrix is incomplete during remap'')
      else Inr (row @ [old_row ! old_to]))"

definition RemapLatencyRow ::
    "nat option list list \<Rightarrow> nat list \<Rightarrow> nat \<Rightarrow> nat \<Rightarrow> nat option list list \<Rightarrow> nat option list list result" where
  "RemapLatencyRow matrix retained_old_nodes next_node_count src rows =
     (let old_from = retained_old_nodes ! src in
      if old_from \<ge> length matrix
      then Inl (InvalidArgument ''peer topology latency matrix is incomplete during remap'')
      else bind_result (fold_result (RemapLatencyCell (matrix ! old_from) retained_old_nodes) [0..<next_node_count] [])
        (\<lambda>row. Inr (rows @ [row])))"

definition RemapRegion ::
    "nat option list \<Rightarrow> nat list \<Rightarrow> nat list list \<times> nat option list \<Rightarrow> (nat list list \<times> nat option list) result" where
  "RemapRegion old_to_new region state =
     bind_result (fold_result (RemapMember old_to_new) region []) (\<lambda>members.
       let (regions, region_remap) = state in
       if members = [] then Inr (regions, region_remap @ [None])
       else Inr (regions @ [members], region_remap @ [Some (length regions)]))"

definition RemapRegionEdge ::
    "nat option list \<Rightarrow> PeerTopologyRegionEdge \<Rightarrow> PeerTopologyRegionEdge list \<Rightarrow> PeerTopologyRegionEdge list result" where
  "RemapRegionEdge region_remap edge edges =
     (if re_from_region edge \<ge> length region_remap \<or> re_to_region edge \<ge> length region_remap
      then Inl (InvalidArgument ''peer topology region edge is out of range during remap'')
      else case (region_remap ! re_from_region edge, region_remap ! re_to_region edge) of
          (Some src, Some dst) \<Rightarrow> Inr (edges @ [edge\<lparr>re_from_region := src, re_to_region := dst\<rparr>])
        | _ \<Rightarrow> Inr edges)"

definition RemapPeerTopologyConfig :: "PeerTopologyConfig \<Rightarrow> nat option list \<Rightarrow> PeerTopologyConfig result" where
  "RemapPeerTopologyConfig topology old_to_new =
     bind_result (RemappedNodeCount old_to_new) (\<lambda>next_node_count.
     if next_node_count = 0 then Inr DefaultPeerTopologyConfig
     else case tc_kind topology of
         kStar \<Rightarrow>
           bind_result (MapNode old_to_new (tc_star_center topology)) (\<lambda>center.
             Inr (topology\<lparr>tc_star_center := (case center of None \<Rightarrow> 0 | Some node \<Rightarrow> node)\<rparr>))
       | kRandomGraph \<Rightarrow>
           Inr (topology\<lparr>tc_average_degree := min (tc_average_degree topology) (next_node_count - 1)\<rparr>)
       | kScaleFreeGraph \<Rightarrow>
           Inr (if next_node_count > 1
                then topology\<lparr>
                  tc_average_degree := (if tc_average_degree topology \<noteq> 0
                    then min (tc_average_degree topology) (next_node_count - 1) else 0),
                  tc_attachment_count := (if tc_attachment_count topology \<noteq> 0
                    then min (tc_attachment_count topology) (next_node_count - 1) else 0)\<rparr>
                else topology)
       | kCustomEdgeList \<Rightarrow>
           bind_result (fold_result (RemapEdge old_to_new) (tc_edges topology) []) (\<lambda>edges.
             Inr (topology\<lparr>tc_edges := edges\<rparr>))
       | kPartitionedGroups \<Rightarrow>
           bind_result (fold_result (RemapGroup old_to_new) (tc_groups topology) []) (\<lambda>groups.
             Inr (topology\<lparr>tc_groups := groups\<rparr>))
       | kLatencyMatrix \<Rightarrow>
           bind_result (fold_result (RemapLatencyRow (tc_latency_matrix_ms topology)
               (RetainedOldNodes old_to_new next_node_count) next_node_count) [0..<next_node_count] [])
             (\<lambda>rows. Inr (topology\<lparr>tc_latency_matrix_ms := rows\<rparr>))
       | kInternetLikeRegionGraph \<Rightarrow>
           bind_result (fold_result (RemapRegion old_to_new) (tc_regions topology) ([], []))
             (\<lambda>(regions, region_remap).
           bind_result (fold_result (RemapRegionEdge region_remap) (tc_region_edges topology) [])
             (\<lambda>region_edges. Inr (topology\<lparr>tc_regions := regions, tc_region_edges := region_edges\<rparr>)))
       | _ \<Rightarrow> Inr topology)"

subsection \<open>Compact remaps\<close>

definition new_index :: "nat option list \<Rightarrow> nat \<Rightarrow> nat option" where
  "new_index old_to_new node = (if node < length old_to_new then old_to_new ! node else None)"

definition mapped_nodes :: "nat option list \<Rightarrow> nat list" where
  "mapped_nodes old_to_new = List.map_filter (\<lambda>mapped. mapped) old_to_new"

lemma mapped_nodes_simps [simp]:
  "mapped_nodes [] = []" "mapped_nodes (None # ms) = mapped_nodes ms" "mapped_nodes (Some m # ms) = m # mapped_nodes ms"
  by (simp_all add: mapped_nodes_def map_filter_simps)

lemma mapped_nodes_length: "length (mapped_nodes ms) \<le> length ms"
proof (induction ms)
  case (Cons m ms) then show ?case by (cases m) auto
qed simp

lemma set_mapped_nodes: "set (mapped_nodes ms) = {m. Some m \<in> set ms}"
proof (induction ms)
  case (Cons m ms) then show ?case by (cases m) auto
qed simp

lemma CheckMapped_loop:
  "fold_result (CheckMapped n) ms (seen, c) = Inr (seen', c') \<longleftrightarrow>
     (\<forall>m\<in>set (mapped_nodes ms). m < n) \<and> distinct (mapped_nodes ms) \<and> set (mapped_nodes ms) \<inter> seen = {} \<and>
     seen' = seen \<union> set (mapped_nodes ms) \<and> c' = foldl (\<lambda>c m. max c (Suc m)) c (mapped_nodes ms)"
proof (induction ms arbitrary: seen c)
  case (Cons m ms)
  show ?case
  proof (cases m)
    case None
    then have "CheckMapped n m (seen, c) = Inr (seen, c)" by (simp add: CheckMapped_def)
    with None show ?thesis by (simp add: Cons.IH)
  next
    case (Some node)
    show ?thesis
    proof (cases "node < n \<and> node \<notin> seen")
      case True
      with Some have "CheckMapped n m (seen, c) = Inr (insert node seen, max c (node + 1))"
        by (simp add: CheckMapped_def)
      with Some True show ?thesis by (auto simp: Cons.IH)
    next
      case False
      with Some have "\<exists>e. CheckMapped n m (seen, c) = Inl e" by (auto simp: CheckMapped_def)
      with Some False show ?thesis by auto
    qed
  qed
qed auto

lemma foldl_max: "foldl (\<lambda>c m. max c (Suc m)) (c :: nat) ms = Max (insert c (Suc ` set ms))"
proof (induction ms arbitrary: c)
  case (Cons m ms)
  then show ?case by (cases "ms = []") (simp_all add: max.assoc)
qed simp

lemma RemappedNodeCount_Inr:
  "RemappedNodeCount old_to_new = Inr k \<longleftrightarrow> (\<exists>seen.
     fold_result (CheckMapped (length old_to_new)) old_to_new ({}, 0) = Inr (seen, k) \<and> {..<k} \<subseteq> seen)"
proof (cases "fold_result (CheckMapped (length old_to_new)) old_to_new ({}, 0)")
  case (Inr state)
  obtain seen c where "state = (seen, c)" by (cases state)
  with Inr show ?thesis by (auto simp: RemappedNodeCount_def list_ex_iff)
qed (simp add: RemappedNodeCount_def)

lemma RemappedNodeCount_iff:
  "RemappedNodeCount old_to_new = Inr k \<longleftrightarrow>
     distinct (mapped_nodes old_to_new) \<and> set (mapped_nodes old_to_new) = {..<k}"
proof -
  let ?ms = "mapped_nodes old_to_new" and ?n = "length old_to_new"
  define K where "K = Max (insert 0 (Suc ` set ?ms))"
  have r: "RemappedNodeCount old_to_new = Inr k \<longleftrightarrow>
      (\<forall>m\<in>set ?ms. m < ?n) \<and> distinct ?ms \<and> k = K \<and> {..<k} \<subseteq> set ?ms"
    unfolding RemappedNodeCount_Inr CheckMapped_loop foldl_max K_def [symmetric] by simp
  have up: "set ?ms \<subseteq> {..<K}"
  proof
    fix m assume "m \<in> set ?ms"
    then have "Suc m \<le> K" unfolding K_def by (intro Max_ge) auto
    then show "m \<in> {..<K}" by simp
  qed
  have mx: "k = K" if "set ?ms = {..<k}"
  proof (cases k)
    case 0 with that show ?thesis by (simp add: K_def)
  next
    case (Suc j)
    have "insert 0 (Suc ` set ?ms) = {..k}" unfolding that using lessThan_Suc_eq_insert_0 [of k]
      by (simp add: lessThan_Suc_atMost)
    moreover have "Max {..k} = k" by (rule Max_eqI) auto
    ultimately show ?thesis by (simp add: K_def)
  qed
  have "m < ?n" if "distinct ?ms" "set ?ms = {..<k}" "m \<in> set ?ms" for m
  proof -
    have "k = length ?ms" using distinct_card [OF that(1)] that(2) by simp
    then show ?thesis using that(2,3) mapped_nodes_length [of old_to_new] by simp
  qed
  then show ?thesis unfolding r using up mx by blast
qed

lemma new_index_Some: "new_index old_to_new i = Some j \<longleftrightarrow> i < length old_to_new \<and> old_to_new ! i = Some j"
  by (simp add: new_index_def)

lemma mapped_nodes_inj:
  "distinct (mapped_nodes ms) \<Longrightarrow> i < length ms \<Longrightarrow> i' < length ms \<Longrightarrow> ms ! i = Some j \<Longrightarrow> ms ! i' = Some j \<Longrightarrow> i = i'"
proof (induction ms arbitrary: i i')
  case (Cons m ms)
  have fresh: "ms ! x \<noteq> Some j" if "m = Some j" "x < length ms" for x
    using Cons.prems(1) that set_mapped_nodes [of ms] by (metis (mono_tags) distinct.simps(2) mapped_nodes_simps(3) mem_Collect_eq nth_mem)
  have "distinct (mapped_nodes ms)" using Cons.prems(1) by (cases m) auto
  with Cons show ?case by (cases i; cases i') (auto dest: fresh)
qed simp

text \<open>A compact remap is a bijection between the retained old nodes and the new ones.\<close>

lemma new_index_inj:
  assumes "RemappedNodeCount old_to_new = Inr k" "new_index old_to_new i = Some j" "new_index old_to_new i' = Some j"
  shows "i = i'"
  using assms mapped_nodes_inj unfolding RemappedNodeCount_iff new_index_Some by blast

lemma new_index_less:
  assumes "RemappedNodeCount old_to_new = Inr k" "new_index old_to_new i = Some j"
  shows "j < k"
proof -
  have "Some j \<in> set old_to_new" using assms(2) nth_mem unfolding new_index_Some by metis
  then show ?thesis using assms(1) set_mapped_nodes [of old_to_new] unfolding RemappedNodeCount_iff by auto
qed

lemma new_index_onto:
  assumes "RemappedNodeCount old_to_new = Inr k" "j < k"
  obtains i where "new_index old_to_new i = Some j"
proof -
  have "Some j \<in> set old_to_new"
    using assms set_mapped_nodes [of old_to_new] unfolding RemappedNodeCount_iff by auto
  then show ?thesis using that unfolding in_set_conv_nth new_index_Some by blast
qed

lemma MapNode_Inr [simp]: "i < length old_to_new \<Longrightarrow> MapNode old_to_new i = Inr (new_index old_to_new i)"
  by (simp add: MapNode_def new_index_def)

subsection \<open>Collectors before and after a remap\<close>

definition remaps :: "nat option list \<Rightarrow> EdgeCollector \<Rightarrow> EdgeCollector \<Rightarrow> bool" where
  "remaps old_to_new c c' \<longleftrightarrow> (\<forall>a b x y. new_index old_to_new a = Some x \<longrightarrow> new_index old_to_new b = Some y \<longrightarrow>
     map_of (ec_edges c') (x, y) = map_of (ec_edges c) (a, b))"

text \<open>The edges between retained nodes, at their new indexes.\<close>

definition remapped_edges :: "nat option list \<Rightarrow> ResolvedPeerTopologyEdge list \<Rightarrow> ResolvedPeerTopologyEdge set" where
  "remapped_edges old_to_new edges = {edge\<lparr>rp_from := x, rp_to := y\<rparr> | edge x y. edge \<in> set edges \<and>
     new_index old_to_new (rp_from edge) = Some x \<and> new_index old_to_new (rp_to edge) = Some y}"

lemma set_Collector_Resolve:
  assumes "sorted_keys (ec_edges c)"
  shows "set (Collector_Resolve c) = {\<lparr>rp_from = a, rp_to = b, rp_latency_ms = ea_latency_ms attributes,
    rp_condition = ea_condition attributes\<rparr> | a b attributes. map_of (ec_edges c) (a, b) = Some attributes}"
proof -
  have "map_of (ec_edges c) (a, b) = Some attributes \<longleftrightarrow> ((a, b), attributes) \<in> set (ec_edges c)" for a b attributes
    using sorted_keys_distinct [OF assms] by (rule map_of_eq_Some_iff)
  then show ?thesis by (force simp: Collector_Resolve_def)
qed

lemma remaps_Resolve:
  assumes "RemappedNodeCount old_to_new = Inr k" "sorted_keys (ec_edges c)" "wf_collector k c'" "remaps old_to_new c c'"
  shows "set (Collector_Resolve c') = remapped_edges old_to_new (Collector_Resolve c)"
proof -
  have c': "sorted_keys (ec_edges c')" using assms(3) by (simp add: wf_collector_def)
  have r: "map_of (ec_edges c') (x, y) = map_of (ec_edges c) (a, b)"
    if "new_index old_to_new a = Some x" "new_index old_to_new b = Some y" for a b x y
    using assms(4) that unfolding remaps_def by blast
  have ends: "\<exists>a b. new_index old_to_new a = Some x \<and> new_index old_to_new b = Some y"
    if "map_of (ec_edges c') (x, y) = Some attributes" for x y attributes
  proof -
    have "x < k" "y < k"
      using map_of_SomeD [OF that] assms(3) by (auto simp: wf_collector_def valid_edge_def)
    then show ?thesis using new_index_onto [OF assms(1)] by metis
  qed
  show ?thesis
  proof (intro set_eqI iffI)
    fix edge assume "edge \<in> set (Collector_Resolve c')"
    then obtain x y attributes where e: "edge = \<lparr>rp_from = x, rp_to = y, rp_latency_ms = ea_latency_ms attributes,
        rp_condition = ea_condition attributes\<rparr>" "map_of (ec_edges c') (x, y) = Some attributes"
      unfolding set_Collector_Resolve [OF c'] by blast
    obtain a b where ab: "new_index old_to_new a = Some x" "new_index old_to_new b = Some y" using ends [OF e(2)] by blast
    let ?old = "\<lparr>rp_from = a, rp_to = b, rp_latency_ms = ea_latency_ms attributes, rp_condition = ea_condition attributes\<rparr>"
    have "?old \<in> set (Collector_Resolve c)"
      unfolding set_Collector_Resolve [OF assms(2)] using r [OF ab] e(2) by auto
    moreover have "edge = ?old\<lparr>rp_from := x, rp_to := y\<rparr>" by (simp add: e(1))
    ultimately show "edge \<in> remapped_edges old_to_new (Collector_Resolve c)"
      unfolding remapped_edges_def using ab by fastforce
  next
    fix edge assume "edge \<in> remapped_edges old_to_new (Collector_Resolve c)"
    then obtain old x y where o: "old \<in> set (Collector_Resolve c)" "edge = old\<lparr>rp_from := x, rp_to := y\<rparr>"
      "new_index old_to_new (rp_from old) = Some x" "new_index old_to_new (rp_to old) = Some y"
      unfolding remapped_edges_def by blast
    obtain a b attributes where e: "old = \<lparr>rp_from = a, rp_to = b, rp_latency_ms = ea_latency_ms attributes,
        rp_condition = ea_condition attributes\<rparr>" "map_of (ec_edges c) (a, b) = Some attributes"
      using o(1) unfolding set_Collector_Resolve [OF assms(2)] by blast
    have "map_of (ec_edges c') (x, y) = Some attributes" using r [of a x b y] o(3,4) e by simp
    then show "edge \<in> set (Collector_Resolve c')"
      unfolding set_Collector_Resolve [OF c'] using o(2) e(1) by auto
  qed
qed

lemma ResolvePeerTopologyEdges_Inr:
  assumes "ResolvePeerTopologyEdges R topology n = Inr edges"
  obtains c where "0 < n" "CollectEdges R topology n \<lparr>ec_node_count = n, ec_edges = []\<rparr> = Inr c"
    "edges = Collector_Resolve c" "wf_collector n c"
proof -
  obtain c where "0 < n" "CollectEdges R topology n \<lparr>ec_node_count = n, ec_edges = []\<rparr> = Inr c"
    "edges = Collector_Resolve c"
    using assms by (auto simp: ResolvePeerTopologyEdges_def RequireNodeCount_def result_simps split: if_splits)
  moreover from this(2) have "wf_collector n c" by (rule wf_edges.collect_edges) (simp add: wf_collector_def)
  ultimately show ?thesis using that by blast
qed

text \<open>What is left to show for each kind: the collectors correspond.\<close>

lemma remap_resolves:
  assumes "RemappedNodeCount old_to_new = Inr k" "0 < k" "wf_collector n c"
    and "CollectEdges R topology' k \<lparr>ec_node_count = k, ec_edges = []\<rparr> = Inr c'" "remaps old_to_new c c'"
  shows "\<exists>edges'. ResolvePeerTopologyEdges R topology' k = Inr edges' \<and>
    set edges' = remapped_edges old_to_new (Collector_Resolve c)"
proof -
  have "wf_collector k c'" using assms(4) by (rule wf_edges.collect_edges) (simp add: wf_collector_def)
  then show ?thesis
    using remaps_Resolve [OF assms(1) _ _ assms(5)] assms(2-4)
    by (simp add: ResolvePeerTopologyEdges_def RequireNodeCount_def wf_collector_def)
qed

subsection \<open>Plain kinds\<close>

lemma plain_lookup:
  assumes "plain_collector n c"
  shows "map_of (ec_edges c) key = (if key \<in> edge_keys c then Some \<lparr>ea_latency_ms = None, ea_condition = None\<rparr> else None)"
proof (cases "map_of (ec_edges c) key")
  case None
  then show ?thesis by (simp add: map_of_eq_None_iff edge_keys_def)
next
  case (Some attributes)
  from map_of_SomeD [OF this] have "attributes = \<lparr>ea_latency_ms = None, ea_condition = None\<rparr>" "key \<in> edge_keys c"
    using assms by (force simp: plain_collector_def edge_keys_def)+
  with Some show ?thesis by simp
qed

lemma plain_remap:
  assumes "RemappedNodeCount old_to_new = Inr k" "deterministic topology (length old_to_new)" "deterministic topology' k"
    and adj: "\<And>a b x y. new_index old_to_new a = Some x \<Longrightarrow> new_index old_to_new b = Some y \<Longrightarrow>
      adjacent topology' k x y = adjacent topology (length old_to_new) a b"
    and c: "CollectEdges R topology (length old_to_new) \<lparr>ec_node_count = length old_to_new, ec_edges = []\<rparr> = Inr c"
  shows "\<exists>c'. CollectEdges R topology' k \<lparr>ec_node_count = k, ec_edges = []\<rparr> = Inr c' \<and> remaps old_to_new c c'"
proof -
  have empty: "plain_collector m \<lparr>ec_node_count = m, ec_edges = []\<rparr>"
    "edge_keys \<lparr>ec_node_count = m, ec_edges = []\<rparr> = {}" for m
    by (simp_all add: plain_collector_def edge_keys_def)
  obtain c' where c': "CollectEdges R topology' k \<lparr>ec_node_count = k, ec_edges = []\<rparr> = Inr c'"
    "plain_collector k c'" "edge_keys c' = {(a, b). a < k \<and> b < k \<and> adjacent topology' k a b}"
    using adds_deterministic [OF assms(3), of R] empty [of k] unfolding adds_def by fastforce
  have old: "plain_collector (length old_to_new) c"
    "edge_keys c = {(a, b). a < length old_to_new \<and> b < length old_to_new \<and> adjacent topology (length old_to_new) a b}"
    using adds_deterministic [OF assms(2), of R] empty [of "length old_to_new"] c unfolding adds_def by fastforce+
  have "remaps old_to_new c c'"
    unfolding remaps_def plain_lookup [OF c'(2)] plain_lookup [OF old(1)] c'(3) old(2)
    using adj new_index_less [OF assms(1)] by (auto simp: new_index_Some)
  with c'(1) show ?thesis by blast
qed

subsection \<open>Custom edges\<close>

lemma new_index_distinct:
  assumes "RemappedNodeCount old_to_new = Inr k" "new_index old_to_new a = Some x" "new_index old_to_new b = Some y" "a \<noteq> b"
  shows "x < k \<and> y < k \<and> x \<noteq> y"
  using new_index_less [OF assms(1,2)] new_index_less [OF assms(1,3)] new_index_inj [OF assms(1,2)] assms(3,4) by blast

lemma Collector_Add_remap:
  assumes k: "RemappedNodeCount old_to_new = Inr k" and c: "Collector_Add a b latency condition c = Inr c1"
    and r: "remaps old_to_new c c'" and n: "ec_node_count c' = k"
    and ab: "new_index old_to_new a = Some x" "new_index old_to_new b = Some y"
  shows "\<exists>c1'. Collector_Add x y latency condition c' = Inr c1' \<and> remaps old_to_new c1 c1' \<and> ec_node_count c1' = k"
proof -
  have look: "map_of (ec_edges c') (x, y) = map_of (ec_edges c) (a, b)"
    using r ab unfolding remaps_def by blast
  have xy: "x < k" "y < k" "x \<noteq> y"
    using new_index_distinct [OF k ab] c unfolding Collector_Add_iff by blast+
  have valid: "case condition of None \<Rightarrow> True | Some nc \<Rightarrow> ValidateNetworkCondition nc = Inr ()"
    using c unfolding Collector_Add_iff by blast
  let ?attributes = "\<lparr>ea_latency_ms = latency, ea_condition = condition\<rparr>"
  let ?c' = "c'\<lparr>ec_edges := smap_insert (x, y) ?attributes (ec_edges c')\<rparr>"
  consider "map_of (ec_edges c) (a, b) = Some ?attributes" "c1 = c"
    | "map_of (ec_edges c) (a, b) = None" "c1 = c\<lparr>ec_edges := smap_insert (a, b) ?attributes (ec_edges c)\<rparr>"
    using c unfolding Collector_Add_iff by (elim conjE disjE) simp_all
  then show ?thesis
  proof cases
    case 1
    then have "Collector_Add x y latency condition c' = Inr c'"
      unfolding Collector_Add_iff n using xy valid look by simp
    then show ?thesis using r n 1(2) by blast
  next
    case 2
    have "remaps old_to_new c1 ?c'"
      unfolding remaps_def
    proof (intro allI impI)
      fix a2 b2 x2 y2
      assume o: "new_index old_to_new a2 = Some x2" "new_index old_to_new b2 = Some y2"
      have "(x2, y2) = (x, y) \<longleftrightarrow> (a2, b2) = (a, b)" using o ab new_index_inj [OF k] by auto
      then show "map_of (ec_edges ?c') (x2, y2) = map_of (ec_edges c1) (a2, b2)"
        using r o 2(2) unfolding remaps_def by simp
    qed
    moreover have "Collector_Add x y latency condition c' = Inr ?c'"
      unfolding Collector_Add_iff n using xy valid look 2(1) by simp
    moreover have "ec_node_count ?c' = k" using n by simp
    ultimately show ?thesis by blast
  qed
qed

lemma Collector_Add_dropped:
  assumes "Collector_Add a b latency condition c = Inr c1" "remaps old_to_new c c'"
    and "new_index old_to_new a = None \<or> new_index old_to_new b = None"
  shows "remaps old_to_new c1 c'"
  using assms unfolding Collector_Add_iff remaps_def by auto

definition remapped_edge :: "nat option list \<Rightarrow> PeerTopologyEdge \<Rightarrow> PeerTopologyEdge option" where
  "remapped_edge old_to_new edge = (case (new_index old_to_new (te_from edge), new_index old_to_new (te_to edge)) of
     (Some x, Some y) \<Rightarrow> Some (edge\<lparr>te_from := x, te_to := y\<rparr>) | _ \<Rightarrow> None)"

lemma RemapEdge_loop:
  assumes "\<forall>edge\<in>set edges. te_from edge < length old_to_new \<and> te_to edge < length old_to_new"
  shows "fold_result (RemapEdge old_to_new) edges done = Inr (done @ List.map_filter (remapped_edge old_to_new) edges)"
  using assms
proof (induction edges arbitrary: "done")
  case (Cons edge edges)
  have "RemapEdge old_to_new edge done = Inr (case remapped_edge old_to_new edge of None \<Rightarrow> done | Some e \<Rightarrow> done @ [e])"
    using Cons.prems by (simp add: RemapEdge_def remapped_edge_def split: option.splits)
  then show ?case using Cons by (simp add: map_filter_simps split: option.splits)
qed (simp add: map_filter_simps)

lemma AddConfiguredEdge_remap:
  assumes k: "RemappedNodeCount old_to_new = Inr k" and c: "AddConfiguredEdge (length old_to_new) edge c = Inr c1"
    and r: "remaps old_to_new c c'" and n: "ec_node_count c' = k"
  shows "case remapped_edge old_to_new edge of
      None \<Rightarrow> remaps old_to_new c1 c'
    | Some edge' \<Rightarrow> \<exists>c1'. AddConfiguredEdge k edge' c' = Inr c1' \<and> remaps old_to_new c1 c1' \<and> ec_node_count c1' = k"
proof -
  let ?add = "\<lambda>a b. Collector_Add a b (te_latency_ms edge) (te_condition edge)"
  have ends: "te_from edge < length old_to_new" "te_to edge < length old_to_new" "te_from edge \<noteq> te_to edge"
    using c by (auto simp: AddConfiguredEdge_def split: if_splits)
  consider "\<not> te_active edge" "c1 = c"
    | c2 where "te_active edge" "?add (te_from edge) (te_to edge) c = Inr c2"
      "(if te_bidirectional edge then ?add (te_to edge) (te_from edge) c2 else Inr c2) = Inr c1"
    using c ends by (auto simp: AddConfiguredEdge_def result_simps split: if_splits)
  note steps = this
  show ?thesis
  proof (cases "remapped_edge old_to_new edge")
    case None
    then have d: "new_index old_to_new (te_from edge) = None \<or> new_index old_to_new (te_to edge) = None"
      by (auto simp: remapped_edge_def split: option.splits)
    from steps have "remaps old_to_new c1 c'"
    proof cases
      case 2
      then have "remaps old_to_new c2 c'" using Collector_Add_dropped [OF _ r d] by blast
      then show ?thesis using 2(3) d by (auto split: if_splits intro: Collector_Add_dropped)
    qed (use r in simp)
    with None show ?thesis by simp
  next
    case (Some edge')
    then obtain x y where xy: "new_index old_to_new (te_from edge) = Some x" "new_index old_to_new (te_to edge) = Some y"
      "edge' = edge\<lparr>te_from := x, te_to := y\<rparr>"
      by (auto simp: remapped_edge_def split: option.splits)
    have lt: "x < k" "y < k" "x \<noteq> y"
      using new_index_distinct [OF k xy(1,2) ends(3)] by blast+
    from steps have "\<exists>c1'. AddConfiguredEdge k edge' c' = Inr c1' \<and> remaps old_to_new c1 c1' \<and> ec_node_count c1' = k"
    proof cases
      case 1
      then show ?thesis using lt r n by (simp add: AddConfiguredEdge_def xy(3))
    next
      case 2
      obtain c2' where c2': "?add x y c' = Inr c2'" "remaps old_to_new c2 c2'" "ec_node_count c2' = k"
        using Collector_Add_remap [OF k 2(2) r n xy(1,2)] by blast
      show ?thesis
      proof (cases "te_bidirectional edge")
        case True
        then obtain c1' where "?add y x c2' = Inr c1'" "remaps old_to_new c1 c1'" "ec_node_count c1' = k"
          using Collector_Add_remap [OF k _ c2'(2,3) xy(2,1)] 2(3) by (metis (full_types))
        then show ?thesis using lt True c2'(1) 2(1) by (simp add: AddConfiguredEdge_def xy(3))
      next
        case False
        then show ?thesis using lt c2' 2 by (simp add: AddConfiguredEdge_def xy(3))
      qed
    qed
    with Some show ?thesis by simp
  qed
qed

lemma custom_remap:
  assumes k: "RemappedNodeCount old_to_new = Inr k"
  shows "fold_result (AddConfiguredEdge (length old_to_new)) edges c = Inr c1 \<Longrightarrow> remaps old_to_new c c' \<Longrightarrow>
    ec_node_count c' = k \<Longrightarrow>
    \<exists>c1'. fold_result (AddConfiguredEdge k) (List.map_filter (remapped_edge old_to_new) edges) c' = Inr c1' \<and>
      remaps old_to_new c1 c1'"
proof (induction edges arbitrary: c c')
  case (Cons edge edges)
  obtain c2 where c2: "AddConfiguredEdge (length old_to_new) edge c = Inr c2"
    "fold_result (AddConfiguredEdge (length old_to_new)) edges c2 = Inr c1"
    using Cons.prems(1) by (auto simp: result_simps)
  note step = AddConfiguredEdge_remap [OF k c2(1) Cons.prems(2,3)]
  show ?case
  proof (cases "remapped_edge old_to_new edge")
    case None
    then show ?thesis using step Cons.IH [OF c2(2)] Cons.prems(3) by (simp add: map_filter_simps)
  next
    case (Some edge')
    then obtain c2' where "AddConfiguredEdge k edge' c' = Inr c2'" "remaps old_to_new c2 c2'" "ec_node_count c2' = k"
      using step by auto
    then show ?thesis using Some Cons.IH [OF c2(2)] by (simp add: map_filter_simps)
  qed
qed (simp add: map_filter_simps)

lemma custom_in_range:
  "fold_result (AddConfiguredEdge n) edges c = Inr c1 \<Longrightarrow> \<forall>edge\<in>set edges. te_from edge < n \<and> te_to edge < n"
proof (induction edges arbitrary: c)
  case (Cons edge edges)
  then obtain c2 where c2: "AddConfiguredEdge n edge c = Inr c2" "fold_result (AddConfiguredEdge n) edges c2 = Inr c1"
    by (auto simp: result_simps)
  then have "te_from edge < n" "te_to edge < n" by (auto simp: AddConfiguredEdge_def split: if_splits)
  then show ?case using Cons.IH [OF c2(2)] by simp
qed simp

subsection \<open>Groups\<close>

definition remapped_members :: "nat option list \<Rightarrow> nat list \<Rightarrow> nat list" where
  "remapped_members old_to_new nodes = List.map_filter (new_index old_to_new) nodes"

lemma set_remapped_members: "x \<in> set (remapped_members old_to_new nodes) \<longleftrightarrow> (\<exists>a\<in>set nodes. new_index old_to_new a = Some x)"
  by (force simp: remapped_members_def List.map_filter_def)

lemma RemapMember_loop:
  assumes "\<forall>node\<in>set nodes. node < length old_to_new"
  shows "fold_result (RemapMember old_to_new) nodes members = Inr (members @ remapped_members old_to_new nodes)"
  using assms
proof (induction nodes arbitrary: members)
  case (Cons node nodes)
  then show ?case
    by (simp add: RemapMember_def remapped_members_def map_filter_simps split: option.splits)
qed (simp add: remapped_members_def map_filter_simps)

lemma RemapGroup_loop:
  assumes "\<forall>node\<in>set (concat groups). node < length old_to_new"
  shows "fold_result (RemapGroup old_to_new) groups done =
    Inr (done @ filter (\<lambda>g. g \<noteq> []) (map (remapped_members old_to_new) groups))"
  using assms
proof (induction groups arbitrary: "done")
  case (Cons g groups)
  have "RemapGroup old_to_new g done = Inr (if remapped_members old_to_new g = [] then done
      else done @ [remapped_members old_to_new g])"
    using Cons.prems by (simp add: RemapGroup_def RemapMember_loop)
  then show ?case using Cons by simp
qed simp

lemma remapped_members_distinct:
  assumes k: "RemappedNodeCount old_to_new = Inr k"
  shows "distinct (concat groups) \<Longrightarrow> distinct (concat (map (remapped_members old_to_new) groups))"
proof -
  assume "distinct (concat groups)"
  have "concat (map (remapped_members old_to_new) groups) = remapped_members old_to_new (concat groups)"
    by (induction groups) (simp_all add: remapped_members_def map_filter_def)
  moreover have "distinct (remapped_members old_to_new nodes)" if "distinct nodes" for nodes
    using that
  proof (induction nodes)
    case (Cons node nodes)
    then show ?case
      using new_index_inj [OF k] set_remapped_members [of _ old_to_new nodes]
      by (auto simp: remapped_members_def map_filter_simps split: option.splits)
  qed (simp add: remapped_members_def map_filter_simps)
  ultimately show ?thesis using \<open>distinct (concat groups)\<close> by simp
qed

lemma remapped_partition:
  assumes k: "RemappedNodeCount old_to_new = Inr k" "0 < k"
    and p: "RequireExactNodePartition groups (length old_to_new) field = Inr ()"
  shows "RequireExactNodePartition (filter (\<lambda>g. g \<noteq> []) (map (remapped_members old_to_new) groups)) k field = Inr ()"
proof -
  let ?groups = "map (remapped_members old_to_new) groups"
  have drop: "concat (filter (\<lambda>g. g \<noteq> []) ?groups) = concat ?groups"
    by (induction groups) simp_all
  have "set (concat groups) = {..<length old_to_new}" "distinct (concat groups)"
    using p unfolding RequireExactNodePartition_iff by blast+
  then have mem: "x \<in> set (concat ?groups) \<longleftrightarrow> (\<exists>a<length old_to_new. new_index old_to_new a = Some x)" for x
  proof -
    have "x \<in> set (concat ?groups) \<longleftrightarrow> (\<exists>a\<in>set (concat groups). new_index old_to_new a = Some x)"
      by (auto simp: set_remapped_members)
    then show ?thesis unfolding \<open>set (concat groups) = {..<length old_to_new}\<close> by (simp only: lessThan_iff Bex_def)
  qed
  have all: "set (concat ?groups) = {..<k}"
  proof (intro set_eqI iffI)
    fix x assume "x \<in> set (concat ?groups)"
    then show "x \<in> {..<k}" unfolding mem using new_index_less [OF k(1)] by auto
  next
    fix x assume "x \<in> {..<k}"
    then obtain a where "new_index old_to_new a = Some x" using new_index_onto [OF k(1)] by auto
    then show "x \<in> set (concat ?groups)" unfolding mem by (auto simp: new_index_Some)
  qed
  then have "concat (filter (\<lambda>g. g \<noteq> []) ?groups) \<noteq> []" unfolding drop using k(2) by (metis empty_iff empty_set lessThan_iff)
  moreover have "distinct (concat ?groups)" using remapped_members_distinct [OF k(1)] p
    unfolding RequireExactNodePartition_iff by blast
  moreover have "filter (\<lambda>g. g \<noteq> []) ?groups \<noteq> []" using calculation(1) by (metis concat.simps(1))
  ultimately show ?thesis unfolding RequireExactNodePartition_iff drop using all by (intro conjI) simp_all
qed

subsection \<open>Latency matrices\<close>

definition latency_attributes :: "nat \<Rightarrow> EdgeAttributes" where
  "latency_attributes latency = \<lparr>ea_latency_ms = Some latency,
     ea_condition = Some (DefaultNetworkCondition\<lparr>delay_ms := latency\<rparr>)\<rparr>"

definition cell_ok :: "nat option list list \<Rightarrow> nat \<Rightarrow> nat \<Rightarrow> bool" where
  "cell_ok matrix src dst \<longleftrightarrow> (if src = dst then matrix ! src ! dst \<in> {None, Some 0}
     else \<forall>latency. matrix ! src ! dst = Some latency \<longrightarrow>
       ValidateNetworkCondition (DefaultNetworkCondition\<lparr>delay_ms := latency\<rparr>) = Inr ())"

text \<open>The collector after the cells \<open>S\<close> of a matrix.\<close>

definition after_cells :: "nat \<Rightarrow> nat option list list \<Rightarrow> EdgeKey set \<Rightarrow> EdgeCollector \<Rightarrow> bool" where
  "after_cells n matrix S c \<longleftrightarrow> ec_node_count c = n \<and> (\<forall>a b. map_of (ec_edges c) (a, b) =
     (if (a, b) \<in> S \<and> a \<noteq> b then map_option latency_attributes (matrix ! a ! b) else None))"

abbreviation latency_cell :: "nat option list list \<Rightarrow> nat \<Rightarrow> nat \<Rightarrow> EdgeCollector \<Rightarrow> EdgeCollector result" where
  "latency_cell matrix src \<equiv> (\<lambda>dst c.
     if src = dst
     then if matrix ! src ! dst \<noteq> None \<and> matrix ! src ! dst \<noteq> Some 0
          then Inl (RuntimeError ''latency matrix diagonal must be null or zero'') else Inr c
     else case matrix ! src ! dst of
         None \<Rightarrow> Inr c
       | Some latency \<Rightarrow> Collector_Add src dst (matrix ! src ! dst)
           (Some (DefaultNetworkCondition\<lparr>delay_ms := latency\<rparr>)) c)"

lemma latency_cell_step:
  assumes a: "after_cells n matrix S c" and n: "src < n" "dst < n"
  shows "if cell_ok matrix src dst
    then \<exists>c'. latency_cell matrix src dst c = Inr c' \<and> after_cells n matrix (insert (src, dst) S) c'
    else \<exists>e. latency_cell matrix src dst c = Inl e"
proof (cases "src = dst \<or> matrix ! src ! dst = None")
  case True
  then have "after_cells n matrix (insert (src, dst) S) c" using a unfolding after_cells_def by auto
  then show ?thesis using True by (auto simp: cell_ok_def)
next
  case False
  then obtain latency where l: "src \<noteq> dst" "matrix ! src ! dst = Some latency" by auto
  let ?condition = "DefaultNetworkCondition\<lparr>delay_ms := latency\<rparr>"
  have step: "latency_cell matrix src dst c = Collector_Add src dst (Some latency) (Some ?condition) c"
    using l by simp
  show ?thesis
  proof (cases "ValidateNetworkCondition ?condition")
    case (Inl e)
    then have "\<exists>e. latency_cell matrix src dst c = Inl e"
      unfolding step using a n l by (simp add: Collector_Add_def after_cells_def)
    moreover have "\<not> cell_ok matrix src dst" using Inl l by (simp add: cell_ok_def)
    ultimately show ?thesis by simp
  next
    case (Inr u)
    let ?c = "if (src, dst) \<in> S then c else c\<lparr>ec_edges := smap_insert (src, dst) (latency_attributes latency) (ec_edges c)\<rparr>"
    have "latency_cell matrix src dst c = Inr ?c"
      unfolding step Collector_Add_iff using a n l Inr by (simp add: after_cells_def latency_attributes_def)
    moreover have "after_cells n matrix (insert (src, dst) S) ?c"
      using a l unfolding after_cells_def by auto
    moreover have "cell_ok matrix src dst" using Inr l by (simp add: cell_ok_def)
    ultimately show ?thesis by auto
  qed
qed

lemma latency_cells:
  assumes "after_cells n matrix S c" "src < n" "\<forall>dst\<in>set dsts. dst < n"
  shows "if \<forall>dst\<in>set dsts. cell_ok matrix src dst
    then \<exists>c'. fold_result (latency_cell matrix src) dsts c = Inr c' \<and> after_cells n matrix (S \<union> Pair src ` set dsts) c'
    else \<exists>e. fold_result (latency_cell matrix src) dsts c = Inl e"
  using assms(1,3)
proof (induction dsts arbitrary: S c)
  case (Cons dst dsts)
  show ?case
  proof (cases "cell_ok matrix src dst")
    case True
    then obtain c1 where c1: "latency_cell matrix src dst c = Inr c1" "after_cells n matrix (insert (src, dst) S) c1"
      using latency_cell_step [OF Cons.prems(1) assms(2), of dst] Cons.prems(2) by auto
    have f: "fold_result (latency_cell matrix src) (dst # dsts) c = fold_result (latency_cell matrix src) dsts c1"
      unfolding fold_result.simps c1(1) by simp
    have S: "insert (src, dst) S \<union> Pair src ` set dsts = S \<union> Pair src ` set (dst # dsts)" by auto
    have "(\<forall>x\<in>set (dst # dsts). cell_ok matrix src x) \<longleftrightarrow> (\<forall>x\<in>set dsts. cell_ok matrix src x)" using True by simp
    moreover have "\<forall>x\<in>set dsts. x < n" using Cons.prems(2) by simp
    note Cons.IH [OF c1(2) this]
    ultimately show ?thesis unfolding f S by (simp only:)
  next
    case False
    then obtain e where "latency_cell matrix src dst c = Inl e"
      using latency_cell_step [OF Cons.prems(1) assms(2), of dst] Cons.prems(2) by auto
    then have "fold_result (latency_cell matrix src) (dst # dsts) c = Inl e" unfolding fold_result.simps by simp
    with False show ?thesis by auto
  qed
qed simp

definition row_ok :: "nat \<Rightarrow> nat option list list \<Rightarrow> nat \<Rightarrow> bool" where
  "row_ok n matrix src \<longleftrightarrow> length (matrix ! src) = n \<and> (\<forall>dst<n. cell_ok matrix src dst)"

lemma after_row:
  assumes "after_cells n matrix S c" "src < n"
  shows "if row_ok n matrix src
    then \<exists>c'. AddLatencyRow n matrix src c = Inr c' \<and> after_cells n matrix (S \<union> Pair src ` {..<n}) c'
    else \<exists>e. AddLatencyRow n matrix src c = Inl e"
proof (cases "length (matrix ! src) = n")
  case True
  then have "AddLatencyRow n matrix src c = fold_result (latency_cell matrix src) [0..<n] c"
    by (simp add: AddLatencyRow_def Let_def)
  moreover have "row_ok n matrix src \<longleftrightarrow> (\<forall>dst\<in>set [0..<n]. cell_ok matrix src dst)"
    using True by (auto simp: row_ok_def)
  moreover have "set [0..<n] = {..<n}" "\<forall>dst\<in>set [0..<n]. dst < n" by auto
  note latency_cells [OF assms this(2), unfolded this(1)]
  ultimately show ?thesis by (simp only: set_upt atLeast0LessThan)
qed (simp add: row_ok_def AddLatencyRow_def Let_def)

lemma after_rows:
  assumes "after_cells n matrix S c" "\<forall>src\<in>set srcs. src < n"
  shows "if \<forall>src\<in>set srcs. row_ok n matrix src
    then \<exists>c'. fold_result (AddLatencyRow n matrix) srcs c = Inr c' \<and> after_cells n matrix (S \<union> set srcs \<times> {..<n}) c'
    else \<exists>e. fold_result (AddLatencyRow n matrix) srcs c = Inl e"
  using assms
proof (induction srcs arbitrary: S c)
  case (Cons src srcs)
  show ?case
  proof (cases "row_ok n matrix src")
    case True
    then obtain c1 where c1: "AddLatencyRow n matrix src c = Inr c1" "after_cells n matrix (S \<union> Pair src ` {..<n}) c1"
      using after_row [OF Cons.prems(1), of src] Cons.prems(2) by auto
    have f: "fold_result (AddLatencyRow n matrix) (src # srcs) c = fold_result (AddLatencyRow n matrix) srcs c1"
      by (simp add: c1(1))
    have S: "S \<union> Pair src ` {..<n} \<union> set srcs \<times> {..<n} = S \<union> set (src # srcs) \<times> {..<n}" by auto
    have "(\<forall>x\<in>set (src # srcs). row_ok n matrix x) \<longleftrightarrow> (\<forall>x\<in>set srcs. row_ok n matrix x)" using True by simp
    moreover have "\<forall>x\<in>set srcs. x < n" using Cons.prems(2) by simp
    note Cons.IH [OF c1(2) this]
    ultimately show ?thesis unfolding f S by (simp only:)
  next
    case False
    then obtain e where "AddLatencyRow n matrix src c = Inl e"
      using after_row [OF Cons.prems(1), of src] Cons.prems(2) by auto
    with False show ?thesis by simp
  qed
qed simp

lemma latency_matrix:
  assumes "tc_kind topology = kLatencyMatrix" "tc_latency_matrix_ms topology = matrix"
  shows "CollectEdges R topology n \<lparr>ec_node_count = n, ec_edges = []\<rparr> = Inr c \<Longrightarrow>
      length matrix = n \<and> (\<forall>src<n. row_ok n matrix src) \<and> after_cells n matrix ({..<n} \<times> {..<n}) c"
    and "length matrix = n \<Longrightarrow> \<forall>src<n. row_ok n matrix src \<Longrightarrow>
      \<exists>c. CollectEdges R topology n \<lparr>ec_node_count = n, ec_edges = []\<rparr> = Inr c \<and> after_cells n matrix ({..<n} \<times> {..<n}) c"
proof -
  have S: "set [0..<n] = {..<n}" "{} \<union> {..<n} \<times> {..<n} = {..<n} \<times> {..<n}"
    "(\<forall>src\<in>{..<n}. row_ok n matrix src) \<longleftrightarrow> (\<forall>src<n. row_ok n matrix src)" "\<forall>src\<in>{..<n}. src < n" by auto
  have "after_cells n matrix {} \<lparr>ec_node_count = n, ec_edges = []\<rparr>" by (simp add: after_cells_def)
  note after_rows [OF this, of "[0..<n]", unfolded S(1), OF S(4), unfolded S(2,3)]
  then have rows: "if \<forall>src<n. row_ok n matrix src
    then \<exists>c'. fold_result (AddLatencyRow n matrix) [0..<n] \<lparr>ec_node_count = n, ec_edges = []\<rparr> = Inr c' \<and>
      after_cells n matrix ({..<n} \<times> {..<n}) c'
    else \<exists>e. fold_result (AddLatencyRow n matrix) [0..<n] \<lparr>ec_node_count = n, ec_edges = []\<rparr> = Inl e" .
  show "CollectEdges R topology n \<lparr>ec_node_count = n, ec_edges = []\<rparr> = Inr c \<Longrightarrow>
      length matrix = n \<and> (\<forall>src<n. row_ok n matrix src) \<and> after_cells n matrix ({..<n} \<times> {..<n}) c"
    using rows assms by (auto simp: CollectEdges_def split: if_splits)
  show "length matrix = n \<Longrightarrow> \<forall>src<n. row_ok n matrix src \<Longrightarrow>
      \<exists>c. CollectEdges R topology n \<lparr>ec_node_count = n, ec_edges = []\<rparr> = Inr c \<and> after_cells n matrix ({..<n} \<times> {..<n}) c"
    using rows assms by (simp add: CollectEdges_def)
qed

lemma fold_result_snoc:
  assumes "\<And>x acc. x \<in> set xs \<Longrightarrow> f x acc = Inr (acc @ [g x])"
  shows "fold_result f xs acc = Inr (acc @ map g xs)"
  using assms by (induction xs arbitrary: acc) simp_all

lemma RetainedOldNodes_spec:
  assumes k: "RemappedNodeCount old_to_new = Inr k"
  shows "length (RetainedOldNodes old_to_new k) = k"
    and "new_index old_to_new i = Some j \<Longrightarrow> RetainedOldNodes old_to_new k ! j = i"
proof -
  let ?nodes = "\<lambda>m. fold (\<lambda>old nodes. case old_to_new ! old of None \<Rightarrow> nodes | Some node \<Rightarrow> nodes[node := old])
     [0..<m] (replicate k 0)"
  have len: "length (?nodes m) = k" for m by (induction m) (auto split: option.splits)
  have at: "?nodes m ! j = i"
    if "i < m" "m \<le> length old_to_new" "old_to_new ! i = Some j" "j < k" for m i j
    using that
  proof (induction m)
    case (Suc m)
    show ?case
    proof (cases "i = m")
      case True
      then show ?thesis using Suc.prems len [of m] by simp
    next
      case False
      have "old_to_new ! m \<noteq> Some j"
        using new_index_inj [OF k, of i j m] Suc.prems False by (auto simp: new_index_Some)
      then show ?thesis using Suc False by (auto split: option.splits)
    qed
  qed simp
  show "length (RetainedOldNodes old_to_new k) = k" using len by (simp add: RetainedOldNodes_def)
  show "new_index old_to_new i = Some j \<Longrightarrow> RetainedOldNodes old_to_new k ! j = i"
    using at [of i "length old_to_new" j] new_index_less [OF k, of i j]
    by (simp add: RetainedOldNodes_def new_index_Some)
qed

lemma RetainedOldNodes_less:
  assumes "RemappedNodeCount old_to_new = Inr k" "j < k"
  shows "RetainedOldNodes old_to_new k ! j < length old_to_new"
    "new_index old_to_new (RetainedOldNodes old_to_new k ! j) = Some j"
proof -
  obtain i where i: "new_index old_to_new i = Some j" using new_index_onto [OF assms] .
  then have "RetainedOldNodes old_to_new k ! j = i" by (rule RetainedOldNodes_spec(2) [OF assms(1)])
  with i show "RetainedOldNodes old_to_new k ! j < length old_to_new"
    "new_index old_to_new (RetainedOldNodes old_to_new k ! j) = Some j" by (simp_all add: new_index_Some)
qed

definition remapped_matrix :: "nat option list \<Rightarrow> nat \<Rightarrow> nat option list list \<Rightarrow> nat option list list" where
  "remapped_matrix old_to_new k matrix = map (\<lambda>x. map (\<lambda>y.
     matrix ! (RetainedOldNodes old_to_new k ! x) ! (RetainedOldNodes old_to_new k ! y)) [0..<k]) [0..<k]"

lemma RemapLatencyRow_loop:
  assumes k: "RemappedNodeCount old_to_new = Inr k"
    and m: "length matrix = length old_to_new" "\<forall>src<length old_to_new. length (matrix ! src) = length old_to_new"
  shows "fold_result (RemapLatencyRow matrix (RetainedOldNodes old_to_new k) k) [0..<k] [] = Inr (remapped_matrix old_to_new k matrix)"
proof -
  let ?old = "RetainedOldNodes old_to_new k"
  have cells: "fold_result (RemapLatencyCell (matrix ! (?old ! x)) ?old) [0..<k] [] =
      Inr ([] @ map (\<lambda>y. matrix ! (?old ! x) ! (?old ! y)) [0..<k])" if "x < k" for x
  proof (rule fold_result_snoc)
    fix y acc assume "y \<in> set [0..<k]"
    then show "RemapLatencyCell (matrix ! (?old ! x)) ?old y acc = Inr (acc @ [matrix ! (?old ! x) ! (?old ! y)])"
      using RetainedOldNodes_less(1) [OF k, of x] RetainedOldNodes_less(1) [OF k, of y] that m(2)
      by (simp add: RemapLatencyCell_def)
  qed
  have "fold_result (RemapLatencyRow matrix ?old k) [0..<k] [] =
      Inr ([] @ map (\<lambda>x. map (\<lambda>y. matrix ! (?old ! x) ! (?old ! y)) [0..<k]) [0..<k])"
  proof (rule fold_result_snoc)
    fix x acc assume "x \<in> set [0..<k]"
    then show "RemapLatencyRow matrix ?old k x acc = Inr (acc @ [map (\<lambda>y. matrix ! (?old ! x) ! (?old ! y)) [0..<k]])"
      using RetainedOldNodes_less(1) [OF k, of x] m(1) cells [of x] by (simp add: RemapLatencyRow_def)
  qed
  then show ?thesis by (simp add: remapped_matrix_def)
qed

lemma latency_remap:
  assumes k: "RemappedNodeCount old_to_new = Inr k" and kind: "tc_kind topology = kLatencyMatrix"
    and c: "CollectEdges R topology (length old_to_new) \<lparr>ec_node_count = length old_to_new, ec_edges = []\<rparr> = Inr c"
  shows "\<exists>matrix c'. fold_result (RemapLatencyRow (tc_latency_matrix_ms topology) (RetainedOldNodes old_to_new k) k) [0..<k] []
      = Inr matrix \<and>
    CollectEdges R (topology\<lparr>tc_latency_matrix_ms := matrix\<rparr>) k \<lparr>ec_node_count = k, ec_edges = []\<rparr> = Inr c' \<and>
    remaps old_to_new c c'"
proof -
  let ?n = "length old_to_new" and ?M = "tc_latency_matrix_ms topology" and ?old = "RetainedOldNodes old_to_new k"
  let ?M' = "remapped_matrix old_to_new k ?M"
  have old: "length ?M = ?n" "\<forall>src<?n. row_ok ?n ?M src" "after_cells ?n ?M ({..<?n} \<times> {..<?n}) c"
    using latency_matrix(1) [OF kind refl c] by blast+
  have cell: "?M' ! x ! y = ?M ! (?old ! x) ! (?old ! y)" if "x < k" "y < k" for x y
    using that by (simp add: remapped_matrix_def)
  have inj: "?old ! x = ?old ! y \<longleftrightarrow> x = y" if "x < k" "y < k" for x y
    using RetainedOldNodes_less(2) [OF k that(1)] RetainedOldNodes_less(2) [OF k that(2)] by (metis option.inject)
  have "row_ok k ?M' x" if "x < k" for x
  proof -
    have "cell_ok ?M' x y" if "y < k" for y
    proof -
      have "cell_ok ?M (?old ! x) (?old ! y)"
        using old(2) RetainedOldNodes_less(1) [OF k \<open>x < k\<close>] RetainedOldNodes_less(1) [OF k that] by (simp add: row_ok_def)
      then show ?thesis unfolding cell_ok_def cell [OF \<open>x < k\<close> that] inj [OF \<open>x < k\<close> that] .
    qed
    then show ?thesis using that by (simp add: row_ok_def remapped_matrix_def)
  qed
  moreover have "length ?M' = k" by (simp add: remapped_matrix_def)
  ultimately obtain c' where c': "CollectEdges R (topology\<lparr>tc_latency_matrix_ms := ?M'\<rparr>) k \<lparr>ec_node_count = k, ec_edges = []\<rparr> = Inr c'"
    "after_cells k ?M' ({..<k} \<times> {..<k}) c'"
    using latency_matrix(2) [of "topology\<lparr>tc_latency_matrix_ms := ?M'\<rparr>" ?M' k R] kind by auto
  have "remaps old_to_new c c'"
    unfolding remaps_def
  proof (intro allI impI)
    fix a b x y assume ab: "new_index old_to_new a = Some x" "new_index old_to_new b = Some y"
    then have "x < k" "y < k" "?old ! x = a" "?old ! y = b" "a < ?n" "b < ?n"
      using new_index_less [OF k] RetainedOldNodes_spec(2) [OF k] by (auto simp: new_index_Some)
    then show "map_of (ec_edges c') (x, y) = map_of (ec_edges c) (a, b)"
      using old(3) c'(2) cell [of x y] inj [of x y] unfolding after_cells_def by simp
  qed
  moreover have "fold_result (RemapLatencyRow ?M ?old k) [0..<k] [] = Inr ?M'"
    using old(1,2) by (intro RemapLatencyRow_loop [OF k]) (auto simp: row_ok_def)
  ultimately show ?thesis using c'(1) by blast
qed

subsection \<open>Removing nodes keeps the edges between the others\<close>

text \<open>The kinds whose edges a removal leaves alone: a ring is closed again, random graphs are
  drawn again, a region gets another gateway, and a star without its centre gets a new one.\<close>

definition keeps_shape :: "PeerTopologyConfig \<Rightarrow> nat option list \<Rightarrow> bool" where
  "keeps_shape topology old_to_new \<longleftrightarrow>
     tc_kind topology \<in> {kFullMesh, kCustomEdgeList, kPartitionedGroups, kLatencyMatrix} \<or>
     tc_kind topology = kStar \<and> new_index old_to_new (tc_star_center topology) \<noteq> None"

definition corresponds ::
    "'g rng \<Rightarrow> PeerTopologyConfig \<Rightarrow> nat option list \<Rightarrow> nat \<Rightarrow> EdgeCollector \<Rightarrow> bool" where
  "corresponds R topology old_to_new k c \<longleftrightarrow> (\<exists>topology' c'. RemapPeerTopologyConfig topology old_to_new = Inr topology' \<and>
     CollectEdges R topology' k \<lparr>ec_node_count = k, ec_edges = []\<rparr> = Inr c' \<and> remaps old_to_new c c')"

lemma full_mesh_corresponds:
  assumes k: "RemappedNodeCount old_to_new = Inr k" "0 < k" and kind: "tc_kind topology = kFullMesh"
    and c: "CollectEdges R topology (length old_to_new) \<lparr>ec_node_count = length old_to_new, ec_edges = []\<rparr> = Inr c"
  shows "corresponds R topology old_to_new k c"
proof -
  have "RemapPeerTopologyConfig topology old_to_new = Inr topology" using k kind by (simp add: RemapPeerTopologyConfig_def)
  moreover have "adjacent topology k x y = adjacent topology (length old_to_new) a b"
    if "new_index old_to_new a = Some x" "new_index old_to_new b = Some y" for a b x y
    using that new_index_inj [OF k(1)] kind unfolding adjacent_def by auto
  ultimately show ?thesis
    unfolding corresponds_def using plain_remap [OF k(1) _ _ _ c, of topology] kind by (auto simp: deterministic_def)
qed

lemma star_corresponds:
  assumes k: "RemappedNodeCount old_to_new = Inr k" "0 < k" and kind: "tc_kind topology = kStar"
    and center: "new_index old_to_new (tc_star_center topology) = Some center"
    and c: "CollectEdges R topology (length old_to_new) \<lparr>ec_node_count = length old_to_new, ec_edges = []\<rparr> = Inr c"
  shows "corresponds R topology old_to_new k c"
proof -
  let ?t = "topology\<lparr>tc_star_center := center\<rparr>"
  have lt: "tc_star_center topology < length old_to_new" "center < k"
    using center new_index_less [OF k(1)] by (simp_all add: new_index_Some)
  have "RemapPeerTopologyConfig topology old_to_new = Inr ?t" using k kind center lt by (simp add: RemapPeerTopologyConfig_def)
  moreover have "adjacent ?t k x y = adjacent topology (length old_to_new) a b"
    if ab: "new_index old_to_new a = Some x" "new_index old_to_new b = Some y" for a b x y
  proof -
    have "(x = y \<longleftrightarrow> a = b) \<and> (x = center \<longleftrightarrow> a = tc_star_center topology) \<and> (y = center \<longleftrightarrow> b = tc_star_center topology)"
      using ab center new_index_inj [OF k(1)] by (metis option.inject)
    then show ?thesis using kind unfolding adjacent_def by simp
  qed
  ultimately show ?thesis
    unfolding corresponds_def using plain_remap [OF k(1) _ _ _ c, of ?t] kind lt by (auto simp: deterministic_def)
qed

lemma groups_corresponds:
  assumes k: "RemappedNodeCount old_to_new = Inr k" "0 < k" and kind: "tc_kind topology = kPartitionedGroups"
    and c: "CollectEdges R topology (length old_to_new) \<lparr>ec_node_count = length old_to_new, ec_edges = []\<rparr> = Inr c"
  shows "corresponds R topology old_to_new k c"
proof -
  let ?groups = "filter (\<lambda>g. g \<noteq> []) (map (remapped_members old_to_new) (tc_groups topology))"
  let ?t = "topology\<lparr>tc_groups := ?groups\<rparr>"
  have p: "RequireExactNodePartition (tc_groups topology) (length old_to_new) ''peer topology groups'' = Inr ()"
    using c kind by (auto simp: CollectEdges_def result_simps)
  then have "\<forall>node\<in>set (concat (tc_groups topology)). node < length old_to_new"
    unfolding RequireExactNodePartition_iff by blast
  from RemapGroup_loop [OF this, of "[]"] have "RemapPeerTopologyConfig topology old_to_new = Inr ?t"
    using k kind by (simp add: RemapPeerTopologyConfig_def)
  moreover have "adjacent ?t k x y = adjacent topology (length old_to_new) a b"
    if ab: "new_index old_to_new a = Some x" "new_index old_to_new b = Some y" for a b x y
  proof -
    have "x = y \<longleftrightarrow> a = b" using ab new_index_inj [OF k(1)] by (metis option.inject)
    moreover have mem: "x \<in> set (remapped_members old_to_new g) \<longleftrightarrow> a \<in> set g"
      "y \<in> set (remapped_members old_to_new g) \<longleftrightarrow> b \<in> set g" for g
      using ab new_index_inj [OF k(1)] unfolding set_remapped_members by metis+
    have "(\<exists>g\<in>set ?groups. x \<in> set g \<and> y \<in> set g) \<longleftrightarrow>
        (\<exists>g\<in>set (tc_groups topology). x \<in> set (remapped_members old_to_new g) \<and> y \<in> set (remapped_members old_to_new g))"
      by fastforce
    ultimately show ?thesis using kind mem unfolding adjacent_def by simp
  qed
  ultimately show ?thesis
    unfolding corresponds_def using plain_remap [OF k(1) _ _ _ c, of ?t] kind p remapped_partition [OF k p]
    by (auto simp: deterministic_def)
qed

lemma custom_corresponds:
  assumes k: "RemappedNodeCount old_to_new = Inr k" "0 < k" and kind: "tc_kind topology = kCustomEdgeList"
    and c: "CollectEdges R topology (length old_to_new) \<lparr>ec_node_count = length old_to_new, ec_edges = []\<rparr> = Inr c"
  shows "corresponds R topology old_to_new k c"
proof -
  let ?empty = "\<lparr>ec_node_count = length old_to_new, ec_edges = []\<rparr>" and ?empty' = "\<lparr>ec_node_count = k, ec_edges = []\<rparr>"
  have f: "fold_result (AddConfiguredEdge (length old_to_new)) (tc_edges topology) ?empty = Inr c"
    using c kind by (simp add: CollectEdges_def)
  have "remaps old_to_new ?empty ?empty'" by (simp add: remaps_def)
  from custom_remap [OF k(1) f this] obtain c' where
    "fold_result (AddConfiguredEdge k) (List.map_filter (remapped_edge old_to_new) (tc_edges topology)) ?empty' = Inr c'"
    "remaps old_to_new c c'" by auto
  then show ?thesis
    unfolding corresponds_def
    using RemapEdge_loop [OF custom_in_range [OF f], of "[]"] k kind
    by (simp add: RemapPeerTopologyConfig_def CollectEdges_def)
qed

lemma latency_corresponds:
  assumes k: "RemappedNodeCount old_to_new = Inr k" "0 < k" and kind: "tc_kind topology = kLatencyMatrix"
    and c: "CollectEdges R topology (length old_to_new) \<lparr>ec_node_count = length old_to_new, ec_edges = []\<rparr> = Inr c"
  shows "corresponds R topology old_to_new k c"
  using latency_remap [OF k(1) kind c] k kind unfolding corresponds_def by (auto simp: RemapPeerTopologyConfig_def)

text \<open>C24. Removing nodes keeps the rest of the network as it is: for a full mesh, a star that
  keeps its centre, a custom edge list, partitioned groups and a latency matrix, the remapped
  configuration resolves, without an exception, to exactly the old edges between the retained
  nodes, at their new indexes and with their latency and condition.\<close>

theorem remap_keeps_edges:
  assumes "ResolvePeerTopologyEdges R topology (length old_to_new) = Inr edges"
    and "RemappedNodeCount old_to_new = Inr k" "0 < k" and "keeps_shape topology old_to_new"
  shows "\<exists>topology' edges'. RemapPeerTopologyConfig topology old_to_new = Inr topology' \<and>
    ResolvePeerTopologyEdges R topology' k = Inr edges' \<and> set edges' = remapped_edges old_to_new edges"
proof -
  obtain c where c: "CollectEdges R topology (length old_to_new) \<lparr>ec_node_count = length old_to_new, ec_edges = []\<rparr> = Inr c"
    "edges = Collector_Resolve c" "wf_collector (length old_to_new) c"
    using ResolvePeerTopologyEdges_Inr [OF assms(1)] by metis
  have "corresponds R topology old_to_new k c"
    using assms(4) full_mesh_corresponds [OF assms(2,3) _ c(1)] star_corresponds [OF assms(2,3) _ _ c(1)]
      groups_corresponds [OF assms(2,3) _ c(1)] custom_corresponds [OF assms(2,3) _ c(1)]
      latency_corresponds [OF assms(2,3) _ c(1)] unfolding keeps_shape_def by blast
  then show ?thesis
    unfolding corresponds_def c(2) using remap_resolves [OF assms(2,3) c(3)] by metis
qed

subsection \<open>The state of the surviving edges\<close>

lemma RemappedEdge_new_index:
  assumes "wf_runtime previous" "rt_node_count previous = length old_to_new" "edge \<in> set (rt_edges previous)"
  shows "(key, old) \<in> set (RemappedEdge old_to_new edge) \<longleftrightarrow> old = edge \<and>
    new_index old_to_new (rx_from edge) = Some (fst key) \<and> new_index old_to_new (rx_to edge) = Some (snd key)"
proof -
  have "rx_from edge < length old_to_new" "rx_to edge < length old_to_new"
    using assms by (auto simp: wf_runtime_def edges_ok_def edge_ok_def list_all_iff)
  then show ?thesis
    by (cases key) (auto simp: RemappedEdge_def new_index_def split: option.splits)
qed

lemma remapped_predecessor:
  assumes wf: "wf_runtime previous" and n: "rt_node_count previous = length old_to_new"
    and k: "RemappedNodeCount old_to_new = Inr k" and old: "old \<in> set (rt_edges previous)"
    and ends: "new_index old_to_new (rx_from old) = Some x" "new_index old_to_new (rx_to old) = Some y"
  shows "map_of (concat (map (RemappedEdge old_to_new) (rt_edges previous))) (x, y) = Some old"
proof -
  let ?list = "concat (map (RemappedEdge old_to_new) (rt_edges previous))"
  have mem: "(key, e) \<in> set ?list \<longleftrightarrow> e \<in> set (rt_edges previous) \<and>
      new_index old_to_new (rx_from e) = Some (fst key) \<and> new_index old_to_new (rx_to e) = Some (snd key)" for key e
    using RemappedEdge_new_index [OF wf n] by auto
  have "((x, y), old) \<in> set ?list" unfolding mem using old ends by simp
  then obtain e where e: "map_of ?list (x, y) = Some e" by (metis map_of_eq_None_iff not_Some_eq image_eqI fst_conv)
  have "e \<in> set (rt_edges previous)" "new_index old_to_new (rx_from e) = Some x" "new_index old_to_new (rx_to e) = Some y"
    using map_of_SomeD [OF e] unfolding mem by simp_all
  then have "edge_key e = edge_key old"
    using new_index_inj [OF k] ends by (metis edge_key_def)
  moreover have "distinct (map edge_key (rt_edges previous))"
    using wf sorted_keys_distinct_edges by (simp add: wf_runtime_def edges_ok_def)
  ultimately have "e = old" using \<open>e \<in> set (rt_edges previous)\<close> old by (metis distinct_map inj_on_eq_iff)
  with e show ?thesis by simp
qed

text \<open>C25. When the topology of a shrunken network takes over the state of the one before, it
  stays well formed with the same edges, and every edge whose two nodes survived is active,
  and conditioned, exactly as the operators left it.\<close>

theorem removal_keeps_edge_states:
  assumes wf: "wf_runtime previous" "wf_runtime topology" and k: "RemappedNodeCount old_to_new = Inr k"
    and r: "PreserveRemappedStateFrom previous old_to_new topology = (topology', Inr ())"
  shows "wf_runtime topology' \<and> map edge_key (rt_edges topology') = map edge_key (rt_edges topology) \<and>
    (\<forall>edge\<in>set (rt_edges topology'). \<forall>old\<in>set (rt_edges previous).
       new_index old_to_new (rx_from old) = Some (rx_from edge) \<and> new_index old_to_new (rx_to old) = Some (rx_to edge) \<longrightarrow>
       rx_active edge = rx_active old \<and> rx_condition edge = rx_condition old)"
proof -
  let ?previous = "map_of (concat (map (RemappedEdge old_to_new) (rt_edges previous)))"
  have n: "rt_node_count previous = length old_to_new" and p: "PreserveStateFrom ?previous topology = (topology', Inr ())"
    using r by (auto simp: PreserveRemappedStateFrom_def split: if_splits)
  have prev: "condition_ok e" if "?previous key = Some e" for key e
    using map_of_SomeD [OF that] wf_runtime_conditions [OF wf(1)]
    by (auto simp: RemappedEdge_def split: option.splits)
  have "wf_runtime topology' \<and> (Inr () = (Inr () :: unit result) \<longrightarrow>
      map edge_key (rt_edges topology') = map edge_key (rt_edges topology) \<and>
      map rx_active (rt_edges topology') = map (\<lambda>e. rx_active (carry_over ?previous e)) (rt_edges topology) \<and>
      map rx_condition (rt_edges topology') = map (\<lambda>e. rx_condition (carry_over ?previous e)) (rt_edges topology))"
    by (rule PreserveStateFrom_wf [OF wf(2) prev p])
  then have same: "wf_runtime topology'" "map edge_key (rt_edges topology') = map edge_key (rt_edges topology)"
    "map rx_active (rt_edges topology') = map (\<lambda>e. rx_active (carry_over ?previous e)) (rt_edges topology)"
    "map rx_condition (rt_edges topology') = map (\<lambda>e. rx_condition (carry_over ?previous e)) (rt_edges topology)"
    by simp_all
  have "rx_active edge = rx_active old \<and> rx_condition edge = rx_condition old"
    if edge: "edge \<in> set (rt_edges topology')" and old: "old \<in> set (rt_edges previous)"
      "new_index old_to_new (rx_from old) = Some (rx_from edge)" "new_index old_to_new (rx_to old) = Some (rx_to edge)" for edge old
  proof -
    obtain i where i: "i < length (rt_edges topology')" "rt_edges topology' ! i = edge"
      using edge by (auto simp: in_set_conv_nth)
    have len: "length (rt_edges topology) = length (rt_edges topology')" using same(2) by (metis length_map)
    let ?e = "rt_edges topology ! i"
    have "edge_key edge = edge_key ?e" using same(2) i len by (metis nth_map)
    then have "?previous (rx_from ?e, rx_to ?e) = Some old"
      using remapped_predecessor [OF wf(1) n k old] by (simp add: edge_key_def)
    then have "carry_over ?previous ?e = ?e\<lparr>rx_active := rx_active old, rx_condition := rx_condition old, rx_band := rx_band old\<rparr>"
      by (simp add: carry_over_def)
    moreover have "rx_active edge = rx_active (carry_over ?previous ?e)" "rx_condition edge = rx_condition (carry_over ?previous ?e)"
      using arg_cong [OF same(3), of "\<lambda>l. l ! i"] arg_cong [OF same(4), of "\<lambda>l. l ! i"] i len by simp_all
    ultimately show ?thesis by simp
  qed
  then show ?thesis using same(1,2) by blast
qed

subsection \<open>Examples\<close>

text \<open>Three nodes, groups \<open>{0, 2}\<close> and \<open>{1}\<close>; node 1 leaves.\<close>

lemma example_remap_count: "RemappedNodeCount [Some 0, None, Some 1] = Inr 2"
  by code_simp

lemma remapped_edges_simps:
  "remapped_edges old_to_new [] = {}"
  "remapped_edges old_to_new (edge # edges) =
     (case (new_index old_to_new (rp_from edge), new_index old_to_new (rp_to edge)) of
        (Some x, Some y) \<Rightarrow> insert (edge\<lparr>rp_from := x, rp_to := y\<rparr>) (remapped_edges old_to_new edges)
      | _ \<Rightarrow> remapped_edges old_to_new edges)"
  by (auto simp: remapped_edges_def split: option.splits)

theorem remap_keeps_edges_witness:
  "\<exists>topology' edges'. RemapPeerTopologyConfig example_groups [Some 0, None, Some 1] = Inr topology' \<and>
    ResolvePeerTopologyEdges high_rng topology' 2 = Inr edges' \<and>
    set edges' = {\<lparr>rp_from = 0, rp_to = 1, rp_latency_ms = None, rp_condition = None\<rparr>,
      \<lparr>rp_from = 1, rp_to = 0, rp_latency_ms = None, rp_condition = None\<rparr>}"
proof -
  let ?edges = "[\<lparr>rp_from = 0, rp_to = 2, rp_latency_ms = None, rp_condition = None\<rparr>,
    \<lparr>rp_from = 2, rp_to = 0, rp_latency_ms = None, rp_condition = None\<rparr>]"
  have e: "ResolvePeerTopologyEdges high_rng example_groups (length [Some (0 :: nat), None, Some 1]) = Inr ?edges"
    by code_simp
  have s: "keeps_shape example_groups [Some 0, None, Some 1]"
    by (simp add: keeps_shape_def example_groups_def DefaultPeerTopologyConfig_def)
  have "remapped_edges [Some 0, None, Some 1] ?edges = {\<lparr>rp_from = 0, rp_to = 1, rp_latency_ms = None, rp_condition = None\<rparr>,
      \<lparr>rp_from = 1, rp_to = 0, rp_latency_ms = None, rp_condition = None\<rparr>}"
    by (simp add: remapped_edges_simps new_index_def)
  then show ?thesis
    using remap_keeps_edges [OF e example_remap_count _ s] by simp
qed

theorem removal_keeps_edge_states_witness:
  "wf_runtime (fst (PreserveRemappedStateFrom example_runtime [Some 1, Some 0] example_runtime))"
proof -
  have "RemappedNodeCount [Some 1, Some 0] = Inr 2" by code_simp
  moreover have "\<exists>topology'. PreserveRemappedStateFrom example_runtime [Some 1, Some 0] example_runtime = (topology', Inr ())"
    by (simp add: PreserveRemappedStateFrom_def PreserveStateFrom_def example_runtime_def example_edge_def Let_def
        RemappedEdge_def carry_over_def occupies_def AllocateDirectionalBand_def kMaximumDirectionalBands_def
        numeral_2_eq_2)
  ultimately show ?thesis
    using removal_keeps_edge_states [OF example_runtime_wf example_runtime_wf] by (metis fst_conv)
qed

text \<open>Regions \<open>{0}\<close>, \<open>{1}\<close> and \<open>{2}\<close>, with one region edge, between the first two. No edge
  leads to node 2.\<close>

definition example_regions :: PeerTopologyConfig where
  "example_regions = DefaultPeerTopologyConfig\<lparr>tc_kind := kInternetLikeRegionGraph, tc_regions := [[0], [1], [2]],
     tc_region_edges := [\<lparr>re_from_region = 0, re_to_region = 1, re_bidirectional = True, re_active = True,
       re_latency_ms = None, re_condition = None\<rparr>]\<rparr>"

text \<open>Removing node 1 drops the only region edge, and the empty list of region edges stands for
  a mesh of all regions: the two nodes left, unconnected before, are connected afterwards.\<close>

lemma region_remap_connects:
  "map_sum id (map edge_pair) (ResolvePeerTopologyEdges high_rng example_regions 3) = Inr [(0, 1), (1, 0)]"
  "map_sum id (map edge_pair) (bind_result (RemapPeerTopologyConfig example_regions [Some 0, None, Some 1])
     (\<lambda>topology. ResolvePeerTopologyEdges high_rng topology 2)) = Inr [(0, 1), (1, 0)]"
  by code_simp+

end
