(* ===== verification/Sim_Command.thy ===== *)
theory Sim_Command
  imports Network_Model
begin

text \<open>
  The commands an operator, a scenario or the control server can give to a running
  simulation: \<open>include/bbp/simulation_command.h\<close> and \<open>src/simulation_command.cpp\<close>. The
  command kinds and their names, the check of a role mutation, which commands need a
  confirmation, the control block through which an operation is cancelled or committed,
  and the reconciliation of a cancelled node restart.

  The control block is shared between threads without a lock. Its operations are given as
  functions, and again as the steps of a transition system in which the atomic
  instructions of any number of threads interleave. The steps are those of the member functions; the control
  block has a public stop source as well, on which code outside the class may request a stop directly.
\<close>

subsection \<open>Kinds and names\<close>

text \<open>A chain of comparisons \<open>if (name == "...") return ...;\<close>.\<close>

fun first_match :: "string \<Rightarrow> (string \<times> 'a) list \<Rightarrow> 'a option" where
  "first_match name [] = None"
| "first_match name ((candidate, value) # rest) =
     (if name = candidate then Some value else first_match name rest)"

datatype SimulationCommandKind =
    kIncreaseLogVerbosity | kDecreaseLogVerbosity | kStopMining | kDisconnectNode
  | kReconnectNode | kSetBlockProductionPolicy | kSetMiningDifficulty | kKillNode
  | kSignalNode | kSignalWallet | kSignalMiner | kSignalHelper
  | kConnectPeer | kDisconnectPeer | kSetPeerCountPolicy | kFreezeNode
  | kThawNode | kStopNode | kRestartNode | kGenerateBlocks
  | kSetResourceProfile | kSetResourceLimits | kSetNetworkProfile | kSetNetworkCondition
  | kBlockNetworkFlow | kUnblockNetworkFlow | kPartitionNodes | kHealPartition
  | kExportNodeReport | kSetPerfCounters | kSendWalletTransaction | kAddNodes
  | kReplaceNode | kRemoveNodes | kAssignRole | kRemoveRole
  | kAddTargetAddress | kRemoveTargetAddress | kCommandCount

fun SimulationCommandKindName :: "SimulationCommandKind \<Rightarrow> string result" where
  "SimulationCommandKindName kIncreaseLogVerbosity = Inr ''increase_log_verbosity''"
| "SimulationCommandKindName kDecreaseLogVerbosity = Inr ''decrease_log_verbosity''"
| "SimulationCommandKindName kStopMining = Inr ''stop_mining''"
| "SimulationCommandKindName kDisconnectNode = Inr ''disconnect_node''"
| "SimulationCommandKindName kReconnectNode = Inr ''reconnect_node''"
| "SimulationCommandKindName kSetBlockProductionPolicy = Inr ''set_block_production_policy''"
| "SimulationCommandKindName kSetMiningDifficulty = Inr ''set_mining_difficulty''"
| "SimulationCommandKindName kKillNode = Inr ''kill_node''"
| "SimulationCommandKindName kSignalNode = Inr ''signal_node''"
| "SimulationCommandKindName kSignalWallet = Inr ''signal_wallet''"
| "SimulationCommandKindName kSignalMiner = Inr ''signal_miner''"
| "SimulationCommandKindName kSignalHelper = Inr ''signal_helper''"
| "SimulationCommandKindName kConnectPeer = Inr ''connect_peer''"
| "SimulationCommandKindName kDisconnectPeer = Inr ''disconnect_peer''"
| "SimulationCommandKindName kSetPeerCountPolicy = Inr ''set_peer_count_policy''"
| "SimulationCommandKindName kFreezeNode = Inr ''freeze_node''"
| "SimulationCommandKindName kThawNode = Inr ''thaw_node''"
| "SimulationCommandKindName kStopNode = Inr ''stop_node''"
| "SimulationCommandKindName kRestartNode = Inr ''restart_node''"
| "SimulationCommandKindName kGenerateBlocks = Inr ''generate_blocks''"
| "SimulationCommandKindName kSetResourceProfile = Inr ''set_resource_profile''"
| "SimulationCommandKindName kSetResourceLimits = Inr ''set_resource_limits''"
| "SimulationCommandKindName kSetNetworkProfile = Inr ''set_network_profile''"
| "SimulationCommandKindName kSetNetworkCondition = Inr ''set_network_condition''"
| "SimulationCommandKindName kBlockNetworkFlow = Inr ''block_network_flow''"
| "SimulationCommandKindName kUnblockNetworkFlow = Inr ''unblock_network_flow''"
| "SimulationCommandKindName kPartitionNodes = Inr ''partition_nodes''"
| "SimulationCommandKindName kHealPartition = Inr ''heal_partition''"
| "SimulationCommandKindName kExportNodeReport = Inr ''export_node_report''"
| "SimulationCommandKindName kSetPerfCounters = Inr ''set_perf_counters''"
| "SimulationCommandKindName kSendWalletTransaction = Inr ''send_wallet_transaction''"
| "SimulationCommandKindName kAddNodes = Inr ''add_nodes''"
| "SimulationCommandKindName kReplaceNode = Inr ''replace_node''"
| "SimulationCommandKindName kRemoveNodes = Inr ''remove_nodes''"
| "SimulationCommandKindName kAssignRole = Inr ''assign_role''"
| "SimulationCommandKindName kRemoveRole = Inr ''remove_role''"
| "SimulationCommandKindName kAddTargetAddress = Inr ''add_target_address''"
| "SimulationCommandKindName kRemoveTargetAddress = Inr ''remove_target_address''"
| "SimulationCommandKindName kCommandCount = Inl (RuntimeError ''unknown simulation command kind'')"

definition SimulationCommandKindFromName :: "string \<Rightarrow> SimulationCommandKind option" where
  "SimulationCommandKindFromName name = first_match name
    [(''increase_log_verbosity'', kIncreaseLogVerbosity),
     (''decrease_log_verbosity'', kDecreaseLogVerbosity),
     (''stop_mining'', kStopMining),
     (''disconnect_node'', kDisconnectNode),
     (''reconnect_node'', kReconnectNode),
     (''set_block_production_policy'', kSetBlockProductionPolicy),
     (''set_mining_difficulty'', kSetMiningDifficulty),
     (''signal_node'', kSignalNode),
     (''signal_wallet'', kSignalWallet),
     (''signal_miner'', kSignalMiner),
     (''signal_helper'', kSignalHelper),
     (''kill_node'', kKillNode),
     (''connect_peer'', kConnectPeer),
     (''disconnect_peer'', kDisconnectPeer),
     (''set_peer_count_policy'', kSetPeerCountPolicy),
     (''freeze_node'', kFreezeNode),
     (''thaw_node'', kThawNode),
     (''stop_node'', kStopNode),
     (''restart_node'', kRestartNode),
     (''generate_blocks'', kGenerateBlocks),
     (''set_resource_profile'', kSetResourceProfile),
     (''set_resource_limits'', kSetResourceLimits),
     (''set_network_profile'', kSetNetworkProfile),
     (''set_network_condition'', kSetNetworkCondition),
     (''block_network_flow'', kBlockNetworkFlow),
     (''unblock_network_flow'', kUnblockNetworkFlow),
     (''partition_nodes'', kPartitionNodes),
     (''heal_partition'', kHealPartition),
     (''export_node_report'', kExportNodeReport),
     (''set_perf_counters'', kSetPerfCounters),
     (''send_wallet_transaction'', kSendWalletTransaction),
     (''add_nodes'', kAddNodes),
     (''replace_node'', kReplaceNode),
     (''remove_nodes'', kRemoveNodes),
     (''assign_role'', kAssignRole),
     (''remove_role'', kRemoveRole),
     (''add_target_address'', kAddTargetAddress),
     (''remove_target_address'', kRemoveTargetAddress)]"

fun SimulationCommandRequiresConfirmation :: "SimulationCommandKind \<Rightarrow> bool result" where
  "SimulationCommandRequiresConfirmation kStopMining = Inr True"
| "SimulationCommandRequiresConfirmation kDisconnectNode = Inr True"
| "SimulationCommandRequiresConfirmation kKillNode = Inr True"
| "SimulationCommandRequiresConfirmation kSignalNode = Inr True"
| "SimulationCommandRequiresConfirmation kSignalWallet = Inr True"
| "SimulationCommandRequiresConfirmation kSignalMiner = Inr True"
| "SimulationCommandRequiresConfirmation kSignalHelper = Inr True"
| "SimulationCommandRequiresConfirmation kDisconnectPeer = Inr True"
| "SimulationCommandRequiresConfirmation kSetPeerCountPolicy = Inr True"
| "SimulationCommandRequiresConfirmation kFreezeNode = Inr True"
| "SimulationCommandRequiresConfirmation kStopNode = Inr True"
| "SimulationCommandRequiresConfirmation kSetResourceProfile = Inr True"
| "SimulationCommandRequiresConfirmation kSetResourceLimits = Inr True"
| "SimulationCommandRequiresConfirmation kSetNetworkProfile = Inr True"
| "SimulationCommandRequiresConfirmation kSetNetworkCondition = Inr True"
| "SimulationCommandRequiresConfirmation kBlockNetworkFlow = Inr True"
| "SimulationCommandRequiresConfirmation kPartitionNodes = Inr True"
| "SimulationCommandRequiresConfirmation kGenerateBlocks = Inr True"
| "SimulationCommandRequiresConfirmation kSendWalletTransaction = Inr True"
| "SimulationCommandRequiresConfirmation kAssignRole = Inr True"
| "SimulationCommandRequiresConfirmation kRemoveRole = Inr True"
| "SimulationCommandRequiresConfirmation kAddTargetAddress = Inr True"
| "SimulationCommandRequiresConfirmation kIncreaseLogVerbosity = Inr False"
| "SimulationCommandRequiresConfirmation kDecreaseLogVerbosity = Inr False"
| "SimulationCommandRequiresConfirmation kReconnectNode = Inr False"
| "SimulationCommandRequiresConfirmation kSetBlockProductionPolicy = Inr False"
| "SimulationCommandRequiresConfirmation kSetMiningDifficulty = Inr False"
| "SimulationCommandRequiresConfirmation kConnectPeer = Inr False"
| "SimulationCommandRequiresConfirmation kRestartNode = Inr False"
| "SimulationCommandRequiresConfirmation kThawNode = Inr False"
| "SimulationCommandRequiresConfirmation kUnblockNetworkFlow = Inr False"
| "SimulationCommandRequiresConfirmation kHealPartition = Inr False"
| "SimulationCommandRequiresConfirmation kExportNodeReport = Inr False"
| "SimulationCommandRequiresConfirmation kSetPerfCounters = Inr False"
| "SimulationCommandRequiresConfirmation kAddNodes = Inr False"
| "SimulationCommandRequiresConfirmation kRemoveTargetAddress = Inr False"
| "SimulationCommandRequiresConfirmation kReplaceNode = Inr True"
| "SimulationCommandRequiresConfirmation kRemoveNodes = Inr True"
| "SimulationCommandRequiresConfirmation kCommandCount = Inl (RuntimeError ''unknown simulation command kind'')"

subsection \<open>Role mutations\<close>

datatype SimulationRoleKind = kWallet | kMiner | kMasternode | kRoleCount

datatype WalletPrivacyMode = kPublic | kPrivate

fun SimulationRoleKindName :: "SimulationRoleKind \<Rightarrow> string result" where
  "SimulationRoleKindName kWallet = Inr ''wallet''"
| "SimulationRoleKindName kMiner = Inr ''miner''"
| "SimulationRoleKindName kMasternode = Inr ''masternode''"
| "SimulationRoleKindName kRoleCount = Inl (LogicError ''unknown simulation role kind'')"

definition SimulationRoleKindFromName :: "string \<Rightarrow> SimulationRoleKind option" where
  "SimulationRoleKindFromName name = first_match name
     [(''wallet'', kWallet), (''miner'', kMiner), (''masternode'', kMasternode)]"

record SimulationRoleMutationRequest =
  rm_node_ids :: "string list"
  rm_role :: SimulationRoleKind
  rm_mode :: "WalletPrivacyMode option"
  rm_funding_wallet_id :: "string option"
  rm_timeout_sec :: "u32 option"

definition kSimulationNodeAddMaximumCount :: nat where
  "kSimulationNodeAddMaximumCount = 16"

definition kSimulationNodeRemoveMaximumCount :: nat where
  "kSimulationNodeRemoveMaximumCount = 16"

definition kSimulationRoleMutationMaximumTimeoutSeconds :: u32 where
  "kSimulationRoleMutationMaximumTimeoutSeconds = 3600"

definition IsSafeRoleNodeIdentifier :: "string \<Rightarrow> bool" where
  "IsSafeRoleNodeIdentifier value \<longleftrightarrow> value \<noteq> [] \<and> length value \<le> 32 \<and>
     list_all (\<lambda>character. let c = (of_char character :: nat) in
         (of_char (CHR ''a'') \<le> c \<and> c \<le> of_char (CHR ''z'')) \<or>
         (of_char (CHR ''A'') \<le> c \<and> c \<le> of_char (CHR ''Z'')) \<or>
         (of_char (CHR ''0'') \<le> c \<and> c \<le> of_char (CHR ''9'')) \<or>
         character = CHR ''-'' \<or> character = CHR ''_'') value"

text \<open>The loop over the node ids, with the set of the ids seen so far.\<close>

definition CheckRoleNode :: "string \<Rightarrow> string set \<Rightarrow> string set result" where
  "CheckRoleNode node_id seen =
     (if \<not> IsSafeRoleNodeIdentifier node_id
      then Inl (InvalidArgument ''role mutation node ids must contain safe identifiers'')
      else if node_id \<in> seen
      then Inl (InvalidArgument ''role mutation node ids must contain unique identifiers'')
      else Inr (insert node_id seen))"

definition ValidateSimulationRoleMutationRequest ::
    "SimulationCommandKind \<Rightarrow> SimulationRoleMutationRequest \<Rightarrow> unit result" where
  "ValidateSimulationRoleMutationRequest kind request =
     (if kind \<noteq> kAssignRole \<and> kind \<noteq> kRemoveRole
      then Inl (InvalidArgument ''role mutation request requires assign_role or remove_role'')
      else let maximum_count = (if kind = kAssignRole then kSimulationNodeAddMaximumCount
                                else kSimulationNodeRemoveMaximumCount) in
      if rm_node_ids request = [] \<or> length (rm_node_ids request) > maximum_count
      then Inl (InvalidArgument (''role mutation node ids must contain 1..'' @
             to_string maximum_count @ '' ids''))
      else bind_result (fold_result CheckRoleNode (rm_node_ids request) {}) (\<lambda>_.
      if rm_role request = kRoleCount
      then Inl (InvalidArgument ''role mutation role must be wallet, miner, or masternode'')
      else if (case rm_timeout_sec request of None \<Rightarrow> False
               | Some t \<Rightarrow> t = 0 \<or> t > kSimulationRoleMutationMaximumTimeoutSeconds)
      then Inl (InvalidArgument (''role mutation timeout must be in 1..'' @
             to_string (unat kSimulationRoleMutationMaximumTimeoutSeconds)))
      else if kind = kRemoveRole
      then (if rm_mode request \<noteq> None \<or> rm_funding_wallet_id request \<noteq> None
            then Inl (InvalidArgument ''remove_role does not accept mode or funding_wallet_id'')
            else Inr ())
      else (case rm_role request of
          kWallet \<Rightarrow>
            if rm_mode request = None
            then Inl (InvalidArgument ''assign_role wallet requires a privacy mode'')
            else if rm_funding_wallet_id request \<noteq> None
            then Inl (InvalidArgument ''assign_role wallet does not accept funding_wallet_id'')
            else Inr ()
        | kMiner \<Rightarrow>
            if rm_mode request \<noteq> None \<or> rm_funding_wallet_id request \<noteq> None
            then Inl (InvalidArgument ''assign_role miner does not accept mode or funding_wallet_id'')
            else Inr ()
        | kMasternode \<Rightarrow>
            if rm_mode request \<noteq> None
            then Inl (InvalidArgument ''assign_role masternode does not accept mode'')
            else (case rm_funding_wallet_id request of
                None \<Rightarrow> Inl (InvalidArgument ''assign_role masternode requires a safe funding_wallet_id'')
              | Some wallet \<Rightarrow>
                  if IsSafeRoleNodeIdentifier wallet then Inr ()
                  else Inl (InvalidArgument ''assign_role masternode requires a safe funding_wallet_id''))
        | kRoleCount \<Rightarrow> Inl (LogicError ''unknown simulation role kind''))))"

definition SimulationRoleMutationExecutionTimeout ::
    "SimulationCommandKind \<Rightarrow> SimulationRoleMutationRequest \<Rightarrow> u32 result" where
  "SimulationRoleMutationExecutionTimeout kind request =
     bind_result (ValidateSimulationRoleMutationRequest kind request) (\<lambda>_.
       let default_timeout_sec = (if rm_role request = kMasternode then 60 else 30) in
       Inr (case rm_timeout_sec request of Some t \<Rightarrow> t | None \<Rightarrow> default_timeout_sec))"

subsection \<open>The control block of an operation\<close>

datatype SimulationCommandCancellationCause =
  kNone | kClientCancel | kDeadline | kApplicationShutdown

datatype SimulationNodeRestartPhase =
  kBeforeStop | kStopRequested | kOriginalExited | kReplacementReady | kCompleted

datatype SimulationCommandCommitPhase = kOpen | kCancelled | kCommitStarted | kCommitted

text \<open>The numbers of the enumerators.\<close>

fun cause_number :: "SimulationCommandCancellationCause \<Rightarrow> u32" where
  "cause_number kNone = 0"
| "cause_number kClientCancel = 1"
| "cause_number kDeadline = 2"
| "cause_number kApplicationShutdown = 3"

fun phase_number :: "SimulationCommandCommitPhase \<Rightarrow> u32" where
  "phase_number kOpen = 0"
| "phase_number kCancelled = 1"
| "phase_number kCommitStarted = 2"
| "phase_number kCommitted = 3"

fun restart_number :: "SimulationNodeRestartPhase \<Rightarrow> nat" where
  "restart_number kBeforeStop = 0"
| "restart_number kStopRequested = 1"
| "restart_number kOriginalExited = 2"
| "restart_number kReplacementReady = 3"
| "restart_number kCompleted = 4"

fun SimulationNodeRestartPhaseName :: "SimulationNodeRestartPhase \<Rightarrow> string" where
  "SimulationNodeRestartPhaseName kBeforeStop = ''before_stop''"
| "SimulationNodeRestartPhaseName kStopRequested = ''stop_requested''"
| "SimulationNodeRestartPhaseName kOriginalExited = ''original_exited''"
| "SimulationNodeRestartPhaseName kReplacementReady = ''replacement_ready''"
| "SimulationNodeRestartPhaseName kCompleted = ''completed''"

definition kSimulationNodeAddProgressTotal :: u64 where
  "kSimulationNodeAddProgressTotal = 5"

record SimulationNodeResourceFailure =
  rf_resource_kind :: string
  rf_node_id :: string
  rf_address :: string
  rf_port :: nat
  rf_purpose :: string
  rf_mutation_started :: bool

record SimulationCommandControl =
  stop_requested :: bool
  outcome_unconfirmed :: bool
  restart_phase :: SimulationNodeRestartPhase
  commit_state :: u32
  progress_completed :: u64
  initial_inventory_generation :: u64
  absolute_deadline :: "nat option"
  initial_inventory_node_ids :: "string list"
  node_resource_failure :: "SimulationNodeResourceFailure option"

definition kUnsetInventoryGeneration :: u64 where
  "kUnsetInventoryGeneration = max_u64"

definition EncodeCommitState ::
    "SimulationCommandCommitPhase \<Rightarrow> SimulationCommandCancellationCause \<Rightarrow> u32" where
  "EncodeCommitState phase cause = or (phase_number phase) (push_bit 8 (cause_number cause))"

definition new_control :: SimulationCommandControl where
  "new_control = \<lparr>stop_requested = False, outcome_unconfirmed = False,
     restart_phase = kBeforeStop, commit_state = EncodeCommitState kOpen kNone,
     progress_completed = 0, initial_inventory_generation = kUnsetInventoryGeneration,
     absolute_deadline = None, initial_inventory_node_ids = [],
     node_resource_failure = None\<rparr>"

text \<open>\<open>std::atomic::compare_exchange_strong\<close>: the new value and whether it was stored.\<close>

definition compare_exchange_strong :: "'a \<Rightarrow> 'a \<Rightarrow> 'a \<Rightarrow> 'a \<times> bool" where
  "compare_exchange_strong object expected desired =
     (if object = expected then (desired, True) else (object, False))"

definition RequestCancellation ::
    "SimulationCommandCancellationCause \<Rightarrow> SimulationCommandControl \<Rightarrow> SimulationCommandControl \<times> bool" where
  "RequestCancellation cause control =
     (if cause = kNone then (control, False)
      else let (state, recorded) = compare_exchange_strong (commit_state control)
                 (EncodeCommitState kOpen kNone) (EncodeCommitState kCancelled cause) in
      if \<not> recorded then (control, False)
      else (control\<lparr>commit_state := state, stop_requested := True\<rparr>, True))"

definition TryBeginCommit :: "SimulationCommandControl \<Rightarrow> SimulationCommandControl \<times> bool" where
  "TryBeginCommit control =
     (let (state, begun) = compare_exchange_strong (commit_state control)
            (EncodeCommitState kOpen kNone) (EncodeCommitState kCommitStarted kNone) in
      (control\<lparr>commit_state := state\<rparr>, begun))"

definition MarkCommitted :: "SimulationCommandControl \<Rightarrow> SimulationCommandControl result" where
  "MarkCommitted control =
     (let (state, stored) = compare_exchange_strong (commit_state control)
            (EncodeCommitState kCommitStarted kNone) (EncodeCommitState kCommitted kNone) in
      if \<not> stored then Inl Terminated else Inr (control\<lparr>commit_state := state\<rparr>))"

text \<open>A cast of a number to an enumeration: \<open>None\<close> for a number that no enumerator has.\<close>

definition CommitPhase :: "SimulationCommandControl \<Rightarrow> SimulationCommandCommitPhase option" where
  "CommitPhase control =
     find (\<lambda>phase. phase_number phase = and (commit_state control) 0xff)
       [kOpen, kCancelled, kCommitStarted, kCommitted]"

definition CancellationCause :: "SimulationCommandControl \<Rightarrow> SimulationCommandCancellationCause option" where
  "CancellationCause control =
     find (\<lambda>cause. cause_number cause = and (drop_bit 8 (commit_state control)) 0xff)
       [kNone, kClientCancel, kDeadline, kApplicationShutdown]"

definition RecordInitialInventory ::
    "u64 \<Rightarrow> string list \<Rightarrow> SimulationCommandControl \<Rightarrow> SimulationCommandControl \<times> bool" where
  "RecordInitialInventory generation node_ids control =
     (if generation = kUnsetInventoryGeneration then (control, False)
      else let recorded_generation = initial_inventory_generation control in
      if recorded_generation \<noteq> kUnsetInventoryGeneration
      then (control, recorded_generation = generation \<and>
              initial_inventory_node_ids control = node_ids)
      else let (stored, exchanged) = compare_exchange_strong (initial_inventory_generation control)
                 kUnsetInventoryGeneration generation in
        (control\<lparr>initial_inventory_node_ids := node_ids,
           initial_inventory_generation := stored\<rparr>, exchanged))"

definition InitialInventoryGeneration :: "SimulationCommandControl \<Rightarrow> u64 option" where
  "InitialInventoryGeneration control =
     (if initial_inventory_generation control = kUnsetInventoryGeneration then None
      else Some (initial_inventory_generation control))"

definition InitialInventoryNodeIds :: "SimulationCommandControl \<Rightarrow> string list option" where
  "InitialInventoryNodeIds control =
     (if initial_inventory_generation control = kUnsetInventoryGeneration then None
      else Some (initial_inventory_node_ids control))"

text \<open>\<open>ReportProgress\<close> run by one thread alone: no other store comes between its load
  and its exchange, which succeeds.\<close>

definition ReportProgress :: "u64 \<Rightarrow> SimulationCommandControl \<Rightarrow> SimulationCommandControl \<times> bool" where
  "ReportProgress completed control =
     (if completed > kSimulationNodeAddProgressTotal then (control, False)
      else let current = progress_completed control in
      if completed > current then (control\<lparr>progress_completed := completed\<rparr>, True)
      else (control, completed = current))"

definition RecordNodeResourceFailure ::
    "SimulationNodeResourceFailure \<Rightarrow> SimulationCommandControl \<Rightarrow> SimulationCommandControl" where
  "RecordNodeResourceFailure failure control = control\<lparr>node_resource_failure := Some failure\<rparr>"

subsection \<open>Threads on a control block\<close>

text \<open>Where a thread stands inside an operation that takes more than one atomic step:
  after the exchange of \<open>RequestCancellation\<close> and before \<open>request_stop\<close>, or in the loop of
  \<open>ReportProgress\<close> with the value it reports and the value it last read.\<close>

datatype control_pc = Idle | StopPending | Progressing u64 u64

datatype control_event =
    CancelWon SimulationCommandCancellationCause
  | CancelLost SimulationCommandCancellationCause
  | CommitWon | CommitLost
  | CommittedDone
  | ProgressDone u64 bool
  | Internal

inductive control_step ::
    "SimulationCommandControl \<times> (nat \<Rightarrow> control_pc) \<Rightarrow> control_event \<Rightarrow>
     SimulationCommandControl \<times> (nat \<Rightarrow> control_pc) \<Rightarrow> bool" where
  cancel_none:
    "pcs t = Idle \<Longrightarrow> control_step (c, pcs) (CancelLost kNone) (c, pcs)"
| cancel_exchange:
    "pcs t = Idle \<Longrightarrow> cause \<noteq> kNone \<Longrightarrow>
     compare_exchange_strong (commit_state c) (EncodeCommitState kOpen kNone)
       (EncodeCommitState kCancelled cause) = (state, recorded) \<Longrightarrow>
     control_step (c, pcs) (if recorded then CancelWon cause else CancelLost cause)
       (c\<lparr>commit_state := state\<rparr>, pcs(t := if recorded then StopPending else Idle))"
| request_stop:
    "pcs t = StopPending \<Longrightarrow>
     control_step (c, pcs) Internal (c\<lparr>stop_requested := True\<rparr>, pcs(t := Idle))"
| begin_commit:
    "pcs t = Idle \<Longrightarrow> TryBeginCommit c = (c', begun) \<Longrightarrow>
     control_step (c, pcs) (if begun then CommitWon else CommitLost) (c', pcs)"
| mark_committed:
    "pcs t = Idle \<Longrightarrow> MarkCommitted c = Inr c' \<Longrightarrow> control_step (c, pcs) CommittedDone (c', pcs)"
| progress_reject:
    "pcs t = Idle \<Longrightarrow> completed > kSimulationNodeAddProgressTotal \<Longrightarrow>
     control_step (c, pcs) (ProgressDone completed False) (c, pcs)"
| progress_load:
    "pcs t = Idle \<Longrightarrow> completed \<le> kSimulationNodeAddProgressTotal \<Longrightarrow>
     control_step (c, pcs) Internal (c, pcs(t := Progressing completed (progress_completed c)))"
| progress_store:
    "pcs t = Progressing completed current \<Longrightarrow> current < completed \<Longrightarrow>
     progress_completed c = current \<Longrightarrow>
     control_step (c, pcs) (ProgressDone completed True)
       (c\<lparr>progress_completed := completed\<rparr>, pcs(t := Idle))"
| progress_retry:
    "pcs t = Progressing completed current \<Longrightarrow> current < completed \<Longrightarrow>
     control_step (c, pcs) Internal (c, pcs(t := Progressing completed (progress_completed c)))"
| progress_return:
    "pcs t = Progressing completed current \<Longrightarrow> \<not> current < completed \<Longrightarrow>
     control_step (c, pcs) (ProgressDone completed (completed = current)) (c, pcs(t := Idle))"

inductive control_run ::
    "control_event list \<Rightarrow> SimulationCommandControl \<times> (nat \<Rightarrow> control_pc) \<Rightarrow> bool" where
  start: "control_run [] (new_control, \<lambda>_. Idle)"
| step: "control_run events s \<Longrightarrow> control_step s event s' \<Longrightarrow> control_run (events @ [event]) s'"

subsection \<open>Reconciliation of a cancelled restart\<close>

record SimulationNodeProcessObservation =
  ob_running :: bool
  ob_pid :: int
  ob_restart_count :: u64

datatype SimulationNodeRestartReconciliation =
  kUnchanged | kReconciledStopped | kReconciledReplacementReady | kUnconfirmed

definition same_generation ::
    "SimulationNodeProcessObservation \<Rightarrow> SimulationNodeProcessObservation \<Rightarrow> bool" where
  "same_generation initial observation \<longleftrightarrow>
     ob_running observation = ob_running initial \<and>
     ob_restart_count observation = ob_restart_count initial \<and>
     (\<not> ob_running initial \<or> ob_pid observation = ob_pid initial)"

definition changed_generation ::
    "SimulationNodeProcessObservation \<Rightarrow> SimulationNodeProcessObservation \<Rightarrow> bool" where
  "changed_generation initial current \<longleftrightarrow> ob_pid current \<noteq> ob_pid initial \<or>
     ob_restart_count current \<noteq> ob_restart_count initial"

text \<open>
  One iteration of the loop, on what \<open>observe()\<close> returns and on the clock read at the bottom
  of the iteration: the answer, or \<open>None\<close> to go on, and whether the stop of an unready
  replacement was requested.
\<close>

definition reconcile_iteration ::
    "SimulationNodeProcessObservation \<Rightarrow> SimulationNodeRestartPhase \<Rightarrow> nat \<Rightarrow> bool \<Rightarrow> bool \<Rightarrow>
     SimulationNodeProcessObservation \<Rightarrow> nat \<Rightarrow> SimulationNodeRestartReconciliation option \<times> bool" where
  "reconcile_iteration initial phase deadline can_stop attempted current now =
     (if phase = kBeforeStop
      then (Some (if same_generation initial current then kUnchanged else kUnconfirmed), False)
      else if \<not> ob_running initial \<and> \<not> ob_running current \<and>
              ob_restart_count current = ob_restart_count initial
      then (Some kUnchanged, False)
      else if attempted \<and> \<not> ob_running current then (Some kReconciledStopped, False)
      else if restart_number phase \<ge> restart_number kOriginalExited \<and> \<not> ob_running current
      then (Some kReconciledStopped, False)
      else if \<not> ob_running current \<and> ob_restart_count current = ob_restart_count initial
      then (Some kReconciledStopped, False)
      else if ob_running current \<and> restart_number phase \<ge> restart_number kReplacementReady \<and>
              changed_generation initial current
      then (Some kReconciledReplacementReady, False)
      else let changed_running_generation = (ob_running current \<and> changed_generation initial current);
               stop = (changed_running_generation \<and>
                 restart_number phase < restart_number kReplacementReady \<and> \<not> attempted) in
      if stop \<and> \<not> can_stop then (Some kUnconfirmed, False)
      else (if now \<ge> deadline then Some kUnconfirmed else None, stop))"

text \<open>
  The loop, with one element of the list per iteration. It returns \<open>None\<close> when it is still
  running at the end of the list, and otherwise the answer together with the observations
  for which the stop of an unready replacement was requested. The callbacks do not throw.
\<close>

fun reconcile_loop ::
    "SimulationNodeProcessObservation \<Rightarrow> SimulationNodeRestartPhase \<Rightarrow> nat \<Rightarrow> bool \<Rightarrow> bool \<Rightarrow>
     (SimulationNodeProcessObservation \<times> nat) list \<Rightarrow>
     (SimulationNodeRestartReconciliation \<times> SimulationNodeProcessObservation list) option" where
  "reconcile_loop initial phase deadline can_stop attempted [] = None"
| "reconcile_loop initial phase deadline can_stop attempted ((current, now) # rest) =
     (let (answer, stop) = reconcile_iteration initial phase deadline can_stop attempted current now;
          requests = (if stop then [current] else []) in
      case answer of
        Some a \<Rightarrow> Some (a, requests)
      | None \<Rightarrow> map_option (\<lambda>(a, more). (a, requests @ more))
          (reconcile_loop initial phase deadline can_stop (attempted \<or> stop) rest))"

definition ReconcileCancelledSimulationNodeRestart ::
    "SimulationNodeProcessObservation \<Rightarrow> SimulationNodeRestartPhase \<Rightarrow> nat \<Rightarrow> bool \<Rightarrow> bool \<Rightarrow>
     (SimulationNodeProcessObservation \<times> nat) list \<Rightarrow>
     (SimulationNodeRestartReconciliation \<times> SimulationNodeProcessObservation list) option result" where
  "ReconcileCancelledSimulationNodeRestart initial phase deadline has_observer can_stop iterations =
     (if \<not> has_observer
      then Inl (InvalidArgument ''node restart reconciliation requires a process observer'')
      else Inr (reconcile_loop initial phase deadline can_stop False iterations))"

datatype NodeRuntimeLifecycle =
    kDefined | kPreparing | kStarting | kNetworkNamespaceReady | kCgroupReady | kRunning
  | kRestarting | kStopping | kStopped | kCleaning | kCleaned | kFailed | kKilling | kKilled

fun NodeRuntimeLifecycleName :: "NodeRuntimeLifecycle \<Rightarrow> string" where
  "NodeRuntimeLifecycleName kDefined = ''Defined''"
| "NodeRuntimeLifecycleName kPreparing = ''Preparing''"
| "NodeRuntimeLifecycleName kStarting = ''Starting''"
| "NodeRuntimeLifecycleName kNetworkNamespaceReady = ''NetnsReady''"
| "NodeRuntimeLifecycleName kCgroupReady = ''CgroupReady''"
| "NodeRuntimeLifecycleName kRunning = ''Running''"
| "NodeRuntimeLifecycleName kRestarting = ''Restarting''"
| "NodeRuntimeLifecycleName kStopping = ''Stopping''"
| "NodeRuntimeLifecycleName kStopped = ''Stopped''"
| "NodeRuntimeLifecycleName kCleaning = ''Cleaning''"
| "NodeRuntimeLifecycleName kCleaned = ''Cleaned''"
| "NodeRuntimeLifecycleName kFailed = ''Failed''"
| "NodeRuntimeLifecycleName kKilling = ''Killing''"
| "NodeRuntimeLifecycleName kKilled = ''Killed''"

definition ParseNodeRuntimeLifecycleName :: "string \<Rightarrow> NodeRuntimeLifecycle option" where
  "ParseNodeRuntimeLifecycleName name = first_match name
     [(''Defined'', kDefined), (''Preparing'', kPreparing), (''Starting'', kStarting),
      (''NetnsReady'', kNetworkNamespaceReady), (''CgroupReady'', kCgroupReady),
      (''Running'', kRunning), (''Restarting'', kRestarting), (''Stopping'', kStopping),
      (''Stopped'', kStopped), (''Cleaning'', kCleaning), (''Cleaned'', kCleaned),
      (''Failed'', kFailed), (''Killing'', kKilling), (''Killed'', kKilled)]"

definition ReconciledSimulationNodeRestartLifecycle ::
    "NodeRuntimeLifecycle \<Rightarrow> NodeRuntimeLifecycle \<Rightarrow> SimulationNodeRestartReconciliation \<Rightarrow>
     NodeRuntimeLifecycle" where
  "ReconciledSimulationNodeRestartLifecycle admitted observed reconciliation =
     (if observed = kFailed then kFailed
      else case reconciliation of
          kUnchanged \<Rightarrow> admitted
        | kReconciledStopped \<Rightarrow> kStopped
        | kReconciledReplacementReady \<Rightarrow> kRunning
        | kUnconfirmed \<Rightarrow> kRestarting)"

subsection \<open>Names\<close>

lemma first_match_map_of: "first_match name table = map_of table name"
  by (induction name table rule: first_match.induct) auto

text \<open>Every command kind except the sentinel has a name, no two kinds share one, and
  parsing inverts naming: a kind is found under a name exactly when the name is its name.\<close>

theorem command_kind_names:
  "SimulationCommandKindName kind = Inr name \<longleftrightarrow> SimulationCommandKindFromName name = Some kind"
proof -
  have "SimulationCommandKindFromName name = Some kind \<Longrightarrow> SimulationCommandKindName kind = Inr name"
    unfolding SimulationCommandKindFromName_def first_match_map_of
    by (drule map_of_SomeD) auto
  moreover have "SimulationCommandKindName kind = Inr name \<Longrightarrow> SimulationCommandKindFromName name = Some kind"
  proof -
    have "\<not> ok (SimulationCommandKindName kind) \<or>
        SimulationCommandKindFromName (projr (SimulationCommandKindName kind)) = Some kind"
      by (cases kind) (simp_all add: SimulationCommandKindFromName_def)
    then show "SimulationCommandKindName kind = Inr name \<Longrightarrow> SimulationCommandKindFromName name = Some kind"
      by force
  qed
  ultimately show ?thesis by blast
qed

lemma lifecycle_names:
  "NodeRuntimeLifecycleName lifecycle = name \<longleftrightarrow> ParseNodeRuntimeLifecycleName name = Some lifecycle"
proof -
  have "ParseNodeRuntimeLifecycleName name = Some lifecycle \<Longrightarrow> NodeRuntimeLifecycleName lifecycle = name"
    unfolding ParseNodeRuntimeLifecycleName_def first_match_map_of
    by (drule map_of_SomeD) auto
  moreover have "ParseNodeRuntimeLifecycleName (NodeRuntimeLifecycleName lifecycle) = Some lifecycle"
    by (cases lifecycle) (simp_all add: ParseNodeRuntimeLifecycleName_def)
  ultimately show ?thesis by blast
qed

subsection \<open>Role mutations\<close>

lemma CheckRoleNode_loop:
  "ok (fold_result CheckRoleNode node_ids seen) \<longleftrightarrow>
     list_all IsSafeRoleNodeIdentifier node_ids \<and> distinct node_ids \<and> set node_ids \<inter> seen = {}"
  by (induction node_ids arbitrary: seen) (auto simp: CheckRoleNode_def)

lemma ValidateSimulationRoleMutationRequest_iff:
  "ok (ValidateSimulationRoleMutationRequest kind request) \<longleftrightarrow>
     (kind = kAssignRole \<or> kind = kRemoveRole) \<and>
     rm_node_ids request \<noteq> [] \<and> length (rm_node_ids request) \<le> 16 \<and>
     list_all IsSafeRoleNodeIdentifier (rm_node_ids request) \<and> distinct (rm_node_ids request) \<and>
     rm_role request \<noteq> kRoleCount \<and>
     (case rm_timeout_sec request of None \<Rightarrow> True | Some t \<Rightarrow> 1 \<le> t \<and> t \<le> 3600) \<and>
     (if kind = kAssignRole \<and> rm_role request = kWallet then rm_mode request \<noteq> None else rm_mode request = None) \<and>
     (if kind = kAssignRole \<and> rm_role request = kMasternode
      then \<exists>wallet. rm_funding_wallet_id request = Some wallet \<and> IsSafeRoleNodeIdentifier wallet
      else rm_funding_wallet_id request = None)"
proof -
  have loop: "(\<exists>seen. fold_result CheckRoleNode (rm_node_ids request) {} = Inr seen) \<longleftrightarrow>
      list_all IsSafeRoleNodeIdentifier (rm_node_ids request) \<and> distinct (rm_node_ids request)"
    using CheckRoleNode_loop [of "rm_node_ids request" "{}"] by (simp add: ok_iff)
  have pos: "(1 \<le> t) = (t \<noteq> 0)" for t :: u32
    by (metis word_le_less_eq linorder_not_le word_less_1)
  show ?thesis
    unfolding ValidateSimulationRoleMutationRequest_def
    using loop
    by (cases "fold_result CheckRoleNode (rm_node_ids request) {}"; cases "rm_role request"; cases kind)
      (auto simp: Let_def pos not_less kSimulationNodeAddMaximumCount_def
        kSimulationNodeRemoveMaximumCount_def kSimulationRoleMutationMaximumTimeoutSeconds_def
        split: option.splits)
qed

subsection \<open>Threads on a control block\<close>

inductive_cases control_stepE: "control_step (c, pcs) event s'"

lemma decode_commit_state:
  assumes "commit_state c = EncodeCommitState phase cause"
  shows "CommitPhase c = Some phase" "CancellationCause c = Some cause"
  unfolding CommitPhase_def CancellationCause_def assms EncodeCommitState_def
  by (cases phase; cases cause; simp)+

lemma EncodeCommitState_inject:
  "EncodeCommitState phase cause = EncodeCommitState phase' cause' \<longleftrightarrow> phase = phase' \<and> cause = cause'"
proof
  define c where "c = new_control\<lparr>commit_state := EncodeCommitState phase cause\<rparr>"
  assume "EncodeCommitState phase cause = EncodeCommitState phase' cause'"
  then have "commit_state c = EncodeCommitState phase cause" "commit_state c = EncodeCommitState phase' cause'"
    by (simp_all add: c_def)
  from this [THEN decode_commit_state(1)] this [THEN decode_commit_state(2)]
  show "phase = phase' \<and> cause = cause'" by simp
qed simp

text \<open>The events that decide between cancellation and commit.\<close>

fun decides :: "control_event \<Rightarrow> bool" where
  "decides (CancelWon cause) = True"
| "decides CommitWon = True"
| "decides event = False"

text \<open>What the events so far say about the shared word and the stop request.\<close>

definition control_inv ::
    "control_event list \<Rightarrow> SimulationCommandControl \<times> (nat \<Rightarrow> control_pc) \<Rightarrow> bool" where
  "control_inv events s \<longleftrightarrow>
     (case filter decides events of
        [] \<Rightarrow> commit_state (fst s) = EncodeCommitState kOpen kNone \<and>
              CommittedDone \<notin> set events \<and> \<not> stop_requested (fst s) \<and> (\<forall>t. snd s t \<noteq> StopPending)
      | [CancelWon cause] \<Rightarrow> cause \<noteq> kNone \<and>
              commit_state (fst s) = EncodeCommitState kCancelled cause \<and>
              CommittedDone \<notin> set events \<and> (stop_requested (fst s) \<or> (\<exists>t. snd s t = StopPending))
      | [CommitWon] \<Rightarrow>
              commit_state (fst s) = EncodeCommitState
                (if CommittedDone \<in> set events then kCommitted else kCommitStarted) kNone \<and>
              count_list events CommittedDone \<le> 1 \<and>
              \<not> stop_requested (fst s) \<and> (\<forall>t. snd s t \<noteq> StopPending)
      | _ \<Rightarrow> False)"

lemmas control_defs = compare_exchange_strong_def TryBeginCommit_def MarkCommitted_def Let_def
  EncodeCommitState_inject

lemma control_inv_step:
  assumes "control_inv events s" "control_step s event s'"
  shows "control_inv (events @ [event]) s'"
  using assms(2,1)
proof (induction rule: control_step.induct)
  case (cancel_exchange pcs t cause c state recorded)
  then have "\<not> recorded \<Longrightarrow> pcs(t := if recorded then StopPending else Idle) = pcs" by auto
  with cancel_exchange show ?case
    by (cases recorded) (auto simp: control_inv_def control_defs split: list.splits control_event.splits if_splits)
next
  case (begin_commit pcs t c c' begun)
  then show ?case
    by (auto simp: control_inv_def control_defs split: list.splits control_event.splits if_splits)
next
  case (mark_committed pcs t c c')
  then show ?case
    by (auto simp: control_inv_def control_defs split: list.splits control_event.splits if_splits)
qed ((auto simp: control_inv_def split: list.splits control_event.splits if_splits),
    (metis control_pc.distinct)+)


lemma control_run_inv: "control_run events s \<Longrightarrow> control_inv events s"
proof (induction rule: control_run.induct)
  case start
  show ?case by (simp add: control_inv_def new_control_def)
next
  case (step events s event s')
  then show ?case using control_inv_step by blast
qed

text \<open>Progress: what is stored is the largest value reported with success.\<close>

definition progress_inv ::
    "control_event list \<Rightarrow> SimulationCommandControl \<times> (nat \<Rightarrow> control_pc) \<Rightarrow> bool" where
  "progress_inv events s \<longleftrightarrow>
     progress_completed (fst s) \<le> kSimulationNodeAddProgressTotal \<and>
     (progress_completed (fst s) = 0 \<or> ProgressDone (progress_completed (fst s)) True \<in> set events) \<and>
     (\<forall>n. ProgressDone n True \<in> set events \<longrightarrow> n \<le> progress_completed (fst s)) \<and>
     (\<forall>t n current. snd s t = Progressing n current \<longrightarrow>
        n \<le> kSimulationNodeAddProgressTotal \<and> current \<le> progress_completed (fst s))"

lemma progress_inv_step:
  assumes "progress_inv events s" "control_step s event s'"
  shows "progress_inv (events @ [event]) s'"
  using assms(2,1)
proof (induction rule: control_step.induct)
  case (progress_store pcs t completed current c)
  have le: "x \<le> progress_completed c \<Longrightarrow> x \<le> completed" for x
    using progress_store by (meson less_imp_le order.trans)
  from progress_store have "completed \<le> kSimulationNodeAddProgressTotal"
    by (auto simp: progress_inv_def)
  with progress_store le show ?case
    unfolding progress_inv_def by (simp split: if_splits)
next
  case (begin_commit pcs t c c' begun)
  then show ?case by (auto simp: progress_inv_def control_defs split: if_splits)
next
  case (mark_committed pcs t c c')
  then show ?case by (auto simp: progress_inv_def control_defs split: if_splits)
qed (auto simp: progress_inv_def compare_exchange_strong_def split: if_splits)

lemma control_run_progress: "control_run events s \<Longrightarrow> progress_inv events s"
proof (induction rule: control_run.induct)
  case start
  show ?case by (simp add: progress_inv_def new_control_def)
next
  case (step events s event s')
  then show ?case using progress_inv_step by blast
qed


text \<open>The functions are the steps of one thread taken without interruption.\<close>

lemma RequestCancellation_steps:
  assumes "RequestCancellation cause c = (c', True)" "pcs t = Idle"
  shows "\<exists>middle. control_step (c, pcs) (CancelWon cause) middle \<and> control_step middle Internal (c', pcs)"
proof -
  let ?c = "c\<lparr>commit_state := EncodeCommitState kCancelled cause\<rparr>"
  have c: "cause \<noteq> kNone" "commit_state c = EncodeCommitState kOpen kNone" "c' = ?c\<lparr>stop_requested := True\<rparr>"
    using assms(1) by (auto simp: RequestCancellation_def compare_exchange_strong_def split: if_splits)
  have "control_step (c, pcs) (if True then CancelWon cause else CancelLost cause)
      (c\<lparr>commit_state := EncodeCommitState kCancelled cause\<rparr>, pcs(t := if True then StopPending else Idle))"
    by (rule control_step.cancel_exchange) (use c assms(2) in \<open>simp_all add: compare_exchange_strong_def\<close>)
  moreover have "control_step (?c, pcs(t := StopPending)) Internal
      (?c\<lparr>stop_requested := True\<rparr>, (pcs(t := StopPending))(t := Idle))"
    by (rule control_step.request_stop) simp
  moreover have "(pcs(t := StopPending))(t := Idle) = pcs" using assms(2) by auto
  ultimately show ?thesis using c(3) by auto
qed

lemma ReportProgress_steps:
  assumes "ReportProgress completed c = (c', answer)" "completed \<le> kSimulationNodeAddProgressTotal" "pcs t = Idle"
  shows "\<exists>middle. control_step (c, pcs) Internal middle \<and>
      control_step middle (ProgressDone completed answer) (c', pcs)"
proof -
  let ?m = "pcs(t := Progressing completed (progress_completed c))"
  have within: "\<not> kSimulationNodeAddProgressTotal < completed" using assms(2) by (simp add: not_less)
  have restored: "?m(t := Idle) = pcs" using assms(3) by auto
  have "control_step (c, pcs) Internal (c, ?m)" using assms by (intro control_step.progress_load)
  moreover have "control_step (c, ?m) (ProgressDone completed answer) (c', ?m(t := Idle))"
  proof (cases "progress_completed c < completed")
    case True
    then have "answer" "c' = c\<lparr>progress_completed := completed\<rparr>"
      using assms within by (auto simp: ReportProgress_def Let_def)
    then show ?thesis using True
      control_step.progress_store [of ?m t completed "progress_completed c" c] by simp
  next
    case False
    then have "answer = (completed = progress_completed c)" "c' = c"
      using assms within by (auto simp: ReportProgress_def Let_def)
    then show ?thesis using False
      control_step.progress_return [of ?m t completed "progress_completed c" c] by simp
  qed
  ultimately show ?thesis unfolding restored by blast
qed

lemma singleton_list: "length xs \<le> 1 \<Longrightarrow> e \<in> set xs \<Longrightarrow> xs = [e]"
  by (cases xs) auto

text \<open>C12. However the threads of a control block interleave, at most one of the calls of
  \<open>RequestCancellation\<close> and \<open>TryBeginCommit\<close> succeeds. If a cancellation succeeded, the
  block keeps its cause, is never committed, and the stop is requested or about to be. If
  a commit began, no stop is ever requested, and \<open>MarkCommitted\<close> passes at most once.\<close>

theorem cancel_commit_exclusive:
  assumes "control_run events (c, pcs)"
  shows "length (filter decides events) \<le> 1 \<and> count_list events CommittedDone \<le> 1 \<and>
    (\<forall>cause. CancelWon cause \<in> set events \<longrightarrow>
      CommitPhase c = Some kCancelled \<and> CancellationCause c = Some cause \<and>
      CommittedDone \<notin> set events \<and> (stop_requested c \<or> (\<exists>t. pcs t = StopPending))) \<and>
    (CommitWon \<in> set events \<longrightarrow> CancellationCause c = Some kNone \<and> \<not> stop_requested c \<and>
      CommitPhase c = Some (if CommittedDone \<in> set events then kCommitted else kCommitStarted)) \<and>
    (\<not> list_ex decides events \<longrightarrow> CommitPhase c = Some kOpen \<and> \<not> stop_requested c)"
proof (intro conjI allI impI)
  have inv: "control_inv events (c, pcs)" using assms by (rule control_run_inv)
  show one: "length (filter decides events) \<le> 1" and "count_list events CommittedDone \<le> 1"
    using inv by (auto simp: control_inv_def split: list.splits control_event.splits)
  have only: "filter decides events = [e]" if "e \<in> set events" "decides e" for e
    using singleton_list [OF one, of e] that by simp
  {
    fix cause
    assume "CancelWon cause \<in> set events"
    then have "filter decides events = [CancelWon cause]" by (rule only) simp
    with inv decode_commit_state [of c]
    show "CommitPhase c = Some kCancelled" "CancellationCause c = Some cause"
      "CommittedDone \<notin> set events" "stop_requested c \<or> (\<exists>t. pcs t = StopPending)"
      by (simp_all add: control_inv_def)
  next
    assume "CommitWon \<in> set events"
    then have "filter decides events = [CommitWon]" by (rule only) simp
    with inv decode_commit_state [of c]
    show "CancellationCause c = Some kNone" "\<not> stop_requested c"
      "CommitPhase c = Some (if CommittedDone \<in> set events then kCommitted else kCommitStarted)"
      by (simp_all add: control_inv_def)
  next
    assume "\<not> list_ex decides events"
    then have "filter decides events = []" by (auto simp: list_ex_iff filter_empty_conv)
    with inv decode_commit_state [of c] show "CommitPhase c = Some kOpen" "\<not> stop_requested c"
      by (simp_all add: control_inv_def)
  }
qed

text \<open>Two threads: the first cancels for a deadline, the second comes too late to commit,
  and then the first requests the stop.\<close>

lemma example_control_run:
  "control_run [CancelWon kDeadline, CommitLost, Internal]
     (new_control\<lparr>commit_state := EncodeCommitState kCancelled kDeadline, stop_requested := True\<rparr>,
      (\<lambda>_. Idle)(0 := StopPending, 0 := Idle))"
proof -
  let ?c = "new_control\<lparr>commit_state := EncodeCommitState kCancelled kDeadline\<rparr>"
  let ?p = "(\<lambda>_. Idle)(0 := StopPending)"
  have "control_step (new_control, \<lambda>_. Idle) (if True then CancelWon kDeadline else CancelLost kDeadline)
      (?c, (\<lambda>_. Idle)(0 := if True then StopPending else Idle))"
    by (rule control_step.cancel_exchange) (simp_all add: compare_exchange_strong_def new_control_def)
  then have "control_run ([] @ [CancelWon kDeadline]) (?c, ?p)"
    using control_run.start control_run.step by fastforce
  moreover have "control_step (?c, ?p) (if False then CommitWon else CommitLost) (?c, ?p)"
    by (rule control_step.begin_commit [of _ 1]) (simp_all add: control_defs)
  ultimately have "control_run ([] @ [CancelWon kDeadline] @ [CommitLost]) (?c, ?p)"
    using control_run.step by fastforce
  moreover have "control_step (?c, ?p) Internal (?c\<lparr>stop_requested := True\<rparr>, ?p(0 := Idle))"
    by (rule control_step.request_stop) simp
  ultimately show ?thesis using control_run.step by fastforce
qed

theorem cancel_commit_exclusive_witness:
  "\<exists>c pcs. control_run [CancelWon kDeadline, CommitLost, Internal] (c, pcs) \<and>
     CommitPhase c = Some kCancelled \<and> CancellationCause c = Some kDeadline"
  using cancel_commit_exclusive [OF example_control_run] example_control_run by (intro exI conjI) auto

text \<open>C13. The progress of an operation never goes back and never exceeds its total: at every
  moment of every interleaving it is the largest value a call of \<open>ReportProgress\<close> has
  reported with success.\<close>

theorem progress_is_maximum:
  assumes "control_run events (c, pcs)"
  shows "progress_completed c \<le> kSimulationNodeAddProgressTotal \<and>
    progress_completed c = Max (insert 0 {n. ProgressDone n True \<in> set events})"
proof -
  have inv: "progress_inv events (c, pcs)" using assms by (rule control_run_progress)
  have "finite {n. ProgressDone n True \<in> set events}"
    by (rule finite_subset [of _ "(\<lambda>e. case e of ProgressDone n a \<Rightarrow> n | _ \<Rightarrow> 0) ` set events"])
      (auto simp: image_iff intro!: bexI [of _ "ProgressDone _ _"])
  then have "Max (insert 0 {n. ProgressDone n True \<in> set events}) = progress_completed c"
    using inv by (intro Max_eqI) (auto simp: progress_inv_def)
  then show ?thesis using inv by (simp add: progress_inv_def)
qed

lemma example_progress_run:
  "control_run [Internal, ProgressDone 3 True]
     (new_control\<lparr>progress_completed := 3\<rparr>, (\<lambda>_. Idle)(0 := Progressing 3 0, 0 := Idle))"
proof -
  have "control_step (new_control, \<lambda>_. Idle) Internal (new_control, (\<lambda>_. Idle)(0 := Progressing 3 (progress_completed new_control)))"
    by (rule control_step.progress_load) (simp_all add: kSimulationNodeAddProgressTotal_def)
  then have "control_run ([] @ [Internal]) (new_control, (\<lambda>_. Idle)(0 := Progressing 3 0))"
    using control_run.start control_run.step by (fastforce simp: new_control_def)
  moreover have "control_step (new_control, (\<lambda>_. Idle)(0 := Progressing 3 0)) (ProgressDone 3 True)
     (new_control\<lparr>progress_completed := 3\<rparr>, ((\<lambda>_. Idle)(0 := Progressing 3 0))(0 := Idle))"
    by (rule control_step.progress_store) (simp_all add: new_control_def)
  ultimately show ?thesis using control_run.step by fastforce
qed

theorem progress_is_maximum_witness:
  "\<exists>c pcs. control_run [Internal, ProgressDone 3 True] (c, pcs) \<and>
     progress_completed c = Max (insert 0 {n. n = 3})"
  using progress_is_maximum [OF example_progress_run] example_progress_run
  by (intro exI conjI) auto

subsection \<open>Reconciliation of a cancelled restart\<close>

text \<open>
  The rule by which the reconciliation answers, without its loop. An observation has a verdict of its own, which depends
  on whether the stop of a replacement was asked for before. A running new generation before readiness is an unready
  replacement. An iteration is final if its observation has a verdict, if the clock has passed the deadline, or if it
  finds the first unready replacement and there is no way to stop it.
\<close>

definition verdict ::
    "SimulationNodeProcessObservation \<Rightarrow> SimulationNodeRestartPhase \<Rightarrow> bool \<Rightarrow> SimulationNodeProcessObservation \<Rightarrow>
     SimulationNodeRestartReconciliation option" where
  "verdict initial phase asked current =
     (if phase = kBeforeStop then Some (if same_generation initial current then kUnchanged else kUnconfirmed)
      else if ob_running current
      then (if phase \<in> {kReplacementReady, kCompleted} \<and> changed_generation initial current
        then Some kReconciledReplacementReady else None)
      else if ob_restart_count current = ob_restart_count initial
      then Some (if ob_running initial then kReconciledStopped else kUnchanged)
      else if asked \<or> phase \<noteq> kStopRequested then Some kReconciledStopped else None)"

definition unready_replacement ::
    "SimulationNodeProcessObservation \<Rightarrow> SimulationNodeRestartPhase \<Rightarrow> SimulationNodeProcessObservation \<Rightarrow> bool" where
  "unready_replacement initial phase current \<longleftrightarrow>
     phase \<in> {kStopRequested, kOriginalExited} \<and> ob_running current \<and> changed_generation initial current"

definition asked_before ::
    "SimulationNodeProcessObservation \<Rightarrow> SimulationNodeRestartPhase \<Rightarrow>
     (SimulationNodeProcessObservation \<times> nat) list \<Rightarrow> nat \<Rightarrow> bool" where
  "asked_before initial phase iterations k \<longleftrightarrow> list_ex (\<lambda>(current, now). unready_replacement initial phase current) (take k iterations)"

definition final_iteration ::
    "SimulationNodeProcessObservation \<Rightarrow> SimulationNodeRestartPhase \<Rightarrow> nat \<Rightarrow> bool \<Rightarrow> bool \<Rightarrow>
     SimulationNodeProcessObservation \<times> nat \<Rightarrow> bool" where
  "final_iteration initial phase deadline can_stop asked iteration \<longleftrightarrow>
     verdict initial phase asked (fst iteration) \<noteq> None \<or> deadline \<le> snd iteration \<or>
     unready_replacement initial phase (fst iteration) \<and> \<not> asked \<and> \<not> can_stop"

lemma reconcile_iteration_eq:
  "reconcile_iteration initial phase deadline can_stop asked current now =
     (if final_iteration initial phase deadline can_stop asked (current, now)
      then Some (case verdict initial phase asked current of None \<Rightarrow> kUnconfirmed | Some a \<Rightarrow> a) else None,
      unready_replacement initial phase current \<and> \<not> asked \<and> can_stop)"
  by (cases phase) (auto simp: reconcile_iteration_def final_iteration_def verdict_def unready_replacement_def
      same_generation_def Let_def)

text \<open>The loop, started with a stop already asked for or not.\<close>

lemma reconcile_loop_first_final:
  assumes "list_ex (\<lambda>(current, now). deadline \<le> now) iterations"
  shows "\<exists>k<length iterations.
    (\<forall>j<k. \<not> final_iteration initial phase deadline can_stop (asked \<or> asked_before initial phase iterations j) (iterations ! j)) \<and>
    final_iteration initial phase deadline can_stop (asked \<or> asked_before initial phase iterations k) (iterations ! k) \<and>
    reconcile_loop initial phase deadline can_stop asked iterations = Some
      (case verdict initial phase (asked \<or> asked_before initial phase iterations k) (fst (iterations ! k)) of
         None \<Rightarrow> kUnconfirmed | Some a \<Rightarrow> a,
       if asked \<or> \<not> can_stop then []
       else take 1 (filter (unready_replacement initial phase) (map fst (take (Suc k) iterations))))"
  using assms
proof (induction iterations arbitrary: asked)
  case (Cons i rest)
  obtain current now where i: "i = (current, now)" by (cases i)
  let ?unready = "unready_replacement initial phase" and ?final = "final_iteration initial phase deadline can_stop"
  show ?case
  proof (cases "?final asked i")
    case True
    then show ?thesis by (intro exI [of _ 0]) (simp add: i reconcile_iteration_eq asked_before_def Let_def)
  next
    case False
    let ?asked = "asked \<or> ?unready current"
    have late: "list_ex (\<lambda>(current, now). deadline \<le> now) rest" using Cons.prems False i by (simp add: final_iteration_def)
    have stop: "asked \<or> ?unready current \<and> \<not> asked \<and> can_stop \<longleftrightarrow> ?asked"
      using False by (auto simp: i final_iteration_def)
    have before: "asked \<or> asked_before initial phase (i # rest) (Suc j) \<longleftrightarrow> ?asked \<or> asked_before initial phase rest j" for j
      by (auto simp: i asked_before_def)
    from Cons.IH [OF late, of ?asked] obtain k where k: "k < length rest"
      "\<forall>j<k. \<not> ?final (?asked \<or> asked_before initial phase rest j) (rest ! j)"
      "?final (?asked \<or> asked_before initial phase rest k) (rest ! k)"
      "reconcile_loop initial phase deadline can_stop ?asked rest = Some
        (case verdict initial phase (?asked \<or> asked_before initial phase rest k) (fst (rest ! k)) of
           None \<Rightarrow> kUnconfirmed | Some a \<Rightarrow> a,
         if ?asked \<or> \<not> can_stop then [] else take 1 (filter ?unready (map fst (take (Suc k) rest))))" by blast
    have "\<not> ?final (asked \<or> asked_before initial phase (i # rest) j) ((i # rest) ! j)" if "j < Suc k" for j
    proof (cases j)
      case 0
      then show ?thesis using False by (simp add: asked_before_def)
    next
      case (Suc j')
      then show ?thesis using that k(2) unfolding Suc before by simp
    qed
    moreover have "?final (asked \<or> asked_before initial phase (i # rest) (Suc k)) ((i # rest) ! Suc k)"
      using k(3) unfolding before by simp
    moreover have "reconcile_loop initial phase deadline can_stop asked (i # rest) = Some
        (case verdict initial phase (asked \<or> asked_before initial phase (i # rest) (Suc k)) (fst ((i # rest) ! Suc k)) of
           None \<Rightarrow> kUnconfirmed | Some a \<Rightarrow> a,
         if asked \<or> \<not> can_stop then [] else take 1 (filter ?unready (map fst (take (Suc (Suc k)) (i # rest)))))"
      using False k(4) unfolding before by (simp add: i reconcile_iteration_eq stop Let_def)
    ultimately show ?thesis using k(1) by (intro exI [of _ "Suc k"]) simp
  qed
qed simp

text \<open>C14. The reconciliation of a cancelled restart returns exactly at its first final iteration, which is reached at the
  latest when the clock has passed the deadline. The answer is the verdict of the process observed there:
  \<open>unchanged\<close> for the generation it started from, \<open>stopped\<close> for a process that does not run and has been stopped or has
  exited, \<open>replacement ready\<close> for a new running generation after readiness. Only without a verdict, at the deadline or when
  an unready replacement cannot be stopped, or before the stop when the generation has changed, is it \<open>unconfirmed\<close>. The
  stop of an unready replacement is requested exactly for the first one observed, once, and so never for the generation it
  started from.\<close>

theorem restart_reconciliation:
  assumes "list_ex (\<lambda>(current, now). deadline \<le> now) iterations"
  shows "\<exists>k<length iterations.
    (\<forall>j<k. \<not> final_iteration initial phase deadline can_stop (asked_before initial phase iterations j) (iterations ! j)) \<and>
    final_iteration initial phase deadline can_stop (asked_before initial phase iterations k) (iterations ! k) \<and>
    ReconcileCancelledSimulationNodeRestart initial phase deadline True can_stop iterations = Inr (Some
      (case verdict initial phase (asked_before initial phase iterations k) (fst (iterations ! k)) of
         None \<Rightarrow> kUnconfirmed | Some a \<Rightarrow> a,
       if can_stop then take 1 (filter (unready_replacement initial phase) (map fst (take (Suc k) iterations))) else []))"
  using reconcile_loop_first_final [OF assms, of initial phase can_stop False]
  by (cases can_stop) (simp_all add: ReconcileCancelledSimulationNodeRestart_def)

text \<open>The original runs as process 7; the second observation finds a new process that is not
  ready, the third finds it stopped.\<close>

definition example_observations :: "(SimulationNodeProcessObservation \<times> nat) list" where
  "example_observations =
     [(\<lparr>ob_running = True, ob_pid = 7, ob_restart_count = 0\<rparr>, 10),
      (\<lparr>ob_running = True, ob_pid = 8, ob_restart_count = 1\<rparr>, 20),
      (\<lparr>ob_running = False, ob_pid = -1, ob_restart_count = 1\<rparr>, 100)]"

theorem restart_reconciliation_witness:
  "ReconcileCancelledSimulationNodeRestart \<lparr>ob_running = True, ob_pid = 7, ob_restart_count = 0\<rparr>
     kStopRequested 100 True True example_observations
   = Inr (Some (kReconciledStopped, [\<lparr>ob_running = True, ob_pid = 8, ob_restart_count = 1\<rparr>]))"
proof -
  let ?initial = "\<lparr>ob_running = True, ob_pid = 7, ob_restart_count = 0\<rparr>"
  let ?final = "\<lambda>k. final_iteration ?initial kStopRequested 100 True
    (asked_before ?initial kStopRequested example_observations k) (example_observations ! k)"
  have late: "list_ex (\<lambda>(current, now). 100 \<le> now) example_observations" and size: "length example_observations = 3"
    by (simp_all add: example_observations_def)
  obtain k where k: "k < 3" "\<forall>j<k. \<not> ?final j" "?final k"
    "ReconcileCancelledSimulationNodeRestart ?initial kStopRequested 100 True True example_observations = Inr (Some
      (case verdict ?initial kStopRequested (asked_before ?initial kStopRequested example_observations k)
           (fst (example_observations ! k)) of None \<Rightarrow> kUnconfirmed | Some a \<Rightarrow> a,
       take 1 (filter (unready_replacement ?initial kStopRequested) (map fst (take (Suc k) example_observations)))))"
    using restart_reconciliation [OF late, of ?initial kStopRequested True] unfolding size if_True by blast
  have "\<not> ?final 0" "\<not> ?final 1"
    by (simp_all add: example_observations_def final_iteration_def verdict_def changed_generation_def)
  then have "k = 2" using k(1,3) by (metis One_nat_def Suc_1 less_2_cases less_Suc_eq numeral_3_eq_3)
  then show ?thesis unfolding k(4)
    by (simp add: example_observations_def verdict_def unready_replacement_def changed_generation_def asked_before_def numeral_2_eq_2)
qed

text \<open>The initial inventory is written once: a recorded inventory answers with success only
  to its own generation and ids, and no later call changes it.\<close>

lemma RecordInitialInventory_first:
  assumes "initial_inventory_generation control = kUnsetInventoryGeneration"
    and "generation \<noteq> kUnsetInventoryGeneration"
    and "RecordInitialInventory generation node_ids control = (control', answer)"
  shows "answer" "InitialInventoryGeneration control' = Some generation"
    "InitialInventoryNodeIds control' = Some node_ids"
  using assms
  by (auto simp: RecordInitialInventory_def compare_exchange_strong_def Let_def
      InitialInventoryGeneration_def InitialInventoryNodeIds_def)

lemma RecordInitialInventory_again:
  assumes "InitialInventoryGeneration control = Some g" "InitialInventoryNodeIds control = Some ids"
  shows "RecordInitialInventory generation node_ids control = (control, generation = g \<and> node_ids = ids)"
  using assms
  by (auto simp: RecordInitialInventory_def Let_def InitialInventoryGeneration_def
      InitialInventoryNodeIds_def split: if_splits)

lemma SimulationRoleMutationExecutionTimeout_bounds:
  assumes "SimulationRoleMutationExecutionTimeout kind request = Inr t"
  shows "1 \<le> t \<and> t \<le> 3600"
proof -
  have "ok (ValidateSimulationRoleMutationRequest kind request)"
    using assms by (auto simp: SimulationRoleMutationExecutionTimeout_def result_simps ok_iff)
  then show ?thesis
    using assms unfolding ValidateSimulationRoleMutationRequest_iff
    by (auto simp: SimulationRoleMutationExecutionTimeout_def result_simps Let_def split: option.splits if_splits)
qed

end
