(* ===== verification/Process_Signal.thy ===== *)
theory Process_Signal
  imports BBP_Prelude
begin

text \<open>
  Names and numbers of process signals, \<open>src/process_signal.cpp\<close>. The numbers of the
  signal macros, \<open>NSIG\<close> and the real-time range come from the host's C library and are a
  parameter; a macro the host does not define is \<open>None\<close>. Delivery through a pidfd is a
  system call and is not modelled.
\<close>

record host_signals =
  signal_macro :: "string \<Rightarrow> int option"
  NSIG :: int
  SIGRTMIN :: int
  SIGRTMAX :: int

datatype ProcessSignalScope = kProcess | kProcessGroup

record ProcessSignalRequest =
  sg_signal :: int
  sg_scope :: ProcessSignalScope

definition signal_names :: "string list" where
  "signal_names =
     [''SIGHUP'', ''SIGINT'', ''SIGQUIT'', ''SIGILL'', ''SIGTRAP'', ''SIGABRT'', ''SIGBUS'',
      ''SIGFPE'', ''SIGKILL'', ''SIGUSR1'', ''SIGSEGV'', ''SIGUSR2'', ''SIGPIPE'', ''SIGALRM'',
      ''SIGTERM'', ''SIGCHLD'', ''SIGCONT'', ''SIGSTOP'', ''SIGTSTP'', ''SIGTTIN'', ''SIGTTOU'',
      ''SIGURG'', ''SIGXCPU'', ''SIGXFSZ'', ''SIGVTALRM'', ''SIGPROF'', ''SIGWINCH'', ''SIGIO'',
      ''SIGSYS'', ''SIGPWR'', ''SIGSTKFLT'', ''SIGEMT'', ''SIGPOLL'', ''SIGIOT'', ''SIGCLD'']"

definition kNamedSignals :: "host_signals \<Rightarrow> (string \<times> int) list" where
  "kNamedSignals host = concat (map (\<lambda>name. case signal_macro host name of
      None \<Rightarrow> [] | Some number \<Rightarrow> [(name, number)]) signal_names)"

text \<open>\<open>std::from_chars\<close> reads the longest run of digits and fails above the range of \<open>int\<close>;
  the caller wants the whole text to be read.\<close>

definition Decimal :: "string \<Rightarrow> int result" where
  "Decimal value =
     (if value = [] \<or> \<not> is_digit (hd value)
      then Inl (InvalidArgument ''signal requires an unsigned decimal number'')
      else let parsed = decimal_value (takeWhile is_digit value) in
      if parsed > 2147483647 \<or> dropWhile is_digit value \<noteq> []
      then Inl (InvalidArgument ''signal contains an invalid decimal number'')
      else Inr (int parsed))"

definition RequireSignal :: "host_signals \<Rightarrow> int \<Rightarrow> unit result" where
  "RequireSignal host signal =
     (if signal \<le> 0 \<or> signal \<ge> NSIG host
      then Inl (InvalidArgument ''signal number is unavailable on this host'')
      else Inr ())"

definition ParseProcessSignal :: "host_signals \<Rightarrow> string \<Rightarrow> int result" where
  "ParseProcessSignal host value =
     (case find (\<lambda>(name, number). value = name) (kNamedSignals host) of
        Some (name, number) \<Rightarrow> Inr number
      | None \<Rightarrow>
        if value = ''SIGRTMIN'' then Inr (SIGRTMIN host)
        else if value = ''SIGRTMAX'' then Inr (SIGRTMAX host)
        else if prefix ''SIGRTMIN+'' value \<or> prefix ''SIGRTMAX-'' value
        then bind_result (Decimal (drop 9 value)) (\<lambda>offset.
          if offset > SIGRTMAX host - SIGRTMIN host
          then Inl (InvalidArgument ''real-time signal is unavailable on this host'')
          else Inr (if prefix ''SIGRTMIN+'' value then SIGRTMIN host + offset
                    else SIGRTMAX host - offset))
        else bind_result (Decimal value) (\<lambda>number.
          bind_result (RequireSignal host number) (\<lambda>_. Inr number)))"

definition ProcessSignalName :: "host_signals \<Rightarrow> int \<Rightarrow> string result" where
  "ProcessSignalName host signal =
     bind_result (RequireSignal host signal) (\<lambda>_.
       case find (\<lambda>(name, number). signal = number) (kNamedSignals host) of
         Some (name, number) \<Rightarrow> Inr name
       | None \<Rightarrow>
         if signal = SIGRTMIN host then Inr ''SIGRTMIN''
         else if signal = SIGRTMAX host then Inr ''SIGRTMAX''
         else if signal > SIGRTMIN host \<and> signal < SIGRTMAX host
         then Inr (''SIGRTMIN+'' @ to_string (nat (signal - SIGRTMIN host)))
         else Inr (to_string (nat signal)))"

definition ParseProcessSignalScope :: "string \<Rightarrow> ProcessSignalScope result" where
  "ParseProcessSignalScope value =
     (if value = ''process'' then Inr kProcess
      else if value = ''process_group'' then Inr kProcessGroup
      else Inl (InvalidArgument ''signal scope must be process or process_group''))"

fun ProcessSignalScopeName :: "ProcessSignalScope \<Rightarrow> string" where
  "ProcessSignalScopeName kProcess = ''process''"
| "ProcessSignalScopeName kProcessGroup = ''process_group''"

subsection \<open>Round trip\<close>

text \<open>What the C library documents: signal numbers lie strictly between zero and \<open>NSIG\<close>,
  and the real-time signals are an interval of them.\<close>

definition documented_signals :: "host_signals \<Rightarrow> bool" where
  "documented_signals host \<longleftrightarrow>
     list_all (\<lambda>(name, number). 0 < number \<and> number < NSIG host) (kNamedSignals host) \<and>
     0 < SIGRTMIN host \<and> SIGRTMIN host \<le> SIGRTMAX host \<and> SIGRTMAX host < NSIG host \<and>
     NSIG host \<le> 2147483647"

lemma Decimal_to_string [simp]:
  assumes "n \<le> 2147483647"
  shows "Decimal (to_string n) = Inr (int n)"
proof -
  have digits: "takeWhile is_digit (to_string n) = to_string n" "dropWhile is_digit (to_string n) = []"
    using to_string_digits [of n] by (auto simp: list_all_iff)
  show ?thesis unfolding Decimal_def digits Let_def using assms by simp
qed

lemma Decimal_nonneg: "Decimal value = Inr n \<Longrightarrow> 0 \<le> n"
  by (auto simp: Decimal_def Let_def split: if_splits)

lemma kNamedSignals_iff:
  "(name, number) \<in> set (kNamedSignals host) \<longleftrightarrow>
     name \<in> set signal_names \<and> signal_macro host name = Some number"
  by (auto simp: kNamedSignals_def split: option.splits)

lemma find_by_name:
  "find (\<lambda>(name, number). value = name) (kNamedSignals host) = 
    (if value \<in> set signal_names then map_option (\<lambda>number. (value, number)) (signal_macro host value) else None)"
proof (cases "find (\<lambda>(name, number). value = name) (kNamedSignals host)")
  case None
  have "signal_macro host value = None" if named: "value \<in> set signal_names"
  proof (rule ccontr)
    assume "signal_macro host value \<noteq> None"
    then obtain number where "(value, number) \<in> set (kNamedSignals host)"
      using named by (auto simp: kNamedSignals_iff)
    then show False using None by (auto simp: find_None_iff)
  qed
  then show ?thesis using None by simp
next
  case (Some p)
  then obtain number where "p = (value, number)" "(value, number) \<in> set (kNamedSignals host)"
    using find_SomeD [OF Some] by (cases p) auto
  then show ?thesis using Some by (simp add: kNamedSignals_iff)
qed

lemma signal_names_letters:
  "name \<in> set signal_names \<Longrightarrow> CHR ''+'' \<notin> set name \<and> name \<noteq> [] \<and> \<not> is_digit (hd name)"
proof -
  have "list_all (\<lambda>name. CHR ''+'' \<notin> set name \<and> name \<noteq> [] \<and> \<not> is_digit (hd name)) signal_names"
    by code_simp
  then show "name \<in> set signal_names \<Longrightarrow> CHR ''+'' \<notin> set name \<and> name \<noteq> [] \<and> \<not> is_digit (hd name)"
    by (simp add: list_all_iff)
qed

lemma real_time_not_named: "''SIGRTMIN'' \<notin> set signal_names" "''SIGRTMAX'' \<notin> set signal_names"
  unfolding signal_names_def by simp_all

lemma Parse_not_found:
  assumes "find (\<lambda>(name, number). value = name) (kNamedSignals host) = None"
  shows "ParseProcessSignal host value =
    (if value = ''SIGRTMIN'' then Inr (SIGRTMIN host)
     else if value = ''SIGRTMAX'' then Inr (SIGRTMAX host)
     else if prefix ''SIGRTMIN+'' value \<or> prefix ''SIGRTMAX-'' value
     then bind_result (Decimal (drop 9 value)) (\<lambda>offset.
       if offset > SIGRTMAX host - SIGRTMIN host
       then Inl (InvalidArgument ''real-time signal is unavailable on this host'')
       else Inr (if prefix ''SIGRTMIN+'' value then SIGRTMIN host + offset else SIGRTMAX host - offset))
     else bind_result (Decimal value) (\<lambda>number. bind_result (RequireSignal host number) (\<lambda>_. Inr number)))"
  using assms by (simp add: ParseProcessSignal_def)

lemma ParseProcessSignal_valid:
  assumes "documented_signals host" "ParseProcessSignal host value = Inr signal"
  shows "0 < signal \<and> signal < NSIG host"
proof (cases "find (\<lambda>(name, number). value = name) (kNamedSignals host)")
  case None
  have host: "0 < SIGRTMIN host" "SIGRTMIN host \<le> SIGRTMAX host" "SIGRTMAX host < NSIG host"
    using assms(1) by (auto simp: documented_signals_def)
  have "signal = SIGRTMIN host \<or> signal = SIGRTMAX host \<or> (0 < signal \<and> signal < NSIG host) \<or>
      (\<exists>offset. Decimal (drop 9 value) = Inr offset \<and> offset \<le> SIGRTMAX host - SIGRTMIN host \<and>
        (signal = SIGRTMIN host + offset \<or> signal = SIGRTMAX host - offset))"
    using assms(2) unfolding Parse_not_found [OF None]
    by (auto simp: RequireSignal_def result_simps not_less split: if_splits)
  then show ?thesis using Decimal_nonneg [of "drop 9 value"] host by fastforce
next
  case (Some p)
  then have "p \<in> set (kNamedSignals host)" using find_SomeD by fast
  then show ?thesis
    using Some assms by (auto simp: ParseProcessSignal_def documented_signals_def list_all_iff)
qed

lemma Parse_unnamed:
  assumes "value \<notin> set signal_names"
  shows "find (\<lambda>(name, number). value = name) (kNamedSignals host) = None"
  using assms unfolding find_by_name by simp

lemmas Parse_unnamed_simp = Parse_not_found [OF Parse_unnamed]

lemma Parse_Name:
  assumes doc: "documented_signals host" and range: "0 < signal" "signal < NSIG host"
  shows "\<exists>name. ProcessSignalName host signal = Inr name \<and> ParseProcessSignal host name = Inr signal"
proof (cases "find (\<lambda>(name, number). signal = number) (kNamedSignals host)")
  case (Some p)
  then obtain name where p: "p = (name, signal)" "(name, signal) \<in> set (kNamedSignals host)"
    using find_SomeD [OF Some] by (cases p) auto
  then have "ParseProcessSignal host name = Inr signal"
    by (simp add: ParseProcessSignal_def find_by_name kNamedSignals_iff)
  then show ?thesis using Some p range by (simp add: ProcessSignalName_def RequireSignal_def)
next
  case None
  note D = doc [unfolded documented_signals_def]
  consider (rtmin) "signal = SIGRTMIN host" | (rtmax) "signal \<noteq> SIGRTMIN host" "signal = SIGRTMAX host"
    | (between) "SIGRTMIN host < signal" "signal < SIGRTMAX host"
    | (other) "signal \<noteq> SIGRTMIN host" "signal \<noteq> SIGRTMAX host" "\<not> (SIGRTMIN host < signal \<and> signal < SIGRTMAX host)"
    by linarith
  then show ?thesis
  proof cases
    case between
    let ?k = "nat (signal - SIGRTMIN host)"
    have "''SIGRTMIN+'' @ to_string ?k \<notin> set signal_names"
      using signal_names_letters [of "''SIGRTMIN+'' @ to_string ?k"] by auto
    moreover have "?k \<le> 2147483647" using D between by auto
    ultimately have "ParseProcessSignal host (''SIGRTMIN+'' @ to_string ?k) = Inr signal"
      using between by (simp add: Parse_unnamed_simp)
    then show ?thesis using None between range by (simp add: ProcessSignalName_def RequireSignal_def)
  next
    case other
    have k: "nat signal \<le> 2147483647" using D range by auto
    have first: "is_digit (hd (to_string (nat signal)))" by simp
    have plain: "to_string (nat signal) \<notin> set signal_names" "to_string (nat signal) \<noteq> ''SIGRTMIN''"
      "to_string (nat signal) \<noteq> ''SIGRTMAX''" "\<not> prefix ''SIGRTMIN+'' (to_string (nat signal))"
      "\<not> prefix ''SIGRTMAX-'' (to_string (nat signal))"
      using first signal_names_letters [of "to_string (nat signal)"]
      by (auto simp: is_digit_def elim!: prefixE)
    then have "ParseProcessSignal host (to_string (nat signal)) = Inr signal"
      using k range by (simp add: Parse_unnamed_simp RequireSignal_def)
    then show ?thesis using None other range by (auto simp: ProcessSignalName_def RequireSignal_def)
  qed (use None range real_time_not_named in \<open>simp_all add: ProcessSignalName_def RequireSignal_def Parse_unnamed_simp\<close>)
qed

text \<open>C15. Every signal of the host has a name, and parsing the name gives the signal back;
  every text that parses denotes a signal of the host. A name is unique up to the aliases
  of the C library.\<close>

theorem signal_round_trip:
  assumes "documented_signals host"
  shows "(\<exists>name. ProcessSignalName host signal = Inr name \<and> ParseProcessSignal host name = Inr signal) \<longleftrightarrow>
      (\<exists>value. ParseProcessSignal host value = Inr signal)"
  using Parse_Name ParseProcessSignal_valid assms by metis

text \<open>The numbers of Linux on x86-64.\<close>

definition linux_table :: "(string \<times> int) list" where
  "linux_table =
     [(''SIGHUP'', 1), (''SIGINT'', 2), (''SIGQUIT'', 3), (''SIGILL'', 4), (''SIGTRAP'', 5),
      (''SIGABRT'', 6), (''SIGBUS'', 7), (''SIGFPE'', 8), (''SIGKILL'', 9), (''SIGUSR1'', 10),
      (''SIGSEGV'', 11), (''SIGUSR2'', 12), (''SIGPIPE'', 13), (''SIGALRM'', 14), (''SIGTERM'', 15),
      (''SIGSTKFLT'', 16), (''SIGCHLD'', 17), (''SIGCONT'', 18), (''SIGSTOP'', 19), (''SIGTSTP'', 20),
      (''SIGTTIN'', 21), (''SIGTTOU'', 22), (''SIGURG'', 23), (''SIGXCPU'', 24), (''SIGXFSZ'', 25),
      (''SIGVTALRM'', 26), (''SIGPROF'', 27), (''SIGWINCH'', 28), (''SIGIO'', 29), (''SIGPWR'', 30),
      (''SIGSYS'', 31), (''SIGPOLL'', 29), (''SIGIOT'', 6), (''SIGCLD'', 17)]"

definition linux_signals :: host_signals where
  "linux_signals = \<lparr>signal_macro = map_of linux_table, NSIG = 65, SIGRTMIN = 34, SIGRTMAX = 64\<rparr>"

theorem signal_round_trip_witness:
  "documented_signals linux_signals \<and>
   (\<exists>name. ProcessSignalName linux_signals 40 = Inr name \<and> ParseProcessSignal linux_signals name = Inr 40) \<and>
   ParseProcessSignal linux_signals ''SIGRTMAX-24'' = Inr 40"
proof -
  have "0 < number \<and> number < 65" if "signal_macro linux_signals name = Some number" for name number
  proof -
    have "list_all (\<lambda>p. 0 < snd p \<and> snd p < 65) linux_table" by code_simp
    then show ?thesis using that by (auto simp: linux_signals_def list_all_iff dest!: map_of_SomeD)
  qed
  then have doc: "documented_signals linux_signals"
    by (auto simp: documented_signals_def list_all_iff kNamedSignals_iff linux_signals_def)
  have parsed: "ParseProcessSignal linux_signals ''SIGRTMAX-24'' = Inr 40"
    using Decimal_to_string [of 24]
    by (subst Parse_unnamed_simp) (auto simp: signal_names_def linux_signals_def Decimal_def decimal_value_def digit_value_def is_digit_def)
  show ?thesis using signal_round_trip [OF doc, of 40] doc parsed by blast
qed

end
