(* ===== verification/Resource_Limits.thy ===== *)
theory Resource_Limits
  imports BBP_Prelude
begin

text \<open>
  Resource limits of a node and the patches an operator applies to them:
  \<open>src/resource_limit_patch.cpp\<close>, with the block device identifiers of \<open>src/cgroup.cpp\<close>.
  Limits are 64-bit and device numbers 32-bit words.
\<close>

record BlockDeviceId =
  bd_major :: u32
  bd_minor :: u32

record IoLimit =
  io_device :: BlockDeviceId
  read_bytes_per_sec :: "u64 option"
  write_bytes_per_sec :: "u64 option"
  read_operations_per_sec :: "u64 option"
  write_operations_per_sec :: "u64 option"

record ResourceLimits =
  rl_memory_high_bytes :: u64
  rl_memory_max_bytes :: u64
  rl_cpu_quota_us :: "u64 option"
  rl_cpu_period_us :: u64
  rl_cpu_weight :: u64
  rl_io_weight :: u64
  rl_io_limits :: "IoLimit list"
  rl_pids_max :: u64

record ResourceLimitPatch =
  memory_high_bytes :: "u64 option"
  memory_max_bytes :: "u64 option"
  cpu_quota_present :: bool
  cpu_quota_us :: "u64 option"
  cpu_period_us :: "u64 option"
  cpu_weight :: "u64 option"
  io_weight :: "u64 option"
  io_limits_present :: bool
  io_limits :: "IoLimit list"
  pids_max :: "u64 option"

subsection \<open>Block device identifiers\<close>

text \<open>\<open>std::from_chars\<close> on an unsigned 64-bit value: the longest run of digits, which must
  not be empty, must fit, and here must be the whole text.\<close>

definition ParseUint64 :: "string \<Rightarrow> string \<Rightarrow> u64 result" where
  "ParseUint64 text ctx =
     (if text = [] then Inl (RuntimeError (''empty uint64 value in '' @ ctx))
      else let digits = takeWhile is_digit text in
      if digits = [] \<or> decimal_value digits > unat max_u64 \<or> length digits \<noteq> length text
      then Inl (RuntimeError (''invalid uint64 value in '' @ ctx @ '': '' @ text))
      else Inr (of_nat (decimal_value digits)))"

definition ParseBlockDeviceId :: "string \<Rightarrow> BlockDeviceId result" where
  "ParseBlockDeviceId text =
     (let separator = length (takeWhile (\<lambda>c. c \<noteq> CHR '':'') text) in
      if CHR '':'' \<notin> set text \<or> separator = 0 \<or> separator + 1 \<ge> length text \<or>
         CHR '':'' \<in> set (drop (separator + 1) text)
      then Inl (RuntimeError (''invalid block device id: '' @ text))
      else bind_result (ParseUint64 (take separator text) ''block device major'') (\<lambda>major.
        bind_result (ParseUint64 (drop (separator + 1) text) ''block device minor'') (\<lambda>minor.
          if major > 4294967295 \<or> minor > 4294967295
          then Inl (RuntimeError (''block device id exceeds uint32: '' @ text))
          else Inr \<lparr>bd_major = ucast major, bd_minor = ucast minor\<rparr>)))"

definition BlockDeviceIdText :: "BlockDeviceId \<Rightarrow> string" where
  "BlockDeviceIdText device =
     to_string (unat (bd_major device)) @ '':'' @ to_string (unat (bd_minor device))"

subsection \<open>Patches\<close>

definition RequirePositive :: "u64 \<Rightarrow> string \<Rightarrow> string \<Rightarrow> unit result" where
  "RequirePositive limit field ctx =
     (if limit = 0 then Inl (RuntimeError (ctx @ '' '' @ field @ '' must be greater than zero''))
      else Inr ())"

definition RequireWeight :: "u64 \<Rightarrow> string \<Rightarrow> string \<Rightarrow> unit result" where
  "RequireWeight limit field ctx =
     (if limit < 1 \<or> limit > 10000
      then Inl (RuntimeError (ctx @ '' '' @ field @ '' must be in 1..10000''))
      else Inr ())"

text \<open>A check that is made when the optional has a value.\<close>

definition when_some :: "'a option \<Rightarrow> ('a \<Rightarrow> unit result) \<Rightarrow> unit result" where
  "when_some field check = (case field of None \<Rightarrow> Inr () | Some v \<Rightarrow> check v)"

definition IoLimitFinite :: "IoLimit \<Rightarrow> bool" where
  "IoLimitFinite limit \<longleftrightarrow> read_bytes_per_sec limit \<noteq> None \<or> write_bytes_per_sec limit \<noteq> None \<or>
     read_operations_per_sec limit \<noteq> None \<or> write_operations_per_sec limit \<noteq> None"

definition ValidateIoLimit :: "IoLimit \<Rightarrow> string \<Rightarrow> unit result" where
  "ValidateIoLimit limit ctx =
     (let validate = (\<lambda>field name. when_some field (\<lambda>v. RequirePositive v name ctx)) in
      bind_result (validate (read_bytes_per_sec limit) ''io read_bytes_per_sec'') (\<lambda>_.
      bind_result (validate (write_bytes_per_sec limit) ''io write_bytes_per_sec'') (\<lambda>_.
      bind_result (validate (read_operations_per_sec limit) ''io read_operations_per_sec'') (\<lambda>_.
      validate (write_operations_per_sec limit) ''io write_operations_per_sec''))))"

definition ResourceLimitPatchIsEmpty :: "ResourceLimitPatch \<Rightarrow> bool" where
  "ResourceLimitPatchIsEmpty patch \<longleftrightarrow>
     memory_high_bytes patch = None \<and> memory_max_bytes patch = None \<and>
     \<not> cpu_quota_present patch \<and> cpu_period_us patch = None \<and> cpu_weight patch = None \<and>
     io_weight patch = None \<and> \<not> io_limits_present patch \<and> pids_max patch = None"

definition CheckIoLimit :: "string \<Rightarrow> IoLimit \<Rightarrow> BlockDeviceId set \<Rightarrow> BlockDeviceId set result" where
  "CheckIoLimit ctx limit devices =
     bind_result (ValidateIoLimit limit ctx) (\<lambda>_.
       if io_device limit \<in> devices
       then Inl (RuntimeError (ctx @ '' contains a duplicate block device: '' @
              BlockDeviceIdText (io_device limit)))
       else Inr (insert (io_device limit) devices))"

definition ValidateResourceLimitPatch :: "ResourceLimitPatch \<Rightarrow> string \<Rightarrow> unit result" where
  "ValidateResourceLimitPatch patch ctx =
     (if ResourceLimitPatchIsEmpty patch then Inl (RuntimeError (ctx @ '' has no limit fields''))
      else
      bind_result (when_some (memory_max_bytes patch) (\<lambda>v. RequirePositive v ''memory_max_bytes'' ctx)) (\<lambda>_.
      bind_result (when_some (cpu_quota_us patch) (\<lambda>v. RequirePositive v ''cpu_quota_us'' ctx)) (\<lambda>_.
      bind_result (when_some (cpu_period_us patch) (\<lambda>v. RequirePositive v ''cpu_period_us'' ctx)) (\<lambda>_.
      bind_result (when_some (cpu_weight patch) (\<lambda>v. RequireWeight v ''cpu_weight'' ctx)) (\<lambda>_.
      bind_result (when_some (io_weight patch) (\<lambda>v. RequireWeight v ''io_weight'' ctx)) (\<lambda>_.
      bind_result (when_some (pids_max patch) (\<lambda>v. RequirePositive v ''pids_max'' ctx)) (\<lambda>_.
      if (case (memory_high_bytes patch, memory_max_bytes patch) of
            (Some high, Some maximum) \<Rightarrow> high > maximum | _ \<Rightarrow> False)
      then Inl (RuntimeError (ctx @
             '' memory_high_bytes must be less than or equal to memory_max_bytes''))
      else bind_result (fold_result (CheckIoLimit ctx) (io_limits patch) {}) (\<lambda>_.
      if \<not> io_limits_present patch \<and> io_limits patch \<noteq> []
      then Inl (RuntimeError (ctx @ '' has io limits without io_limits_present''))
      else Inr ()))))))))"

text \<open>The assignment and the erasure through the iterator that \<open>std::find_if\<close> returns.\<close>

fun replace_device :: "IoLimit \<Rightarrow> IoLimit list \<Rightarrow> IoLimit list" where
  "replace_device mutation [] = []"
| "replace_device mutation (limit # limits) =
     (if io_device limit = io_device mutation then mutation # limits
      else limit # replace_device mutation limits)"

fun erase_device :: "IoLimit \<Rightarrow> IoLimit list \<Rightarrow> IoLimit list" where
  "erase_device mutation [] = []"
| "erase_device mutation (limit # limits) =
     (if io_device limit = io_device mutation then limits
      else limit # erase_device mutation limits)"

definition ResolveOperatorResourceLimitPatch ::
    "ResourceLimits \<Rightarrow> ResourceLimitPatch \<Rightarrow> ResourceLimitPatch result" where
  "ResolveOperatorResourceLimitPatch current requested =
     bind_result (ValidateResourceLimitPatch requested ''operator resource update'') (\<lambda>_.
       if \<not> io_limits_present requested then Inr requested
       else if length (io_limits requested) \<noteq> 1
       then Inl (RuntimeError ''operator io resource update requires exactly one block device'')
       else let resolved = rl_io_limits current; mutation = hd (io_limits requested);
                existing = list_ex (\<lambda>candidate. io_device candidate = io_device mutation) resolved in
       Inr (requested\<lparr>io_limits :=
         if IoLimitFinite mutation
         then (if \<not> existing then resolved @ [mutation] else replace_device mutation resolved)
         else if existing then erase_device mutation resolved else resolved\<rparr>))"

subsection \<open>Device identifiers survive printing and parsing\<close>

lemma ParseUint64_to_string:
  assumes "n < 18446744073709551616"
  shows "ParseUint64 (to_string n) ctx = Inr (of_nat n)"
proof -
  have digits: "takeWhile is_digit (to_string n) = to_string n"
    using to_string_digits [of n] by (auto simp: list_all_iff)
  show ?thesis unfolding ParseUint64_def digits Let_def using assms by simp
qed

lemma no_colon_in_digits: "list_all is_digit s \<Longrightarrow> CHR '':'' \<notin> set s"
  by (auto simp: list_all_iff is_digit_def)

lemma ParseBlockDeviceId_round_trip: "ParseBlockDeviceId (BlockDeviceIdText device) = Inr device"
proof -
  let ?a = "to_string (unat (bd_major device))" and ?b = "to_string (unat (bd_minor device))"
  have colon: "CHR '':'' \<notin> set ?a" "CHR '':'' \<notin> set ?b"
    using no_colon_in_digits to_string_digits by blast+
  have tw: "takeWhile (\<lambda>c. c \<noteq> CHR '':'') (?a @ CHR '':'' # ?b) = ?a"
    using colon(1) by (subst takeWhile_append2) auto
  have small: "unat (w :: u32) < 18446744073709551616" for w
    using unsigned_less [of w, where 'a = nat] by simp
  have widen: "unat (ucast (w :: u32) :: u64) = unat w" for w
    using small [of w] by (simp add: unsigned_ucast_eq take_bit_nat_eq_self_iff)
  have le: "\<not> (of_nat (unat (w :: u32)) :: u64) > 4294967295" for w
    using unsigned_less [of w, where 'a = nat] by (simp add: word_less_nat_alt widen)
  have back_cast: "ucast (ucast (w :: u32) :: u64) = w" for w
    using unsigned_less [of w, where 'a = nat]
    by (simp add: word_unat_eq_iff unsigned_ucast_eq take_bit_nat_eq_self_iff take_bit_word_eq_self)
  show ?thesis
    unfolding ParseBlockDeviceId_def BlockDeviceIdText_def Let_def append_Cons append_Nil tw
    using colon le by (simp add: ParseUint64_to_string small back_cast)
qed

subsection \<open>Validation\<close>

definition positive :: "u64 option \<Rightarrow> bool" where
  "positive field \<longleftrightarrow> field \<noteq> Some 0"

definition weight :: "u64 option \<Rightarrow> bool" where
  "weight field \<longleftrightarrow> (case field of None \<Rightarrow> True | Some v \<Rightarrow> 1 \<le> v \<and> v \<le> 10000)"

definition valid_io_limit :: "IoLimit \<Rightarrow> bool" where
  "valid_io_limit limit \<longleftrightarrow> positive (read_bytes_per_sec limit) \<and> positive (write_bytes_per_sec limit) \<and>
     positive (read_operations_per_sec limit) \<and> positive (write_operations_per_sec limit)"

definition valid_io_limits :: "IoLimit list \<Rightarrow> bool" where
  "valid_io_limits limits \<longleftrightarrow> list_all valid_io_limit limits \<and> distinct (map io_device limits)"

lemma RequirePositive_Inr [result_simps]: "RequirePositive v field ctx = Inr u \<longleftrightarrow> v \<noteq> 0"
  by (simp add: RequirePositive_def)

lemma RequireWeight_Inr [result_simps]: "RequireWeight v field ctx = Inr u \<longleftrightarrow> 1 \<le> v \<and> v \<le> 10000"
  unfolding RequireWeight_def linorder_not_less [symmetric] by simp

lemma when_positive [result_simps]:
  "when_some field (\<lambda>v. RequirePositive v name ctx) = Inr u \<longleftrightarrow> positive field"
  by (auto simp: when_some_def positive_def result_simps split: option.splits)

lemma when_weight [result_simps]:
  "when_some field (\<lambda>v. RequireWeight v name ctx) = Inr u \<longleftrightarrow> weight field"
  by (auto simp: when_some_def weight_def result_simps split: option.splits)

lemma ValidateIoLimit_Inr: "ValidateIoLimit limit ctx = Inr u \<longleftrightarrow> valid_io_limit limit"
  by (simp add: ValidateIoLimit_def valid_io_limit_def Let_def result_simps)

lemma CheckIoLimit_loop:
  "(\<exists>devices'. fold_result (CheckIoLimit ctx) limits devices = Inr devices') \<longleftrightarrow>
     valid_io_limits limits \<and> io_device ` set limits \<inter> devices = {}"
proof (induction limits arbitrary: devices)
  case (Cons limit limits)
  have "CheckIoLimit ctx limit devices = Inr d \<longleftrightarrow>
      valid_io_limit limit \<and> io_device limit \<notin> devices \<and> d = insert (io_device limit) devices" for d
    by (auto simp: CheckIoLimit_def result_simps ValidateIoLimit_Inr)
  then have "(\<exists>devices'. fold_result (CheckIoLimit ctx) (limit # limits) devices = Inr devices') \<longleftrightarrow>
      valid_io_limit limit \<and> io_device limit \<notin> devices \<and>
      (\<exists>devices'. fold_result (CheckIoLimit ctx) limits (insert (io_device limit) devices) = Inr devices')"
    by (auto simp: result_simps)
  then show ?case unfolding Cons by (auto simp: valid_io_limits_def)
qed (simp add: valid_io_limits_def)

lemma ValidateResourceLimitPatch_iff:
  "ValidateResourceLimitPatch patch ctx = Inr () \<longleftrightarrow>
     \<not> ResourceLimitPatchIsEmpty patch \<and> positive (memory_max_bytes patch) \<and>
     positive (cpu_quota_us patch) \<and> positive (cpu_period_us patch) \<and>
     weight (cpu_weight patch) \<and> weight (io_weight patch) \<and> positive (pids_max patch) \<and>
     (case (memory_high_bytes patch, memory_max_bytes patch) of
        (Some high, Some maximum) \<Rightarrow> high \<le> maximum | _ \<Rightarrow> True) \<and>
     valid_io_limits (io_limits patch) \<and> (io_limits_present patch \<or> io_limits patch = [])"
  using CheckIoLimit_loop [of ctx "io_limits patch" "{}"]
  by (auto simp: ValidateResourceLimitPatch_def result_simps not_less split: option.splits)

subsection \<open>Resolution of an operator's patch\<close>

definition device_limit :: "IoLimit list \<Rightarrow> BlockDeviceId \<Rightarrow> IoLimit option" where
  "device_limit limits device = find (\<lambda>limit. io_device limit = device) limits"

lemma device_limit_simps [simp]:
  "device_limit [] device = None"
  "device_limit (limit # limits) device = (if io_device limit = device then Some limit else device_limit limits device)"
  by (simp_all add: device_limit_def)

lemma device_limit_None: "device_limit limits device = None \<longleftrightarrow> device \<notin> io_device ` set limits"
  by (induction limits) auto

lemma device_limit_append:
  "device_limit (xs @ ys) device = (case device_limit xs device of None \<Rightarrow> device_limit ys device | Some l \<Rightarrow> Some l)"
  by (induction xs) auto

lemma device_limit_replace:
  "device_limit (replace_device mutation limits) device =
     (if device = io_device mutation \<and> device_limit limits device \<noteq> None then Some mutation
      else device_limit limits device)"
  by (induction mutation limits rule: replace_device.induct) auto

lemma map_replace_device [simp]: "map io_device (replace_device mutation limits) = map io_device limits"
  by (induction mutation limits rule: replace_device.induct) auto

lemma set_replace_device: "set (replace_device mutation limits) \<subseteq> insert mutation (set limits)"
  by (induction mutation limits rule: replace_device.induct) auto

lemma set_erase_device: "set (erase_device mutation limits) \<subseteq> set limits"
  by (induction mutation limits rule: erase_device.induct) auto

lemma device_limit_erase:
  "distinct (map io_device limits) \<Longrightarrow> device_limit (erase_device mutation limits) device =
     (if device = io_device mutation then None else device_limit limits device)"
  by (induction mutation limits rule: erase_device.induct) (auto simp: device_limit_None)

lemma distinct_erase_device:
  "distinct (map io_device limits) \<Longrightarrow> distinct (map io_device (erase_device mutation limits))"
  by (induction mutation limits rule: erase_device.induct) (auto dest!: subsetD [OF set_erase_device])

lemma resolved_limits_valid:
  assumes "valid_io_limits limits" "valid_io_limit mutation"
  shows "valid_io_limits (replace_device mutation limits)" "valid_io_limits (erase_device mutation limits)"
    "\<not> list_ex (\<lambda>candidate. io_device candidate = io_device mutation) limits \<Longrightarrow> valid_io_limits (limits @ [mutation])"
  using assms set_replace_device [of mutation limits] set_erase_device [of mutation limits]
    distinct_erase_device [of limits mutation]
  unfolding valid_io_limits_def list_all_iff list_ex_iff by auto

text \<open>C16. An accepted io patch names one device. What it resolves to has the requested limit
  for that device, none if the request is unlimited, and keeps the limits of every other
  device; the other fields are the request's, and the resolved patch is valid again.\<close>

theorem resolve_patch_spec:
  assumes "valid_io_limits (rl_io_limits current)" "io_limits_present requested"
    and "ResolveOperatorResourceLimitPatch current requested = Inr resolved"
  shows "\<exists>mutation. io_limits requested = [mutation] \<and>
    device_limit (io_limits resolved) =
      (device_limit (rl_io_limits current))(io_device mutation := if IoLimitFinite mutation then Some mutation else None) \<and>
    resolved\<lparr>io_limits := io_limits requested\<rparr> = requested \<and>
    ValidateResourceLimitPatch resolved ''operator resource update'' = Inr ()"
proof -
  let ?l = "rl_io_limits current"
  obtain mutation where m: "io_limits requested = [mutation]"
    using assms(2,3) by (cases "io_limits requested") (auto simp: ResolveOperatorResourceLimitPatch_def result_simps split: if_splits)
  let ?e = "list_ex (\<lambda>candidate. io_device candidate = io_device mutation) ?l"
  define limits where "limits = (if IoLimitFinite mutation
         then (if \<not> ?e then ?l @ [mutation] else replace_device mutation ?l)
         else if ?e then erase_device mutation ?l else ?l)"
  have r: "resolved = requested\<lparr>io_limits := limits\<rparr>"
    and v: "ValidateResourceLimitPatch requested ''operator resource update'' = Inr ()"
    using assms(2,3) m by (auto simp: ResolveOperatorResourceLimitPatch_def result_simps limits_def Let_def)
  have e: "?e \<longleftrightarrow> device_limit ?l (io_device mutation) \<noteq> None"
    unfolding device_limit_None list_ex_iff by (simp add: image_iff) metis
  have "valid_io_limit mutation" using v m by (auto simp: ValidateResourceLimitPatch_iff valid_io_limits_def)
  then have valid: "valid_io_limits limits"
    unfolding limits_def using resolved_limits_valid [OF assms(1), of mutation] assms(1) by simp
  have "device_limit limits = (device_limit ?l)(io_device mutation := if IoLimitFinite mutation then Some mutation else None)"
    using assms(1) e unfolding limits_def
    by (auto simp: fun_eq_iff device_limit_append device_limit_replace device_limit_erase valid_io_limits_def split: option.splits)
  moreover have "ValidateResourceLimitPatch resolved ''operator resource update'' = Inr ()"
    using v valid assms(2) r m by (simp add: ValidateResourceLimitPatch_iff ResourceLimitPatchIsEmpty_def)
  ultimately show ?thesis using r m by simp
qed

definition example_limit :: "u32 \<Rightarrow> u64 option \<Rightarrow> IoLimit" where
  "example_limit minor reads = \<lparr>io_device = \<lparr>bd_major = 8, bd_minor = minor\<rparr>, read_bytes_per_sec = reads,
     write_bytes_per_sec = None, read_operations_per_sec = None, write_operations_per_sec = None\<rparr>"

definition example_limits :: ResourceLimits where
  "example_limits = \<lparr>rl_memory_high_bytes = 0, rl_memory_max_bytes = 0, rl_cpu_quota_us = None,
     rl_cpu_period_us = 0, rl_cpu_weight = 100, rl_io_weight = 100,
     rl_io_limits = [example_limit 0 (Some 5), example_limit 1 (Some 6)], rl_pids_max = 0\<rparr>"

definition example_patch :: ResourceLimitPatch where
  "example_patch = \<lparr>memory_high_bytes = None, memory_max_bytes = None, cpu_quota_present = False,
     cpu_quota_us = None, cpu_period_us = None, cpu_weight = None, io_weight = None,
     io_limits_present = True, io_limits = [example_limit 0 None], pids_max = None\<rparr>"

theorem resolve_patch_spec_witness:
  "\<exists>resolved. ResolveOperatorResourceLimitPatch example_limits example_patch = Inr resolved \<and>
     device_limit (io_limits resolved) \<lparr>bd_major = 8, bd_minor = 0\<rparr> = None \<and>
     device_limit (io_limits resolved) \<lparr>bd_major = 8, bd_minor = 1\<rparr> = Some (example_limit 1 (Some 6))"
proof -
  have ok: "valid_io_limits (rl_io_limits example_limits)" "io_limits_present example_patch" by code_simp+
  have r: "ResolveOperatorResourceLimitPatch example_limits example_patch
      = Inr (example_patch\<lparr>io_limits := [example_limit 1 (Some 6)]\<rparr>)" by code_simp
  let ?resolved = "example_patch\<lparr>io_limits := [example_limit 1 (Some 6)]\<rparr>"
  have m: "io_limits example_patch = [example_limit 0 None]" "\<not> IoLimitFinite (example_limit 0 None)"
    by code_simp+
  obtain mutation where "io_limits example_patch = [mutation]"
    and d: "device_limit (io_limits ?resolved) = (device_limit (rl_io_limits example_limits))
      (io_device mutation := if IoLimitFinite mutation then Some mutation else None)"
    using resolve_patch_spec [OF ok r] by blast
  then have mutation: "mutation = example_limit 0 None" using m(1) by (simp only: list.inject)
  have "device_limit (io_limits ?resolved) \<lparr>bd_major = 8, bd_minor = 0\<rparr> = None"
    "device_limit (io_limits ?resolved) \<lparr>bd_major = 8, bd_minor = 1\<rparr> = Some (example_limit 1 (Some 6))"
    unfolding d mutation by code_simp+
  then show ?thesis using r by blast
qed

end
