(* ===== verification/Command_Queue.thy ===== *)
theory Command_Queue
  imports Peer_Topology Sim_Command Process_Signal Resource_Limits
    "HOL-Library.List_Lexorder" "HOL-Library.Char_ord"
begin

text \<open>
  The bounded queue through which every producer of commands reaches the simulation loop:
  \<open>src/simulation_command_queue.cpp\<close>. A command is checked against its kind before it is
  accepted, gets the next sequence number, and is taken out in order. Every member
  function is one critical section; a run is the sequence of the critical sections. A
  \<open>double\<close> is carried as its 64-bit pattern. \<open>inet_pton\<close> and the host's signal numbers are
  parameters. The pointer to the control block of an operation is modelled by the block.
\<close>

subsection \<open>Payloads\<close>

datatype ChainKind = kFiro | kBitcoin | kMonero | kChainCount

record BlockProductionPolicy =
  bp_period :: int
  bp_probability :: u64
  bp_seed :: u64

record PeerCountPolicy =
  pc_minimum :: u32
  pc_maximum :: u32

record SimulationNetworkFlow =
  src_address :: string
  src_port :: nat
  dst_address :: string
  dst_port :: nat
  flow_handle :: u32

datatype SimulationPartitionScope = kNodePair | kPartitionGroup | kRegion | kRole

record SimulationPartitionGroup =
  group_ids :: "string list"
  group_node_ids :: "string list"

record SimulationPartition =
  part_scope :: SimulationPartitionScope
  group_a :: SimulationPartitionGroup
  group_b :: SimulationPartitionGroup

datatype PerfCounterKind =
    kCycles | kInstructions | kCacheReferences | kCacheMisses | kBranchInstructions
  | kBranchMisses | kContextSwitches | kPageFaults | kTaskClock

datatype PerfCounterTargetKind = kTargetNode | kTargetWallet | kTargetGroup | kTargetCgroup

record PerfCounterTarget =
  pt_kind :: PerfCounterTargetKind
  pt_id :: string
  pt_node_ids :: "string list"

record SimulationWalletSend =
  sender_wallet_index :: u32
  receiver_wallet_index :: u32
  amount_satoshis :: u64
  fee_satoshis :: u64
  ws_timeout_sec :: u32

record SimulationNodeAddRequest =
  na_chain :: ChainKind
  na_count :: u32
  na_node_ids :: "string list"
  na_binary :: "string option"
  na_topology :: "PeerTopologyConfig option"
  na_resources :: "ResourceLimits option"
  na_network :: "NetworkCondition option"
  na_ready_timeout_sec :: u32
  na_sync_timeout_sec :: u32

record SimulationNodeReplaceRequest =
  nr_chain :: ChainKind
  nr_count :: u32
  nr_node_ids :: "string list"
  nr_binary :: "string option"
  nr_resources :: "ResourceLimitPatch option"
  nr_network :: "NetworkCondition option"
  nr_ready_timeout_sec :: u32
  nr_sync_timeout_sec :: u32

record SimulationNodeRemoveRequest =
  nd_node_ids :: "string list"
  nd_timeout_sec :: u32

record SimulationCommand =
  cmd_sequence :: u64
  cmd_kind :: SimulationCommandKind
  cmd_node_id :: string
  cmd_block_production_policy :: "BlockProductionPolicy option"
  cmd_mining_difficulty :: "u64 option"
  cmd_peer_node_id :: "string option"
  cmd_peer_count_policy :: "PeerCountPolicy option"
  cmd_block_count :: "u32 option"
  cmd_profile :: "string option"
  cmd_resource_limit_patch :: "ResourceLimitPatch option"
  cmd_network_condition :: "NetworkCondition option"
  cmd_network_flow :: "SimulationNetworkFlow option"
  cmd_partition :: "SimulationPartition option"
  cmd_perf_counter_target :: "PerfCounterTarget option"
  cmd_perf_counter_kinds :: "PerfCounterKind list"
  cmd_wallet_send :: "SimulationWalletSend option"
  cmd_node_add :: "SimulationNodeAddRequest option"
  cmd_node_replace :: "SimulationNodeReplaceRequest option"
  cmd_node_remove :: "SimulationNodeRemoveRequest option"
  cmd_role_mutation :: "SimulationRoleMutationRequest option"
  cmd_signal_request :: "ProcessSignalRequest option"
  cmd_target_address :: "string option"
  cmd_confirmed :: bool
  cmd_scheduled_event_sequence :: "u32 option"
  cmd_operation_control :: "SimulationCommandControl option"

text \<open>A command of a kind for a node with every other field at its default.\<close>

definition plain_command :: "SimulationCommandKind \<Rightarrow> string \<Rightarrow> SimulationCommand" where
  "plain_command kind node_id = \<lparr>cmd_sequence = 0, cmd_kind = kind, cmd_node_id = node_id,
     cmd_block_production_policy = None, cmd_mining_difficulty = None, cmd_peer_node_id = None,
     cmd_peer_count_policy = None, cmd_block_count = None, cmd_profile = None,
     cmd_resource_limit_patch = None, cmd_network_condition = None, cmd_network_flow = None,
     cmd_partition = None, cmd_perf_counter_target = None, cmd_perf_counter_kinds = [],
     cmd_wallet_send = None, cmd_node_add = None, cmd_node_replace = None, cmd_node_remove = None,
     cmd_role_mutation = None, cmd_signal_request = None, cmd_target_address = None,
     cmd_confirmed = False, cmd_scheduled_event_sequence = None, cmd_operation_control = None\<rparr>"

subsection \<open>Constructors of the policies\<close>

definition isfinite :: "u64 \<Rightarrow> bool" where
  "isfinite d \<longleftrightarrow> and (drop_bit 52 d) 0x7ff \<noteq> 0x7ff"

definition below_zero :: "u64 \<Rightarrow> bool" where
  "below_zero d \<longleftrightarrow> bit d 63 \<and> and d 0x7fffffffffffffff \<noteq> 0"

definition above_one :: "u64 \<Rightarrow> bool" where
  "above_one d \<longleftrightarrow> \<not> bit d 63 \<and> d > 0x3ff0000000000000"

definition new_BlockProductionPolicy :: "int \<Rightarrow> u64 \<Rightarrow> u64 \<Rightarrow> BlockProductionPolicy result" where
  "new_BlockProductionPolicy period probability seed =
     (if period \<le> 0 then Inl (RuntimeError ''block production period must be positive'')
      else if \<not> isfinite probability \<or> below_zero probability \<or> above_one probability
      then Inl (RuntimeError ''block production probability must be finite and in [0, 1]'')
      else Inr \<lparr>bp_period = period, bp_probability = probability, bp_seed = seed\<rparr>)"

definition new_MiningDifficulty :: "u64 \<Rightarrow> u64 result" where
  "new_MiningDifficulty d =
     (if \<not> isfinite d \<or> bit d 63 \<or> d = 0
      then Inl (RuntimeError ''mining difficulty must be finite and positive'')
      else Inr d)"

definition new_PeerCountPolicy :: "u32 \<Rightarrow> u32 \<Rightarrow> PeerCountPolicy result" where
  "new_PeerCountPolicy minimum maximum =
     (if minimum > maximum
      then Inl (RuntimeError ''minimum peer count must not exceed maximum peer count'')
      else Inr \<lparr>pc_minimum = minimum, pc_maximum = maximum\<rparr>)"

subsection \<open>Validation\<close>

definition SimulationCommandPayloadCount :: "SimulationCommand \<Rightarrow> nat" where
  "SimulationCommandPayloadCount command =
     of_bool (cmd_block_production_policy command \<noteq> None) +
     of_bool (cmd_mining_difficulty command \<noteq> None) +
     of_bool (cmd_peer_node_id command \<noteq> None) +
     of_bool (cmd_peer_count_policy command \<noteq> None) +
     of_bool (cmd_block_count command \<noteq> None) +
     of_bool (cmd_profile command \<noteq> None) +
     of_bool (cmd_resource_limit_patch command \<noteq> None) +
     of_bool (cmd_network_condition command \<noteq> None) +
     of_bool (cmd_network_flow command \<noteq> None) +
     of_bool (cmd_partition command \<noteq> None) +
     of_bool (cmd_perf_counter_target command \<noteq> None) +
     of_bool (cmd_perf_counter_kinds command \<noteq> []) +
     of_bool (cmd_wallet_send command \<noteq> None) +
     of_bool (cmd_node_add command \<noteq> None) +
     of_bool (cmd_node_replace command \<noteq> None) +
     of_bool (cmd_node_remove command \<noteq> None) +
     of_bool (cmd_role_mutation command \<noteq> None) +
     of_bool (cmd_signal_request command \<noteq> None) +
     of_bool (cmd_target_address command \<noteq> None)"

definition RequirePayload :: "SimulationCommand \<Rightarrow> bool \<Rightarrow> nat \<Rightarrow> unit result" where
  "RequirePayload command expected_present expected_count =
     (if \<not> expected_present \<or> SimulationCommandPayloadCount command \<noteq> expected_count
      then Inl (RuntimeError ''simulation command has missing or unexpected typed payload fields'')
      else Inr ())"

text \<open>The payload that \<open>RequirePayload\<close> has found present.\<close>

definition with_payload ::
    "SimulationCommand \<Rightarrow> 'a option \<Rightarrow> nat \<Rightarrow> ('a \<Rightarrow> unit result) \<Rightarrow> unit result" where
  "with_payload command payload expected_count check =
     bind_result (RequirePayload command (payload \<noteq> None) expected_count) (\<lambda>_. check (the payload))"

text \<open>A loop over identifiers that must be non-empty and unique.\<close>

fun unique_ids :: "exn \<Rightarrow> exn \<Rightarrow> string list \<Rightarrow> string set \<Rightarrow> string set result" where
  "unique_ids empty_id duplicate [] seen = Inr seen"
| "unique_ids empty_id duplicate (x # xs) seen =
     (if x = [] then Inl empty_id
      else if x \<in> seen then Inl duplicate
      else unique_ids empty_id duplicate xs (insert x seen))"

definition ValidatePartitionGroup :: "SimulationPartitionGroup \<Rightarrow> string \<Rightarrow> string set result" where
  "ValidatePartitionGroup g name =
     (if group_ids g = []
      then Inl (RuntimeError (''partition '' @ name @ '' requires a group id''))
      else if group_node_ids g = []
      then Inl (RuntimeError (''partition '' @ name @ '' requires a node id''))
      else bind_result (unique_ids
          (RuntimeError (''partition '' @ name @ '' contains an empty group id''))
          (RuntimeError (''partition '' @ name @ '' contains duplicate group ids''))
          (group_ids g) {}) (\<lambda>_.
        unique_ids
          (RuntimeError (''partition '' @ name @ '' contains an empty node id''))
          (RuntimeError (''partition '' @ name @ '' contains duplicate node ids''))
          (group_node_ids g) {}))"

definition ValidatePartition :: "SimulationPartition \<Rightarrow> unit result" where
  "ValidatePartition part =
     bind_result (ValidatePartitionGroup (group_a part) ''group A'') (\<lambda>group_a_nodes.
     bind_result (ValidatePartitionGroup (group_b part) ''group B'') (\<lambda>group_b_nodes.
     bind_result (check_all (\<lambda>node_id.
         if node_id \<in> group_b_nodes
         then Inl (RuntimeError (''partition groups overlap at node '' @ node_id)) else Inr ())
       (sorted_list_of_set group_a_nodes)) (\<lambda>_.
     if part_scope part = kNodePair
     then (if length (group_ids (group_a part)) \<noteq> 1 \<or>
              length (group_node_ids (group_a part)) \<noteq> 1 \<or>
              length (group_ids (group_b part)) \<noteq> 1 \<or>
              length (group_node_ids (group_b part)) \<noteq> 1
           then Inl (RuntimeError ''node-pair partition requires one node in each group'')
           else Inr ())
     else if length (group_ids (group_a part)) \<noteq> 1
     then Inl (RuntimeError ''selected topology partition requires exactly one selected group'')
     else Inr ())))"

definition ValidateIpv4Address :: "(string \<Rightarrow> bool) \<Rightarrow> string \<Rightarrow> string \<Rightarrow> unit result" where
  "ValidateIpv4Address inet_pton address field_name =
     (if address = [] \<or> \<not> inet_pton (c_str address)
      then Inl (RuntimeError (''invalid IPv4 '' @ field_name @ '': '' @ address))
      else Inr ())"

definition CheckNetworkFlow ::
    "(string \<Rightarrow> bool) \<Rightarrow> SimulationCommandKind \<Rightarrow> SimulationNetworkFlow \<Rightarrow> unit result" where
  "CheckNetworkFlow inet_pton kind flow =
     (let complete_match = (dst_address flow \<noteq> [] \<and> dst_port flow \<noteq> 0) in
      if kind = kBlockNetworkFlow \<and> \<not> complete_match
      then Inl (RuntimeError ''block network flow requires a destination address and port'')
      else if kind = kUnblockNetworkFlow \<and> flow_handle flow = 0 \<and> \<not> complete_match
      then Inl (RuntimeError ''unblock network flow requires a handle or complete match'')
      else bind_result
        (if complete_match then ValidateIpv4Address inet_pton (dst_address flow) ''network flow destination''
         else Inr ()) (\<lambda>_.
        if src_address flow \<noteq> [] then ValidateIpv4Address inet_pton (src_address flow) ''network flow source''
        else Inr ()))"

definition ValidateNetworkFlowCommand :: "(string \<Rightarrow> bool) \<Rightarrow> SimulationCommand \<Rightarrow> unit result" where
  "ValidateNetworkFlowCommand inet_pton command =
     with_payload command (cmd_network_flow command) 1 (CheckNetworkFlow inet_pton (cmd_kind command))"

definition CheckPerfTarget :: "PerfCounterTarget \<Rightarrow> unit result" where
  "CheckPerfTarget target =
     (if pt_id target = [] then Inl (RuntimeError ''perf counter target id must not be empty'')
      else if pt_node_ids target = [] then Inl (RuntimeError ''perf counter target must resolve to a node'')
      else bind_result (unique_ids
          (RuntimeError ''perf counter target node id must not be empty'')
          (RuntimeError ''perf counter target contains duplicate nodes'') (pt_node_ids target) {}) (\<lambda>_.
        if pt_kind target \<noteq> kTargetGroup \<and> length (pt_node_ids target) \<noteq> 1
        then Inl (RuntimeError ''non-group perf counter target must resolve to one node'')
        else Inr ()))"

definition CheckPerfKinds :: "PerfCounterKind list \<Rightarrow> unit result" where
  "CheckPerfKinds kinds =
     (if length (remdups kinds) \<noteq> length kinds
      then Inl (RuntimeError ''perf counter selection contains duplicates'') else Inr ())"

definition PerfEventNode :: "PerfCounterTarget \<Rightarrow> string" where
  "PerfEventNode target = (if pt_kind target = kTargetGroup then ''sim'' else hd (pt_node_ids target))"

definition ValidatePerfCounterCommand :: "SimulationCommand \<Rightarrow> unit result" where
  "ValidatePerfCounterCommand command =
     bind_result (RequirePayload command
         (cmd_perf_counter_target command \<noteq> None \<and> cmd_perf_counter_kinds command \<noteq> []) 2) (\<lambda>_.
     let target = the (cmd_perf_counter_target command) in
     bind_result (CheckPerfTarget target) (\<lambda>_.
     bind_result (CheckPerfKinds (cmd_perf_counter_kinds command)) (\<lambda>_.
     if cmd_node_id command \<noteq> PerfEventNode target
     then Inl (RuntimeError ''perf counter command node does not match its target'')
     else Inr ())))"

definition CheckWalletSend :: "SimulationWalletSend \<Rightarrow> unit result" where
  "CheckWalletSend send =
     (if sender_wallet_index send = 0 then Inl (RuntimeError ''wallet send requires a sender wallet'')
      else if receiver_wallet_index send = 0 then Inl (RuntimeError ''wallet send requires a receiver wallet'')
      else if sender_wallet_index send = receiver_wallet_index send
      then Inl (RuntimeError ''wallet send source and receiver must differ'')
      else if amount_satoshis send = 0
      then Inl (RuntimeError ''wallet send amount must be greater than zero'')
      else if amount_satoshis send > max_u64 - fee_satoshis send
      then Inl (RuntimeError ''wallet send amount plus fee overflows uint64'')
      else if ws_timeout_sec send = 0
      then Inl (RuntimeError ''wallet send timeout must be greater than zero'')
      else Inr ())"

definition ValidateWalletSendCommand :: "SimulationCommand \<Rightarrow> unit result" where
  "ValidateWalletSendCommand command =
     with_payload command (cmd_wallet_send command) 1 CheckWalletSend"

definition kSimulationNodeAddMaximumTimeoutSeconds :: u32 where
  "kSimulationNodeAddMaximumTimeoutSeconds = 600"

definition timeout_out_of_range :: "u32 \<Rightarrow> bool" where
  "timeout_out_of_range t \<longleftrightarrow> t = 0 \<or> t > kSimulationNodeAddMaximumTimeoutSeconds"

definition CheckNodeAdd :: "SimulationCommand \<Rightarrow> SimulationNodeAddRequest \<Rightarrow> unit result" where
  "CheckNodeAdd command request =
     (if cmd_node_id command \<noteq> ''sim'' then Inl (RuntimeError ''add-nodes command must target sim'')
      else if na_chain request = kChainCount
      then Inl (RuntimeError ''add-nodes command requires a valid chain'')
      else if na_count request = 0 \<or> unat (na_count request) > kSimulationNodeAddMaximumCount
      then Inl (RuntimeError (''add-nodes count must be in 1..'' @ to_string kSimulationNodeAddMaximumCount))
      else if na_node_ids request \<noteq> [] \<and> length (na_node_ids request) \<noteq> unat (na_count request)
      then Inl (RuntimeError ''add-nodes explicit node ids must match the requested count'')
      else bind_result (unique_ids
          (RuntimeError ''add-nodes explicit node id must not be empty'')
          (RuntimeError ''add-nodes explicit node ids must be unique'') (na_node_ids request) {}) (\<lambda>_.
      if na_binary request = Some [] then Inl (RuntimeError ''add-nodes binary must not be empty'')
      else if timeout_out_of_range (na_ready_timeout_sec request)
      then Inl (RuntimeError (''add-nodes ready timeout must be in 1..'' @
             to_string (unat kSimulationNodeAddMaximumTimeoutSeconds)))
      else if timeout_out_of_range (na_sync_timeout_sec request)
      then Inl (RuntimeError (''add-nodes sync timeout must be in 1..'' @
             to_string (unat kSimulationNodeAddMaximumTimeoutSeconds)))
      else Inr ()))"

definition ValidateNodeAddCommand :: "SimulationCommand \<Rightarrow> unit result" where
  "ValidateNodeAddCommand command = with_payload command (cmd_node_add command) 1 (CheckNodeAdd command)"

definition CheckNodeRemove :: "SimulationCommand \<Rightarrow> SimulationNodeRemoveRequest \<Rightarrow> unit result" where
  "CheckNodeRemove command request =
     (if cmd_node_id command \<noteq> ''sim'' then Inl (RuntimeError ''remove-nodes command must target sim'')
      else if nd_node_ids request = [] \<or> length (nd_node_ids request) > kSimulationNodeRemoveMaximumCount
      then Inl (RuntimeError (''remove-nodes count must be in 1..'' @ to_string kSimulationNodeRemoveMaximumCount))
      else bind_result (unique_ids
          (RuntimeError ''remove-nodes node id must not be empty'')
          (RuntimeError ''remove-nodes node ids must be unique'') (nd_node_ids request) {}) (\<lambda>_.
      if timeout_out_of_range (nd_timeout_sec request)
      then Inl (RuntimeError (''remove-nodes timeout must be in 1..'' @
             to_string (unat kSimulationNodeAddMaximumTimeoutSeconds)))
      else Inr ()))"

definition ValidateNodeRemoveCommand :: "SimulationCommand \<Rightarrow> unit result" where
  "ValidateNodeRemoveCommand command = with_payload command (cmd_node_remove command) 1 (CheckNodeRemove command)"

definition CheckNodeReplace :: "SimulationCommand \<Rightarrow> SimulationNodeReplaceRequest \<Rightarrow> unit result" where
  "CheckNodeReplace command request =
     (if cmd_node_id command = [] \<or> cmd_node_id command = ''sim''
      then Inl (RuntimeError ''replace-node command must target one active node'')
      else if nr_chain request = kChainCount
      then Inl (RuntimeError ''replace-node command requires a valid chain'')
      else if nr_count request \<noteq> 1 then Inl (RuntimeError ''replace-node count must equal one'')
      else if nr_node_ids request \<noteq> [] \<and>
              (length (nr_node_ids request) \<noteq> 1 \<or> hd (nr_node_ids request) \<noteq> cmd_node_id command)
      then Inl (RuntimeError ''replace-node explicit node id must equal the selected node'')
      else if nr_binary request = Some [] then Inl (RuntimeError ''replace-node binary must not be empty'')
      else bind_result (when_some (nr_network request) ValidateNetworkCondition) (\<lambda>_.
      if timeout_out_of_range (nr_ready_timeout_sec request) \<or> timeout_out_of_range (nr_sync_timeout_sec request)
      then Inl (RuntimeError (''replace-node timeout fields must be in 1..'' @
             to_string (unat kSimulationNodeAddMaximumTimeoutSeconds)))
      else Inr ()))"

definition ValidateNodeReplaceCommand :: "SimulationCommand \<Rightarrow> unit result" where
  "ValidateNodeReplaceCommand command =
     with_payload command (cmd_node_replace command) 1 (CheckNodeReplace command)"

definition CheckRoleMutation :: "SimulationCommand \<Rightarrow> SimulationRoleMutationRequest \<Rightarrow> unit result" where
  "CheckRoleMutation command request =
     (if cmd_node_id command \<noteq> ''sim'' then Inl (RuntimeError ''role mutation command must target sim'')
      else ValidateSimulationRoleMutationRequest (cmd_kind command) request)"

definition ValidateRoleMutationCommand :: "SimulationCommand \<Rightarrow> unit result" where
  "ValidateRoleMutationCommand command =
     with_payload command (cmd_role_mutation command) 1 (CheckRoleMutation command)"

definition ValidateTargetAddressText :: "string \<Rightarrow> unit result" where
  "ValidateTargetAddressText address =
     (if address = [] \<or> length address > 512 \<or>
         list_ex (\<lambda>ch. (of_char ch :: nat) \<le> 32 \<or> (of_char ch :: nat) \<ge> 127) address
      then Inl (InvalidArgument ''target address must be 1..512 printable non-space characters'')
      else Inr ())"

definition CheckOperatorPatch :: "ResourceLimitPatch \<Rightarrow> unit result" where
  "CheckOperatorPatch patch =
     bind_result (ValidateResourceLimitPatch patch ''operator resource update'') (\<lambda>_.
       if io_limits_present patch \<and> length (io_limits patch) \<noteq> 1
       then Inl (RuntimeError ''operator io resource update requires exactly one block device'')
       else Inr ())"

definition CheckPeer :: "SimulationCommand \<Rightarrow> string \<Rightarrow> unit result" where
  "CheckPeer command peer =
     (if peer = [] then Inl (RuntimeError ''peer command requires a target peer node id'')
      else if cmd_node_id command = peer
      then Inl (RuntimeError ''peer command source and target must differ'')
      else Inr ())"

text \<open>The switch over the command kind.\<close>

definition ValidatePayload :: "(string \<Rightarrow> bool) \<Rightarrow> host_signals \<Rightarrow> SimulationCommand \<Rightarrow> unit result" where
  "ValidatePayload inet_pton host command = (case cmd_kind command of
       kSetBlockProductionPolicy \<Rightarrow>
         with_payload command (cmd_block_production_policy command) 1 (\<lambda>_.
           if cmd_node_id command \<noteq> ''sim''
           then Inl (RuntimeError ''block production policy command must target sim'') else Inr ())
     | kSignalNode \<Rightarrow> with_payload command (cmd_signal_request command) 1 (\<lambda>request.
         bind_result (ProcessSignalName host (sg_signal request)) (\<lambda>_. Inr ()))
     | kSignalWallet \<Rightarrow> with_payload command (cmd_signal_request command) 1 (\<lambda>request.
         bind_result (ProcessSignalName host (sg_signal request)) (\<lambda>_. Inr ()))
     | kSignalMiner \<Rightarrow> with_payload command (cmd_signal_request command) 1 (\<lambda>request.
         bind_result (ProcessSignalName host (sg_signal request)) (\<lambda>_. Inr ()))
     | kSignalHelper \<Rightarrow> with_payload command (cmd_signal_request command) 1 (\<lambda>request.
         bind_result (ProcessSignalName host (sg_signal request)) (\<lambda>_. Inr ()))
     | kSetMiningDifficulty \<Rightarrow> with_payload command (cmd_mining_difficulty command) 1 (\<lambda>_. Inr ())
     | kConnectPeer \<Rightarrow> with_payload command (cmd_peer_node_id command) 1 (CheckPeer command)
     | kDisconnectPeer \<Rightarrow> with_payload command (cmd_peer_node_id command) 1 (CheckPeer command)
     | kSetPeerCountPolicy \<Rightarrow> with_payload command (cmd_peer_count_policy command) 1 (\<lambda>_. Inr ())
     | kGenerateBlocks \<Rightarrow> with_payload command (cmd_block_count command) 1 (\<lambda>count.
         if count = 0 then Inl (RuntimeError ''generate-blocks count must be positive'') else Inr ())
     | kSetResourceProfile \<Rightarrow> with_payload command (cmd_profile command) 1 (\<lambda>profile.
         if profile = [] then Inl (RuntimeError ''profile command requires a profile name'') else Inr ())
     | kSetNetworkProfile \<Rightarrow> with_payload command (cmd_profile command) 1 (\<lambda>profile.
         if profile = [] then Inl (RuntimeError ''profile command requires a profile name'') else Inr ())
     | kSetResourceLimits \<Rightarrow>
         with_payload command (cmd_resource_limit_patch command) 1 CheckOperatorPatch
     | kSetNetworkCondition \<Rightarrow>
         with_payload command (cmd_network_condition command) 1 ValidateNetworkCondition
     | kBlockNetworkFlow \<Rightarrow> ValidateNetworkFlowCommand inet_pton command
     | kUnblockNetworkFlow \<Rightarrow> ValidateNetworkFlowCommand inet_pton command
     | kPartitionNodes \<Rightarrow> with_payload command (cmd_partition command) 1 ValidatePartition
     | kHealPartition \<Rightarrow> with_payload command (cmd_partition command) 1 ValidatePartition
     | kSetPerfCounters \<Rightarrow> ValidatePerfCounterCommand command
     | kSendWalletTransaction \<Rightarrow> ValidateWalletSendCommand command
     | kAddTargetAddress \<Rightarrow> with_payload command (cmd_target_address command) 1 (\<lambda>address.
         bind_result (ValidateTargetAddressText address) (\<lambda>_.
           if cmd_node_id command \<noteq> ''sim''
           then Inl (InvalidArgument ''target address commands must target sim'') else Inr ()))
     | kRemoveTargetAddress \<Rightarrow> with_payload command (cmd_target_address command) 1 (\<lambda>address.
         bind_result (ValidateTargetAddressText address) (\<lambda>_.
           if cmd_node_id command \<noteq> ''sim''
           then Inl (InvalidArgument ''target address commands must target sim'') else Inr ()))
     | kAddNodes \<Rightarrow> ValidateNodeAddCommand command
     | kReplaceNode \<Rightarrow> ValidateNodeReplaceCommand command
     | kRemoveNodes \<Rightarrow> ValidateNodeRemoveCommand command
     | kAssignRole \<Rightarrow> ValidateRoleMutationCommand command
     | kRemoveRole \<Rightarrow> ValidateRoleMutationCommand command
     | kCommandCount \<Rightarrow> Inl (RuntimeError ''unknown simulation command kind'')
     | _ \<Rightarrow> RequirePayload command True 0)"

definition ValidateSimulationCommand ::
    "(string \<Rightarrow> bool) \<Rightarrow> host_signals \<Rightarrow> SimulationCommand \<Rightarrow> unit result" where
  "ValidateSimulationCommand inet_pton host command =
     (if cmd_sequence command \<noteq> 0
      then Inl (RuntimeError ''simulation command sequence must be assigned by the queue'')
      else if cmd_node_id command = [] \<and> cmd_kind command \<noteq> kSetBlockProductionPolicy
      then Inl (RuntimeError ''simulation command requires a node id'')
      else bind_result (SimulationCommandRequiresConfirmation (cmd_kind command)) (\<lambda>required.
        if required \<and> \<not> cmd_confirmed command
        then Inl (RuntimeError ''destructive simulation command is unconfirmed'')
        else ValidatePayload inet_pton host command))"

subsection \<open>The queue\<close>

record SimulationCommandQueue =
  q_commands :: "SimulationCommand list"
  q_capacity :: nat
  q_maximum_size :: nat
  q_rejected :: u64
  q_next_sequence :: u64
  q_closed :: bool

record SimulationCommandQueueStats =
  st_size :: nat
  st_capacity :: nat
  st_maximum_size :: nat
  st_rejected :: u64

definition kDefaultSimulationCommandQueueCapacity :: nat where
  "kDefaultSimulationCommandQueueCapacity = 256"

definition new_queue :: "nat \<Rightarrow> SimulationCommandQueue result" where
  "new_queue maximum =
     (if maximum = 0
      then Inl (RuntimeError ''simulation command queue capacity must be greater than zero'')
      else Inr \<lparr>q_commands = [], q_capacity = maximum, q_maximum_size = 0, q_rejected = 0,
        q_next_sequence = 1, q_closed = False\<rparr>)"

definition needs_control :: "SimulationCommandKind \<Rightarrow> bool" where
  "needs_control kind \<longleftrightarrow> kind \<in> {kAddNodes, kReplaceNode, kRemoveNodes, kAddTargetAddress,
     kRemoveTargetAddress, kAssignRole, kRemoveRole}"

type_synonym pusher = "SimulationCommandQueue \<Rightarrow> SimulationCommandQueue \<times> u64 result"

definition PushCommand :: "(string \<Rightarrow> bool) \<Rightarrow> host_signals \<Rightarrow> SimulationCommand \<Rightarrow> pusher" where
  "PushCommand inet_pton host command queue =
     (case ValidateSimulationCommand inet_pton host command of
        Inl e \<Rightarrow> (queue, Inl e)
      | Inr _ \<Rightarrow>
        let controlled = (if needs_control (cmd_kind command) \<and> cmd_operation_control command = None
              then command\<lparr>cmd_operation_control := Some new_control\<rparr> else command) in
        if q_closed queue then (queue, Inl (RuntimeError ''simulation command queue is closed''))
        else if length (q_commands queue) \<ge> q_capacity queue
        then (if q_rejected queue = max_u64
              then (queue, Inl (RuntimeError ''simulation command queue rejection count exceeds uint64''))
              else (queue\<lparr>q_rejected := q_rejected queue + 1\<rparr>,
                Inl (RuntimeError (''simulation command queue is full (capacity '' @
                  to_string (q_capacity queue) @ '')''))))
        else if q_next_sequence queue = max_u64
        then (queue, Inl (RuntimeError ''simulation command sequence exceeds uint64''))
        else let sequence = q_next_sequence queue;
                 commands = q_commands queue @ [controlled\<lparr>cmd_sequence := sequence\<rparr>] in
          (queue\<lparr>q_next_sequence := sequence + 1, q_commands := commands,
             q_maximum_size := max (q_maximum_size queue) (length commands)\<rparr>, Inr sequence))"

text \<open>A check made before the command is built: when it throws, nothing has changed.\<close>

definition guarded_push :: "unit result \<Rightarrow> pusher \<Rightarrow> pusher" where
  "guarded_push check push queue = (case check of Inl e \<Rightarrow> (queue, Inl e) | Inr _ \<Rightarrow> push queue)"

definition is_plain_kind :: "SimulationCommandKind \<Rightarrow> bool" where
  "is_plain_kind kind \<longleftrightarrow> kind \<in> {kIncreaseLogVerbosity, kDecreaseLogVerbosity, kStopMining,
     kDisconnectNode, kReconnectNode, kKillNode, kFreezeNode, kThawNode, kStopNode, kRestartNode,
     kExportNodeReport}"

definition Push ::
    "(string \<Rightarrow> bool) \<Rightarrow> host_signals \<Rightarrow> SimulationCommandKind \<Rightarrow> string \<Rightarrow> bool \<Rightarrow> pusher" where
  "Push inet_pton host kind node_id confirmed = guarded_push
     (require (is_plain_kind kind)
       (RuntimeError ''simulation command kind requires a typed payload method''))
     (PushCommand inet_pton host ((plain_command kind node_id)\<lparr>cmd_confirmed := confirmed\<rparr>))"

definition PushBlockProductionPolicy ::
    "(string \<Rightarrow> bool) \<Rightarrow> host_signals \<Rightarrow> BlockProductionPolicy \<Rightarrow> pusher" where
  "PushBlockProductionPolicy inet_pton host policy = PushCommand inet_pton host
     ((plain_command kSetBlockProductionPolicy ''sim'')\<lparr>cmd_block_production_policy := Some policy\<rparr>)"

definition PushMiningDifficulty ::
    "(string \<Rightarrow> bool) \<Rightarrow> host_signals \<Rightarrow> string \<Rightarrow> u64 \<Rightarrow> pusher" where
  "PushMiningDifficulty inet_pton host node_id difficulty = PushCommand inet_pton host
     ((plain_command kSetMiningDifficulty node_id)\<lparr>cmd_mining_difficulty := Some difficulty\<rparr>)"

definition PushPeerCommand ::
    "(string \<Rightarrow> bool) \<Rightarrow> host_signals \<Rightarrow> SimulationCommandKind \<Rightarrow> string \<Rightarrow> string \<Rightarrow> bool \<Rightarrow> pusher" where
  "PushPeerCommand inet_pton host kind node_id peer_node_id confirmed = guarded_push
     (bind_result (require (kind = kConnectPeer \<or> kind = kDisconnectPeer)
         (RuntimeError ''peer command requires a peer command kind'')) (\<lambda>_.
      bind_result (require (peer_node_id \<noteq> [])
         (RuntimeError ''peer command requires a target peer node id'')) (\<lambda>_.
      require (node_id \<noteq> peer_node_id)
         (RuntimeError ''peer command source and target must differ''))))
     (PushCommand inet_pton host ((plain_command kind node_id)
       \<lparr>cmd_peer_node_id := Some peer_node_id, cmd_confirmed := confirmed\<rparr>))"

definition PushPeerCountPolicy ::
    "(string \<Rightarrow> bool) \<Rightarrow> host_signals \<Rightarrow> string \<Rightarrow> PeerCountPolicy \<Rightarrow> bool \<Rightarrow> pusher" where
  "PushPeerCountPolicy inet_pton host node_id policy confirmed = PushCommand inet_pton host
     ((plain_command kSetPeerCountPolicy node_id)
       \<lparr>cmd_peer_count_policy := Some policy, cmd_confirmed := confirmed\<rparr>)"

definition PushGenerateBlocks ::
    "(string \<Rightarrow> bool) \<Rightarrow> host_signals \<Rightarrow> string \<Rightarrow> u32 \<Rightarrow> bool \<Rightarrow> pusher" where
  "PushGenerateBlocks inet_pton host node_id block_count confirmed = guarded_push
     (require (block_count \<noteq> 0) (RuntimeError ''generate-blocks count must be positive''))
     (PushCommand inet_pton host ((plain_command kGenerateBlocks node_id)
       \<lparr>cmd_block_count := Some block_count, cmd_confirmed := confirmed\<rparr>))"

definition PushScenarioCommand :: "(string \<Rightarrow> bool) \<Rightarrow> host_signals \<Rightarrow> SimulationCommand \<Rightarrow> pusher" where
  "PushScenarioCommand inet_pton host command = guarded_push
     (bind_result (require (cmd_scheduled_event_sequence command \<notin> {None, Some 0})
         (RuntimeError ''scenario command requires a scheduled event sequence'')) (\<lambda>_.
      require (cmd_confirmed command)
         (RuntimeError ''scenario command must be explicitly authorized'')))
     (PushCommand inet_pton host command)"

definition PushRuntimeCommand :: "(string \<Rightarrow> bool) \<Rightarrow> host_signals \<Rightarrow> SimulationCommand \<Rightarrow> pusher" where
  "PushRuntimeCommand inet_pton host command = guarded_push
     (bind_result (require (cmd_scheduled_event_sequence command = None)
         (RuntimeError ''runtime command must not contain a scheduled event sequence'')) (\<lambda>_.
      require (cmd_confirmed command)
         (RuntimeError ''runtime command must be explicitly authorized'')))
     (PushCommand inet_pton host command)"

definition PushProfileCommand ::
    "(string \<Rightarrow> bool) \<Rightarrow> host_signals \<Rightarrow> SimulationCommandKind \<Rightarrow> string \<Rightarrow> string \<Rightarrow> bool \<Rightarrow> pusher" where
  "PushProfileCommand inet_pton host kind node_id profile confirmed = guarded_push
     (bind_result (require (kind = kSetResourceProfile \<or> kind = kSetNetworkProfile)
         (RuntimeError ''profile command requires a profile command kind'')) (\<lambda>_.
      require (profile \<noteq> []) (RuntimeError ''profile command requires a profile name'')))
     (PushCommand inet_pton host ((plain_command kind node_id)
       \<lparr>cmd_profile := Some profile, cmd_confirmed := confirmed\<rparr>))"

definition PushResourceLimits ::
    "(string \<Rightarrow> bool) \<Rightarrow> host_signals \<Rightarrow> string \<Rightarrow> ResourceLimitPatch \<Rightarrow> bool \<Rightarrow> pusher" where
  "PushResourceLimits inet_pton host node_id patch confirmed = guarded_push (CheckOperatorPatch patch)
     (PushCommand inet_pton host ((plain_command kSetResourceLimits node_id)
       \<lparr>cmd_resource_limit_patch := Some patch, cmd_confirmed := confirmed\<rparr>))"

definition PushNetworkCondition ::
    "(string \<Rightarrow> bool) \<Rightarrow> host_signals \<Rightarrow> string \<Rightarrow> NetworkCondition \<Rightarrow> bool \<Rightarrow> pusher" where
  "PushNetworkCondition inet_pton host node_id condition confirmed =
     guarded_push (ValidateNetworkCondition condition)
     (PushCommand inet_pton host ((plain_command kSetNetworkCondition node_id)
       \<lparr>cmd_network_condition := Some condition, cmd_confirmed := confirmed\<rparr>))"

definition PushNetworkFlowCommand ::
    "(string \<Rightarrow> bool) \<Rightarrow> host_signals \<Rightarrow> SimulationCommandKind \<Rightarrow> string \<Rightarrow> SimulationNetworkFlow \<Rightarrow> bool \<Rightarrow> pusher" where
  "PushNetworkFlowCommand inet_pton host kind node_id flow confirmed = guarded_push
     (bind_result (require (kind = kBlockNetworkFlow \<or> kind = kUnblockNetworkFlow)
         (RuntimeError ''network flow command requires a block or unblock kind'')) (\<lambda>_.
      CheckNetworkFlow inet_pton kind flow))
     (PushCommand inet_pton host ((plain_command kind node_id)
       \<lparr>cmd_network_flow := Some flow, cmd_confirmed := confirmed\<rparr>))"

definition PushPartitionCommand ::
    "(string \<Rightarrow> bool) \<Rightarrow> host_signals \<Rightarrow> SimulationCommandKind \<Rightarrow> SimulationPartition \<Rightarrow> bool \<Rightarrow> pusher" where
  "PushPartitionCommand inet_pton host kind part confirmed = guarded_push
     (bind_result (require (kind = kPartitionNodes \<or> kind = kHealPartition)
         (RuntimeError ''partition command requires a partition or heal kind'')) (\<lambda>_.
      ValidatePartition part))
     (PushCommand inet_pton host ((plain_command kind
         (if part_scope part = kNodePair then hd (group_node_ids (group_a part)) else ''sim''))
       \<lparr>cmd_partition := Some part, cmd_confirmed := confirmed\<rparr>))"

definition PushPerfCounters ::
    "(string \<Rightarrow> bool) \<Rightarrow> host_signals \<Rightarrow> PerfCounterTarget \<Rightarrow> PerfCounterKind list \<Rightarrow> pusher" where
  "PushPerfCounters inet_pton host target kinds = guarded_push
     (bind_result (CheckPerfTarget target) (\<lambda>_.
      bind_result (require (kinds \<noteq> []) (RuntimeError ''perf counter selection must not be empty'')) (\<lambda>_.
      CheckPerfKinds kinds)))
     (PushCommand inet_pton host ((plain_command kSetPerfCounters (PerfEventNode target))
       \<lparr>cmd_perf_counter_target := Some target, cmd_perf_counter_kinds := kinds\<rparr>))"

definition PushWalletSend ::
    "(string \<Rightarrow> bool) \<Rightarrow> host_signals \<Rightarrow> string \<Rightarrow> SimulationWalletSend \<Rightarrow> bool \<Rightarrow> pusher" where
  "PushWalletSend inet_pton host sender_node_id send confirmed = guarded_push (CheckWalletSend send)
     (PushCommand inet_pton host ((plain_command kSendWalletTransaction sender_node_id)
       \<lparr>cmd_wallet_send := Some send, cmd_confirmed := confirmed\<rparr>))"

definition PushAddNodes ::
    "(string \<Rightarrow> bool) \<Rightarrow> host_signals \<Rightarrow> SimulationNodeAddRequest \<Rightarrow> pusher" where
  "PushAddNodes inet_pton host request = PushCommand inet_pton host
     ((plain_command kAddNodes ''sim'')\<lparr>cmd_node_add := Some request\<rparr>)"

definition PushReplaceNode ::
    "(string \<Rightarrow> bool) \<Rightarrow> host_signals \<Rightarrow> string \<Rightarrow> SimulationNodeReplaceRequest \<Rightarrow> pusher" where
  "PushReplaceNode inet_pton host node_id request = PushCommand inet_pton host
     ((plain_command kReplaceNode node_id)\<lparr>cmd_node_replace := Some request, cmd_confirmed := True\<rparr>)"

definition PushRemoveNodes ::
    "(string \<Rightarrow> bool) \<Rightarrow> host_signals \<Rightarrow> SimulationNodeRemoveRequest \<Rightarrow> pusher" where
  "PushRemoveNodes inet_pton host request = PushCommand inet_pton host
     ((plain_command kRemoveNodes ''sim'')\<lparr>cmd_node_remove := Some request, cmd_confirmed := True\<rparr>)"

definition PushRoleMutation ::
    "(string \<Rightarrow> bool) \<Rightarrow> host_signals \<Rightarrow> SimulationCommandKind \<Rightarrow> SimulationRoleMutationRequest \<Rightarrow> bool \<Rightarrow> pusher" where
  "PushRoleMutation inet_pton host kind request confirmed =
     guarded_push (ValidateSimulationRoleMutationRequest kind request)
     (PushCommand inet_pton host ((plain_command kind ''sim'')
       \<lparr>cmd_role_mutation := Some request, cmd_confirmed := confirmed\<rparr>))"

definition TryPop :: "SimulationCommandQueue \<Rightarrow> SimulationCommandQueue \<times> SimulationCommand option" where
  "TryPop queue = (case q_commands queue of
       [] \<Rightarrow> (queue, None)
     | command # rest \<Rightarrow> (queue\<lparr>q_commands := rest\<rparr>, Some command))"

text \<open>\<open>WaitPop\<close> blocks, \<open>None\<close> here, while the queue is open and empty.\<close>

definition WaitPop ::
    "SimulationCommandQueue \<Rightarrow> (SimulationCommandQueue \<times> SimulationCommand option) option" where
  "WaitPop queue =
     (if q_closed queue \<or> q_commands queue \<noteq> []
      then Some (case q_commands queue of
          [] \<Rightarrow> (queue, None)
        | command # rest \<Rightarrow> (queue\<lparr>q_commands := rest\<rparr>, Some command))
      else None)"

definition Close :: "SimulationCommandQueue \<Rightarrow> SimulationCommandQueue" where
  "Close queue = queue\<lparr>q_closed := True\<rparr>"

definition Cancel :: "SimulationCommandQueue \<Rightarrow> SimulationCommandQueue \<times> SimulationCommand list" where
  "Cancel queue = (queue\<lparr>q_closed := True, q_commands := []\<rparr>, q_commands queue)"

definition IsClosed :: "SimulationCommandQueue \<Rightarrow> bool" where
  "IsClosed queue = q_closed queue"

definition Stats :: "SimulationCommandQueue \<Rightarrow> SimulationCommandQueueStats" where
  "Stats queue = \<lparr>st_size = length (q_commands queue), st_capacity = q_capacity queue,
     st_maximum_size = q_maximum_size queue, st_rejected = q_rejected queue\<rparr>"

subsection \<open>The queue as a machine\<close>

datatype queue_op = PushOp SimulationCommand | TryPopOp | WaitPopOp | CloseOp | CancelOp

datatype queue_out =
  Pushed "u64 result" | Popped "SimulationCommand option" | Blocked | ClosedOut | CancelledOut "SimulationCommand list"

fun queue_exec ::
    "(string \<Rightarrow> bool) \<Rightarrow> host_signals \<Rightarrow> SimulationCommandQueue \<Rightarrow> queue_op \<Rightarrow> SimulationCommandQueue \<times> queue_out" where
  "queue_exec inet_pton host q (PushOp command) = map_prod id Pushed (PushCommand inet_pton host command q)"
| "queue_exec inet_pton host q TryPopOp = map_prod id Popped (TryPop q)"
| "queue_exec inet_pton host q WaitPopOp =
     (case WaitPop q of None \<Rightarrow> (q, Blocked) | Some r \<Rightarrow> map_prod id Popped r)"
| "queue_exec inet_pton host q CloseOp = (Close q, ClosedOut)"
| "queue_exec inet_pton host q CancelOp = map_prod id CancelledOut (Cancel q)"

text \<open>The commands an operation puts into the queue and those it hands to its caller.\<close>

fun queue_entered ::
    "(string \<Rightarrow> bool) \<Rightarrow> host_signals \<Rightarrow> SimulationCommandQueue \<Rightarrow> queue_op \<Rightarrow> SimulationCommand list" where
  "queue_entered inet_pton host q (PushOp command) =
     (if ok (snd (PushCommand inet_pton host command q))
      then [last (q_commands (fst (PushCommand inet_pton host command q)))] else [])"
| "queue_entered inet_pton host q _ = []"

fun out_commands :: "queue_out \<Rightarrow> SimulationCommand list" where
  "out_commands (Popped (Some command)) = [command]"
| "out_commands (CancelledOut commands) = commands"
| "out_commands _ = []"

definition queue_left ::
    "(string \<Rightarrow> bool) \<Rightarrow> host_signals \<Rightarrow> SimulationCommandQueue \<Rightarrow> queue_op \<Rightarrow> SimulationCommand list" where
  "queue_left inet_pton host q op = out_commands (snd (queue_exec inet_pton host q op))"

text \<open>What the queue guarantees of a command it holds.\<close>

definition accepted :: "(string \<Rightarrow> bool) \<Rightarrow> host_signals \<Rightarrow> SimulationCommand \<Rightarrow> bool" where
  "accepted inet_pton host command \<longleftrightarrow>
     ValidateSimulationCommand inet_pton host (command\<lparr>cmd_sequence := 0\<rparr>) = Inr () \<and>
     (needs_control (cmd_kind command) \<longrightarrow> cmd_operation_control command \<noteq> None)"

definition queue_inv :: "(string \<Rightarrow> bool) \<Rightarrow> host_signals \<Rightarrow> SimulationCommandQueue \<Rightarrow> bool" where
  "queue_inv inet_pton host q \<longleftrightarrow>
     length (q_commands q) \<le> q_maximum_size q \<and> q_maximum_size q \<le> q_capacity q \<and>
     length (q_commands q) < unat (q_next_sequence q) \<and>
     map (\<lambda>c. unat (cmd_sequence c)) (q_commands q) =
       [unat (q_next_sequence q) - length (q_commands q)..<unat (q_next_sequence q)] \<and>
     list_all (accepted inet_pton host) (q_commands q)"

lemma PayloadCount_control [simp]:
  "SimulationCommandPayloadCount (command\<lparr>cmd_operation_control := control\<rparr>) = SimulationCommandPayloadCount command"
  by (simp add: SimulationCommandPayloadCount_def)

lemma RequirePayload_control [simp]:
  "RequirePayload (command\<lparr>cmd_operation_control := control\<rparr>) = RequirePayload command"
  by (simp add: fun_eq_iff RequirePayload_def)

lemma with_payload_control [simp]:
  "with_payload (command\<lparr>cmd_operation_control := control\<rparr>) = with_payload command"
  by (intro ext) (simp add: with_payload_def)

lemma ValidatePayload_control [simp]:
  "ValidatePayload inet_pton host (command\<lparr>cmd_operation_control := control\<rparr>) =
     ValidatePayload inet_pton host command"
proof -
  have "CheckNodeAdd (command\<lparr>cmd_operation_control := control\<rparr>) = CheckNodeAdd command"
    "CheckNodeRemove (command\<lparr>cmd_operation_control := control\<rparr>) = CheckNodeRemove command"
    "CheckNodeReplace (command\<lparr>cmd_operation_control := control\<rparr>) = CheckNodeReplace command"
    "CheckPeer (command\<lparr>cmd_operation_control := control\<rparr>) = CheckPeer command"
    "CheckRoleMutation (command\<lparr>cmd_operation_control := control\<rparr>) = CheckRoleMutation command"
    by (simp_all add: fun_eq_iff CheckRoleMutation_def CheckNodeAdd_def CheckNodeRemove_def CheckNodeReplace_def CheckPeer_def)
  then show ?thesis
    unfolding ValidatePayload_def ValidateNetworkFlowCommand_def ValidatePerfCounterCommand_def
      ValidateWalletSendCommand_def ValidateNodeAddCommand_def ValidateNodeRemoveCommand_def
      ValidateNodeReplaceCommand_def ValidateRoleMutationCommand_def
    by (cases "cmd_kind command") simp_all
qed

lemma ValidateSimulationCommand_control [simp]:
  "ValidateSimulationCommand inet_pton host (command\<lparr>cmd_operation_control := control\<rparr>) =
     ValidateSimulationCommand inet_pton host command"
  unfolding ValidateSimulationCommand_def ValidatePayload_control by simp

lemma ValidateSimulationCommand_sequence:
  "ValidateSimulationCommand inet_pton host command = Inr () \<Longrightarrow> cmd_sequence command = 0"
  by (simp add: ValidateSimulationCommand_def split: if_splits)

lemma PushCommand_success:
  assumes "PushCommand inet_pton host command q = (q', Inr s)"
  shows "ValidateSimulationCommand inet_pton host command = Inr ()" "\<not> q_closed q"
    "length (q_commands q) < q_capacity q" "q_next_sequence q \<noteq> max_u64" "s = q_next_sequence q"
    "\<exists>controlled. q' = q\<lparr>q_next_sequence := s + 1, q_commands := q_commands q @ [controlled\<lparr>cmd_sequence := s\<rparr>],
        q_maximum_size := max (q_maximum_size q) (Suc (length (q_commands q)))\<rparr> \<and>
      (controlled = command \<and> (needs_control (cmd_kind command) \<longrightarrow> cmd_operation_control command \<noteq> None) \<or>
       controlled = command\<lparr>cmd_operation_control := Some new_control\<rparr>)"
  using assms
  by (auto simp: PushCommand_def Let_def not_le split: sum.splits if_splits)

lemma PushCommand_failure:
  assumes "PushCommand inet_pton host command q = (q', Inl e)"
  shows "q' = q \<or> q' = q\<lparr>q_rejected := q_rejected q + 1\<rparr>"
  using assms by (auto simp: PushCommand_def Let_def split: sum.splits if_splits)

lemma queue_inv_push:
  assumes "queue_inv inet_pton host q" "PushCommand inet_pton host command q = (q', Inr s)"
  shows "queue_inv inet_pton host q'"
    and "\<exists>c. q_commands q' = q_commands q @ [c] \<and> cmd_sequence c = s \<and> accepted inet_pton host c"
proof -
  note P = PushCommand_success [OF assms(2)]
  obtain controlled where q': "q' = q\<lparr>q_next_sequence := s + 1, q_commands := q_commands q @ [controlled\<lparr>cmd_sequence := s\<rparr>],
        q_maximum_size := max (q_maximum_size q) (Suc (length (q_commands q)))\<rparr>"
    and c: "controlled = command \<and> (needs_control (cmd_kind command) \<longrightarrow> cmd_operation_control command \<noteq> None) \<or>
       controlled = command\<lparr>cmd_operation_control := Some new_control\<rparr>"
    using P(6) by blast
  have valid: "ValidateSimulationCommand inet_pton host controlled = Inr ()" using c P(1) by auto
  have zero: "controlled\<lparr>cmd_sequence := 0\<rparr> = controlled"
    using ValidateSimulationCommand_sequence [OF valid] by simp
  have acc: "accepted inet_pton host (controlled\<lparr>cmd_sequence := s\<rparr>)"
    using valid zero c by (auto simp: accepted_def)
  have suc: "unat (s + 1) = Suc (unat s)" using P(4,5) by (simp add: u64_succ_exact)
  have seqs: "map (\<lambda>c. unat (cmd_sequence c)) (q_commands q) @ [unat s] = [unat s - length (q_commands q)..<Suc (unat s)]"
    using assms(1) P(5) by (simp add: queue_inv_def)
  show "queue_inv inet_pton host q'"
    using assms(1) P(3,5) acc suc seqs unfolding q' by (simp add: queue_inv_def)
  show "\<exists>c. q_commands q' = q_commands q @ [c] \<and> cmd_sequence c = s \<and> accepted inet_pton host c"
    using acc unfolding q' by simp
qed

lemma queue_inv_rest:
  assumes "queue_inv inet_pton host q" "q_commands q = command # rest"
  shows "queue_inv inet_pton host (q\<lparr>q_commands := rest\<rparr>)"
proof -
  let ?n = "unat (q_next_sequence q)"
  have "map (\<lambda>c. unat (cmd_sequence c)) (command # rest) = [?n - Suc (length rest)..<?n]" "Suc (length rest) < ?n"
    using assms by (simp_all add: queue_inv_def)
  moreover from this have "[?n - Suc (length rest)..<?n] = (?n - Suc (length rest)) # [?n - length rest..<?n]"
    by (subst upt_conv_Cons) (auto simp: Suc_diff_Suc)
  ultimately show ?thesis using assms by (simp add: queue_inv_def)
qed

lemma queue_exec_inv: "queue_inv inet_pton host q \<Longrightarrow> queue_inv inet_pton host (fst (queue_exec inet_pton host q op))"
proof (cases op)
  case (PushOp command)
  assume inv: "queue_inv inet_pton host q"
  obtain q' r where r: "PushCommand inet_pton host command q = (q', r)" by fastforce
  show ?thesis
  proof (cases r)
    case (Inl e)
    then show ?thesis using r PushCommand_failure [of inet_pton host command q q' e] inv PushOp
      by (auto simp: queue_inv_def)
  next
    case (Inr s)
    then show ?thesis using r queue_inv_push(1) inv PushOp by auto
  qed
qed (auto simp: TryPop_def WaitPop_def Close_def Cancel_def queue_inv_rest split: list.splits,
     auto simp: queue_inv_def)

lemma queue_exec_fifo:
  assumes "queue_inv inet_pton host q"
  shows "q_commands q @ queue_entered inet_pton host q op =
    queue_left inet_pton host q op @ q_commands (fst (queue_exec inet_pton host q op))"
proof (cases op)
  case (PushOp command)
  obtain q' r where r: "PushCommand inet_pton host command q = (q', r)" by fastforce
  show ?thesis
  proof (cases r)
    case (Inl e)
    then show ?thesis using r PushCommand_failure [of inet_pton host command q q' e] PushOp
      by (auto simp: queue_left_def)
  next
    case (Inr s)
    then show ?thesis using r queue_inv_push(2) [OF assms, of command q' s] PushOp by (auto simp: queue_left_def)
  qed
qed (auto simp: queue_left_def TryPop_def WaitPop_def Close_def Cancel_def split: list.splits)

interpretation cq: fifo_object "queue_exec inet_pton host" "queue_inv inet_pton host" q_commands
    "queue_entered inet_pton host" "queue_left inet_pton host"
  for inet_pton host
  by unfold_locales (simp_all add: queue_exec_inv queue_exec_fifo)

lemma queue_exec_sequences:
  assumes "queue_inv inet_pton host q"
  shows "map (\<lambda>c. unat (cmd_sequence c)) (queue_entered inet_pton host q op) =
      [unat (q_next_sequence q)..<unat (q_next_sequence (fst (queue_exec inet_pton host q op)))]
    \<and> unat (q_next_sequence q) \<le> unat (q_next_sequence (fst (queue_exec inet_pton host q op)))"
proof (cases op)
  case (PushOp command)
  obtain q' r where r: "PushCommand inet_pton host command q = (q', r)" by fastforce
  show ?thesis
  proof (cases r)
    case (Inl e)
    then show ?thesis using r PushCommand_failure [of inet_pton host command q q' e] PushOp by auto
  next
    case (Inr s)
    then have p: "PushCommand inet_pton host command q = (q', Inr s)" using r by simp
    note P = PushCommand_success [OF p]
    have "q_next_sequence q' = s + 1" using P(6) by auto
    then have "unat (q_next_sequence q') = Suc (unat s)" using P(4,5) by (simp add: u64_succ_exact)
    moreover obtain c where "q_commands q' = q_commands q @ [c]" "cmd_sequence c = s"
      using queue_inv_push(2) [OF assms p] by blast
    ultimately show ?thesis using p PushOp P(5) by simp
  qed
qed (auto simp: TryPop_def WaitPop_def Close_def Cancel_def split: list.splits)

lemma upt_split: "i \<le> j \<Longrightarrow> j \<le> k \<Longrightarrow> [i..<j] @ [j..<k] = [i..<k]"
  by (metis le_add_diff_inverse upt_add_eq_append)

lemma collect_sequences:
  "queue_inv inet_pton host q \<Longrightarrow>
    map (\<lambda>c. unat (cmd_sequence c)) (collect (queue_exec inet_pton host) (queue_entered inet_pton host) q ops) =
      [unat (q_next_sequence q)..<unat (q_next_sequence (fst (run (queue_exec inet_pton host) q ops)))]
    \<and> unat (q_next_sequence q) \<le> unat (q_next_sequence (fst (run (queue_exec inet_pton host) q ops)))"
proof (induction ops arbitrary: q)
  case (Cons op ops)
  let ?q = "fst (queue_exec inet_pton host q op)"
  have "queue_inv inet_pton host ?q" using Cons.prems by (rule queue_exec_inv)
  with Cons.IH [of ?q] queue_exec_sequences [OF Cons.prems, of op]
  show ?case by (auto simp: split_def Let_def upt_split simp del: queue_exec.simps)
qed simp

lemma queue_capacity_constant: "q_capacity (fst (queue_exec inet_pton host q op)) = q_capacity q"
  by (cases op)
    (auto simp: PushCommand_def TryPop_def WaitPop_def Close_def Cancel_def Let_def split: list.splits sum.splits)

lemma run_capacity: "q_capacity (fst (run (queue_exec inet_pton host) q ops)) = q_capacity q"
  by (induction ops arbitrary: q) (simp_all add: split_def Let_def queue_capacity_constant del: queue_exec.simps)

lemma new_queue_inv: "new_queue n = Inr q \<Longrightarrow> queue_inv inet_pton host q \<and> q_commands q = [] \<and>
    q_capacity q = n \<and> unat (q_next_sequence q) = 1"
  by (auto simp: new_queue_def queue_inv_def split: if_splits)

text \<open>C17. Along every sequence of operations on a new queue, the commands accepted are handed
  out in the order of their acceptance, each exactly once, and none is lost: what was
  accepted is what was handed out followed by what is still queued. Accepted commands are
  numbered from one without a gap, and the queue never holds more than its capacity.\<close>

theorem command_queue_exactly_once:
  assumes "new_queue n = Inr q"
  shows "let accepted_commands = collect (queue_exec inet_pton host) (queue_entered inet_pton host) q ops;
      delivered = collect (queue_exec inet_pton host) (queue_left inet_pton host) q ops;
      final = fst (run (queue_exec inet_pton host) q ops) in
    accepted_commands = delivered @ q_commands final \<and>
    map (\<lambda>c. unat (cmd_sequence c)) accepted_commands = [1..<Suc (length accepted_commands)] \<and>
    length (q_commands final) \<le> n \<and> q_maximum_size final \<le> n"
proof -
  define accepted_commands where
    "accepted_commands = collect (queue_exec inet_pton host) (queue_entered inet_pton host) q ops"
  define delivered where
    "delivered = collect (queue_exec inet_pton host) (queue_left inet_pton host) q ops"
  define final where "final = fst (run (queue_exec inet_pton host) q ops)"
  note new = new_queue_inv [OF assms(1), of inet_pton host]
  have fifo: "accepted_commands = delivered @ q_commands final"
    using cq.run_fifo [of inet_pton host q ops] new unfolding accepted_commands_def delivered_def final_def by simp
  have seqs: "map (\<lambda>c. unat (cmd_sequence c)) accepted_commands = [1..<unat (q_next_sequence final)]"
    "1 \<le> unat (q_next_sequence final)"
    using collect_sequences [of inet_pton host q ops] new unfolding accepted_commands_def final_def by auto
  then have "length accepted_commands = unat (q_next_sequence final) - 1"
    by (metis length_map length_upt)
  then have "unat (q_next_sequence final) = Suc (length accepted_commands)" using seqs(2) by linarith
  moreover have "queue_inv inet_pton host final" unfolding final_def using cq.run_inv new by blast
  moreover have "q_capacity final = n" unfolding final_def using run_capacity new by simp
  ultimately show ?thesis
    using fifo seqs(1) unfolding Let_def accepted_commands_def [symmetric] delivered_def [symmetric]
      final_def [symmetric] by (simp add: queue_inv_def)
qed

lemma queue_left_accepted:
  assumes "queue_inv inet_pton host q"
  shows "list_all (accepted inet_pton host) (queue_left inet_pton host q op)"
proof -
  have "prefix (queue_left inet_pton host q op) (q_commands q @ queue_entered inet_pton host q op)"
    using queue_exec_fifo [OF assms, of op] by simp
  moreover have "list_all (accepted inet_pton host) (queue_entered inet_pton host q op)"
  proof (cases op)
    case (PushOp command)
    obtain q' r where r: "PushCommand inet_pton host command q = (q', r)" by fastforce
    show ?thesis
    proof (cases r)
      case (Inr s)
      then show ?thesis using r PushOp queue_inv_push(2) [OF assms, of command q' s] by auto
    qed (use r PushOp in simp)
  qed auto
  ultimately show ?thesis
    using assms set_mono_prefix unfolding queue_inv_def list_all_iff by fastforce
qed

lemma collect_left_accepted:
  "queue_inv inet_pton host q \<Longrightarrow>
    list_all (accepted inet_pton host) (collect (queue_exec inet_pton host) (queue_left inet_pton host) q ops)"
  by (induction ops arbitrary: q)
    (auto simp: queue_left_accepted queue_exec_inv simp del: queue_exec.simps)

lemma accepted_confirmed:
  assumes "accepted inet_pton host command"
  shows "SimulationCommandRequiresConfirmation (cmd_kind command) = Inr (cmd_confirmed command) \<or>
    SimulationCommandRequiresConfirmation (cmd_kind command) = Inr False"
  using assms
  by (auto simp: accepted_def ValidateSimulationCommand_def result_simps split: if_splits)

text \<open>C18. A consumer only ever receives commands that passed validation for their kind: what
  must be confirmed is confirmed, and what can be cancelled carries a control block.\<close>

theorem delivered_commands_checked:
  assumes "new_queue n = Inr q"
    and "command \<in> set (collect (queue_exec inet_pton host) (queue_left inet_pton host) q ops)"
  shows "ValidateSimulationCommand inet_pton host (command\<lparr>cmd_sequence := 0\<rparr>) = Inr () \<and>
    SimulationCommandRequiresConfirmation (cmd_kind command) \<in> {Inr False, Inr (cmd_confirmed command)} \<and>
    (\<not> needs_control (cmd_kind command) \<or> cmd_operation_control command \<noteq> None)"
proof -
  have "queue_inv inet_pton host q" using new_queue_inv [OF assms(1)] by simp
  from collect_left_accepted [OF this, of ops] have acc: "accepted inet_pton host command"
    using assms(2) by (auto simp: list_all_iff)
  show ?thesis using accepted_confirmed [OF acc] acc by (auto simp: accepted_def)
qed

text \<open>C19. A closed queue stays closed and takes nothing in, and no consumer waits on it: a
  waiting \<open>WaitPop\<close> returns the remaining commands one by one and then reports the end.\<close>

theorem closed_queue_drains:
  assumes "q_closed q"
  shows "q_closed (fst (run (queue_exec inet_pton host) q ops)) \<and>
    collect (queue_exec inet_pton host) (queue_entered inet_pton host) q ops = [] \<and>
    map (\<lambda>out. out = Blocked) (snd (run (queue_exec inet_pton host) q ops)) = replicate (length ops) False \<and>
    collect (queue_exec inet_pton host) (queue_left inet_pton host) q (replicate (length (q_commands q)) WaitPopOp)
      = q_commands q"
proof -
  have step: "q_closed (fst (queue_exec inet_pton host q op)) \<and> queue_entered inet_pton host q op = [] \<and>
      snd (queue_exec inet_pton host q op) \<noteq> Blocked" if "q_closed q" for q op
    using that by (cases op)
      (auto simp: PushCommand_def WaitPop_def TryPop_def Close_def Cancel_def Let_def split: sum.splits list.splits)
  have "q_closed (fst (run (queue_exec inet_pton host) q ops)) \<and>
    collect (queue_exec inet_pton host) (queue_entered inet_pton host) q ops = [] \<and>
    map (\<lambda>out. out = Blocked) (snd (run (queue_exec inet_pton host) q ops)) = replicate (length ops) False"
    using assms by (induction ops arbitrary: q) (auto simp: split_def Let_def step simp del: queue_exec.simps)
  moreover have "collect (queue_exec inet_pton host) (queue_left inet_pton host) q (replicate (length commands) WaitPopOp)
      = commands" if "q_commands q = commands" for q commands
    using that
    by (induction commands arbitrary: q) (auto simp: queue_left_def WaitPop_def)
  ultimately show ?thesis by simp
qed

text \<open>A session with a queue of capacity two: a restart is accepted, an unconfirmed kill is
  refused, a confirmed one is accepted, a third command finds the queue full, the consumer
  takes two commands, and the queue is closed.\<close>

definition example_ops :: "queue_op list" where
  "example_ops = [PushOp (plain_command kRestartNode ''node-a''),
     PushOp (plain_command kKillNode ''node-b''),
     PushOp ((plain_command kKillNode ''node-b'')\<lparr>cmd_confirmed := True\<rparr>),
     PushOp (plain_command kThawNode ''node-c''),
     TryPopOp, WaitPopOp, CloseOp]"

definition example_queue :: SimulationCommandQueue where
  "example_queue = \<lparr>q_commands = [], q_capacity = 2, q_maximum_size = 0, q_rejected = 0,
     q_next_sequence = 1, q_closed = False\<rparr>"

lemma example_queue_new: "new_queue 2 = Inr example_queue"
  by code_simp

lemma example_delivered:
  "map cmd_kind (collect (queue_exec (\<lambda>_. True) linux_signals) (queue_left (\<lambda>_. True) linux_signals)
     example_queue example_ops) = [kRestartNode, kKillNode]"
  by code_simp

lemma example_entered:
  "map cmd_kind (collect (queue_exec (\<lambda>_. True) linux_signals) (queue_entered (\<lambda>_. True) linux_signals)
     example_queue example_ops) = [kRestartNode, kKillNode]"
  by code_simp

theorem command_queue_exactly_once_witness:
  "map (\<lambda>c. unat (cmd_sequence c)) (collect (queue_exec (\<lambda>_. True) linux_signals)
     (queue_entered (\<lambda>_. True) linux_signals) example_queue example_ops) = [1, 2]"
proof -
  have "length (collect (queue_exec (\<lambda>_. True) linux_signals) (queue_entered (\<lambda>_. True) linux_signals)
     example_queue example_ops) = 2"
    using arg_cong [OF example_entered, of length] by simp
  moreover have "[1..<Suc 2] = [1, 2 :: nat]" by (simp add: upt_rec)
  ultimately show ?thesis
    using command_queue_exactly_once [OF example_queue_new, of "\<lambda>_. True" linux_signals example_ops]
    unfolding Let_def by (elim conjE) (simp only:)
qed

theorem delivered_commands_checked_witness:
  "\<exists>command. cmd_kind command = kKillNode \<and> cmd_confirmed command \<and>
     command \<in> set (collect (queue_exec (\<lambda>_. True) linux_signals) (queue_left (\<lambda>_. True) linux_signals)
       example_queue example_ops)"
proof -
  let ?delivered = "collect (queue_exec (\<lambda>_. True) linux_signals) (queue_left (\<lambda>_. True) linux_signals)
       example_queue example_ops"
  have "kKillNode \<in> set (map cmd_kind ?delivered)" unfolding example_delivered by simp
  then obtain command where c: "command \<in> set ?delivered" "cmd_kind command = kKillNode"
    unfolding set_map by (metis imageE)
  show ?thesis using delivered_commands_checked [OF example_queue_new c(1)] c by auto
qed

definition example_closed :: SimulationCommandQueue where
  "example_closed = example_queue\<lparr>q_commands := [plain_command kThawNode ''a'', plain_command kThawNode ''b''],
     q_closed := True\<rparr>"

theorem closed_queue_drains_witness:
  "collect (queue_exec (\<lambda>_. True) linux_signals) (queue_left (\<lambda>_. True) linux_signals) example_closed
     [WaitPopOp, WaitPopOp] = [plain_command kThawNode ''a'', plain_command kThawNode ''b''] \<and>
   q_closed (fst (run (queue_exec (\<lambda>_. True) linux_signals) example_closed [WaitPopOp, CloseOp]))"
proof -
  have closed: "q_closed example_closed" by (simp add: example_closed_def)
  have "replicate (length (q_commands example_closed)) WaitPopOp = [WaitPopOp, WaitPopOp]"
    by (simp add: example_closed_def)
  then show ?thesis
    using closed_queue_drains [OF closed, of "\<lambda>_. True" linux_signals "[WaitPopOp, CloseOp]"]
    by (simp add: example_closed_def)
qed

subsection \<open>The typed methods\<close>

text \<open>The state and success of a call, without the text of the exception.\<close>

definition same_effect ::
    "SimulationCommandQueue \<times> u64 result \<Rightarrow> SimulationCommandQueue \<times> u64 result \<Rightarrow> bool" where
  "same_effect r r' \<longleftrightarrow> fst r = fst r' \<and> (case (snd r, snd r') of
     (Inr s, Inr s') \<Rightarrow> s = s' | (Inl e, Inl e') \<Rightarrow> True | _ \<Rightarrow> False)"

lemma guarded_push_redundant:
  assumes "ok (ValidateSimulationCommand inet_pton host command) \<Longrightarrow> ok check"
  shows "same_effect (guarded_push check (PushCommand inet_pton host command) q)
    (PushCommand inet_pton host command q)"
proof (cases check)
  case (Inl e)
  then obtain e' where "ValidateSimulationCommand inet_pton host command = Inl e'"
    using assms by (cases "ValidateSimulationCommand inet_pton host command") auto
  then show ?thesis using Inl by (simp add: guarded_push_def same_effect_def PushCommand_def)
next
  case (Inr u)
  then show ?thesis by (simp add: guarded_push_def same_effect_def split: sum.split)
qed

lemma ok_Validate_payload:
  "ok (ValidateSimulationCommand inet_pton host command) \<Longrightarrow> ok (ValidatePayload inet_pton host command)"
  by (auto simp: ValidateSimulationCommand_def split: if_splits)

lemmas typed_simps = ValidatePayload_def with_payload_def RequirePayload_def
  SimulationCommandPayloadCount_def plain_command_def CheckPeer_def ValidateNetworkFlowCommand_def
  ValidatePerfCounterCommand_def ValidateWalletSendCommand_def ValidateNodeAddCommand_def
  ValidateNodeRemoveCommand_def ValidateNodeReplaceCommand_def ValidateRoleMutationCommand_def
  CheckRoleMutation_def

lemma peer_check_redundant:
  assumes "ok (ValidatePayload inet_pton host ((plain_command kind node_id)
       \<lparr>cmd_peer_node_id := Some peer_node_id, cmd_confirmed := confirmed\<rparr>))"
  shows "(kind = kConnectPeer \<or> kind = kDisconnectPeer) \<and> peer_node_id \<noteq> [] \<and> node_id \<noteq> peer_node_id"
  using assms by (cases kind)
    (simp_all add: typed_simps split: if_splits)


lemma profile_check_redundant:
  assumes "ok (ValidatePayload inet_pton host ((plain_command kind node_id)
       \<lparr>cmd_profile := Some profile, cmd_confirmed := confirmed\<rparr>))"
  shows "(kind = kSetResourceProfile \<or> kind = kSetNetworkProfile) \<and> profile \<noteq> []"
  using assms by (cases kind) (simp_all add: typed_simps split: if_splits)

lemma flow_check_redundant:
  assumes "ok (ValidatePayload inet_pton host ((plain_command kind node_id)
       \<lparr>cmd_network_flow := Some flow, cmd_confirmed := confirmed\<rparr>))"
  shows "(kind = kBlockNetworkFlow \<or> kind = kUnblockNetworkFlow) \<and> ok (CheckNetworkFlow inet_pton kind flow)"
  using assms by (cases kind) (simp_all add: typed_simps split: if_splits)

lemma partition_check_redundant:
  assumes "ok (ValidatePayload inet_pton host ((plain_command kind node_id)
       \<lparr>cmd_partition := Some part, cmd_confirmed := confirmed\<rparr>))"
  shows "(kind = kPartitionNodes \<or> kind = kHealPartition) \<and> ok (ValidatePartition part)"
  using assms by (cases kind) (simp_all add: typed_simps split: if_splits)

lemma role_check_redundant:
  assumes "ok (ValidatePayload inet_pton host ((plain_command kind ''sim'')
       \<lparr>cmd_role_mutation := Some request, cmd_confirmed := confirmed\<rparr>))"
  shows "ok (ValidateSimulationRoleMutationRequest kind request)"
  using assms by (cases kind) (simp_all add: typed_simps split: if_splits)

lemma perf_check_redundant:
  assumes "ok (ValidatePayload inet_pton host ((plain_command kSetPerfCounters node_id)
       \<lparr>cmd_perf_counter_target := Some target, cmd_perf_counter_kinds := kinds\<rparr>))"
  shows "ok (CheckPerfTarget target) \<and> kinds \<noteq> [] \<and> ok (CheckPerfKinds kinds)"
  using assms by (auto simp: typed_simps ok_iff Let_def result_simps split: if_splits)

lemma fixed_kind_checks_redundant:
  "ok (ValidatePayload inet_pton host ((plain_command kGenerateBlocks node_id)
     \<lparr>cmd_block_count := Some block_count, cmd_confirmed := confirmed\<rparr>)) \<Longrightarrow> block_count \<noteq> 0"
  "ok (ValidatePayload inet_pton host ((plain_command kSetResourceLimits node_id)
     \<lparr>cmd_resource_limit_patch := Some patch, cmd_confirmed := confirmed\<rparr>)) \<Longrightarrow> ok (CheckOperatorPatch patch)"
  "ok (ValidatePayload inet_pton host ((plain_command kSetNetworkCondition node_id)
     \<lparr>cmd_network_condition := Some condition, cmd_confirmed := confirmed\<rparr>)) \<Longrightarrow> ok (ValidateNetworkCondition condition)"
  "ok (ValidatePayload inet_pton host ((plain_command kSendWalletTransaction node_id)
     \<lparr>cmd_wallet_send := Some send, cmd_confirmed := confirmed\<rparr>)) \<Longrightarrow> ok (CheckWalletSend send)"
  by (simp_all add: typed_simps split: if_splits)

text \<open>The checks that the typed methods make before they build a command accept every
  command the common validation accepts: each typed method has the effect of pushing the
  command it builds, differing at most in the text of the exception.\<close>

theorem typed_methods_push:
  "same_effect (PushPeerCommand inet_pton host kind node_id peer confirmed q)
     (PushCommand inet_pton host ((plain_command kind node_id)\<lparr>cmd_peer_node_id := Some peer, cmd_confirmed := confirmed\<rparr>) q) \<and>
   same_effect (PushProfileCommand inet_pton host kind node_id profile confirmed q)
     (PushCommand inet_pton host ((plain_command kind node_id)\<lparr>cmd_profile := Some profile, cmd_confirmed := confirmed\<rparr>) q) \<and>
   same_effect (PushNetworkFlowCommand inet_pton host kind node_id flow confirmed q)
     (PushCommand inet_pton host ((plain_command kind node_id)\<lparr>cmd_network_flow := Some flow, cmd_confirmed := confirmed\<rparr>) q) \<and>
   same_effect (PushRoleMutation inet_pton host kind request confirmed q)
     (PushCommand inet_pton host ((plain_command kind ''sim'')\<lparr>cmd_role_mutation := Some request, cmd_confirmed := confirmed\<rparr>) q) \<and>
   same_effect (PushPartitionCommand inet_pton host kind part confirmed q)
     (PushCommand inet_pton host ((plain_command kind (if part_scope part = kNodePair then hd (group_node_ids (group_a part)) else ''sim''))
       \<lparr>cmd_partition := Some part, cmd_confirmed := confirmed\<rparr>) q) \<and>
   same_effect (PushGenerateBlocks inet_pton host node_id block_count confirmed q)
     (PushCommand inet_pton host ((plain_command kGenerateBlocks node_id)\<lparr>cmd_block_count := Some block_count, cmd_confirmed := confirmed\<rparr>) q) \<and>
   same_effect (PushResourceLimits inet_pton host node_id patch confirmed q)
     (PushCommand inet_pton host ((plain_command kSetResourceLimits node_id)\<lparr>cmd_resource_limit_patch := Some patch, cmd_confirmed := confirmed\<rparr>) q) \<and>
   same_effect (PushNetworkCondition inet_pton host node_id condition confirmed q)
     (PushCommand inet_pton host ((plain_command kSetNetworkCondition node_id)\<lparr>cmd_network_condition := Some condition, cmd_confirmed := confirmed\<rparr>) q) \<and>
   same_effect (PushPerfCounters inet_pton host target kinds q)
     (PushCommand inet_pton host ((plain_command kSetPerfCounters (PerfEventNode target))
       \<lparr>cmd_perf_counter_target := Some target, cmd_perf_counter_kinds := kinds\<rparr>) q) \<and>
   same_effect (PushWalletSend inet_pton host node_id send confirmed q)
     (PushCommand inet_pton host ((plain_command kSendWalletTransaction node_id)\<lparr>cmd_wallet_send := Some send, cmd_confirmed := confirmed\<rparr>) q)"
  unfolding PushPeerCommand_def PushPartitionCommand_def PushProfileCommand_def PushNetworkFlowCommand_def PushRoleMutation_def
    PushGenerateBlocks_def PushResourceLimits_def PushNetworkCondition_def PushPerfCounters_def PushWalletSend_def
  by (intro conjI guarded_push_redundant; drule ok_Validate_payload;
      (drule peer_check_redundant | drule profile_check_redundant | drule flow_check_redundant |
       drule role_check_redundant | drule partition_check_redundant | drule perf_check_redundant | drule fixed_kind_checks_redundant);
      auto simp: result_simps ok_iff)

end
