(* ===== verification/Role_Registry.thy ===== *)
theory Role_Registry
  imports Topology_Remap Command_Queue
begin

text \<open>
  The roles of the nodes (wallets, miners, masternodes) and their published generations, from
  \<open>src/simulation_registry.cpp\<close>, \<open>src/runtime_wallet_registry.cpp\<close> and their headers. Node indexes
  and counts are natural numbers; where the code computes with \<open>std::uint32_t\<close> the wrap-around is written
  out. A prepared publication holds the lock of the registry until it is committed or dropped, so that
  preparing and committing are one step.
\<close>

subsection \<open>Roles\<close>

datatype PeerConnectivityMode = kFixedCount | kAllPeers

record PeerConnectivityPolicy =
  cp_node :: nat
  cp_mode :: PeerConnectivityMode
  cp_peer_count :: PeerCountPolicy

record NodeRoleTopology =
  nt_configured :: bool
  nt_node_count :: u32
  nt_wallet_node_count :: nat
  nt_miner_node_count :: nat
  nt_masternode_node_count :: nat
  nt_allow_miner_wallet_overlap :: bool
  nt_wallet_nodes :: "nat list"
  nt_miner_nodes :: "nat list"
  nt_masternode_nodes :: "nat list"
  nt_peer_topology :: PeerTopologyConfig
  nt_peer_connectivity :: "PeerConnectivityPolicy list"

datatype WalletInitializationStrategy = kDriverRpc

record WalletInitialization =
  wn_strategy :: WalletInitializationStrategy
  wn_mode :: WalletPrivacyMode

record WalletIdentity =
  wi_wallet_index :: nat
  wi_node :: nat
  wi_node_id :: string
  wi_address :: string
  wi_funding_address :: string

record MasternodeIdentity =
  mi_node :: nat
  mi_node_id :: string
  mi_funding_wallet_node_id :: string
  mi_pro_tx_hash :: string
  mi_service :: string
  mi_collateral_address :: string
  mi_owner_address :: string
  mi_operator_public_key :: string
  mi_operator_secret_key :: string
  mi_voting_address :: string
  mi_payout_address :: string
  mi_collateral_hash :: string
  mi_collateral_index :: nat
  mi_state :: string
  mi_status :: string

record SimulationRegistry =
  sr_topology :: NodeRoleTopology
  sr_wallet_initialization :: WalletInitialization
  sr_wallets :: "WalletIdentity list"
  sr_masternodes :: "MasternodeIdentity list"

definition to_u32 :: "nat \<Rightarrow> nat" where
  "to_u32 n = n mod 4294967296"

definition pred_u32 :: "nat \<Rightarrow> nat" where
  "pred_u32 n = (n + 4294967295) mod 4294967296"

definition FromTopology :: "NodeRoleTopology \<Rightarrow> WalletInitialization \<Rightarrow> SimulationRegistry result" where
  "FromTopology topology wallet_initialization =
     (let registry = \<lparr>sr_topology = topology, sr_wallet_initialization = wallet_initialization, sr_wallets = [], sr_masternodes = []\<rparr> in
      if \<not> nt_configured topology then Inr registry
      else if nt_wallet_node_count topology \<noteq> length (nt_wallet_nodes topology)
      then Inl (RuntimeError ''resolved topology wallet_nodes size must match wallet_node_count'')
      else if nt_masternode_node_count topology \<noteq> length (nt_masternode_nodes topology)
      then Inl (RuntimeError ''resolved topology masternode_nodes size must match masternode_node_count'')
      else Inr (registry\<lparr>sr_wallets := map (\<lambda>(i, node). \<lparr>wi_wallet_index = to_u32 (i + 1), wi_node = to_u32 (node + 1),
        wi_node_id = [], wi_address = [], wi_funding_address = []\<rparr>) (enumerate 0 (nt_wallet_nodes topology))\<rparr>))"

definition AddWallet :: "WalletIdentity \<Rightarrow> SimulationRegistry \<Rightarrow> SimulationRegistry result" where
  "AddWallet wallet registry =
     (let topology = sr_topology registry; node_index = wi_node wallet - 1 in
      if wi_node wallet = 0 \<or> wi_node wallet > unat (nt_node_count topology)
      then Inl (RuntimeError ''wallet backing node is out of range'')
      else if length (sr_wallets registry) \<ge> 4294967295
      then Inl (OverflowError ''wallet index exceeds uint32'')
      else if \<not> nt_allow_miner_wallet_overlap topology \<and> node_index \<in> set (nt_miner_nodes topology)
      then Inl (RuntimeError ''wallet node overlaps a miner node without overlap permission'')
      else let wallet_nodes = (if node_index \<notin> set (nt_wallet_nodes topology)
                 then sort (nt_wallet_nodes topology @ [node_index]) else nt_wallet_nodes topology) in
        Inr (registry\<lparr>sr_topology := topology\<lparr>nt_wallet_nodes := wallet_nodes, nt_configured := True,
              nt_wallet_node_count := to_u32 (length wallet_nodes)\<rparr>,
            sr_wallets := sr_wallets registry @ [wallet\<lparr>wi_wallet_index := to_u32 (length (sr_wallets registry) + 1)\<rparr>]\<rparr>))"

definition IndexWallets :: "WalletIdentity list \<Rightarrow> WalletIdentity list" where
  "IndexWallets wallets = map (\<lambda>(i, wallet). wallet\<lparr>wi_wallet_index := to_u32 (i + 1)\<rparr>) (enumerate 0 wallets)"

definition RemoveWalletNode :: "nat \<Rightarrow> SimulationRegistry \<Rightarrow> SimulationRegistry result" where
  "RemoveWalletNode node_index registry =
     (let topology = sr_topology registry;
          kept = filter (\<lambda>wallet. \<not> (wi_node wallet \<noteq> 0 \<and> wi_node wallet - 1 = node_index)) (sr_wallets registry) in
      if node_index \<notin> set (nt_wallet_nodes topology)
      then Inl (RuntimeError ''wallet removal references an unregistered node'')
      else if length kept = length (sr_wallets registry)
      then Inl (RuntimeError ''wallet role has no registered wallet identity'')
      else let wallet_nodes = remove1 node_index (nt_wallet_nodes topology) in
        Inr (registry\<lparr>sr_topology := topology\<lparr>nt_wallet_nodes := wallet_nodes,
              nt_wallet_node_count := to_u32 (length wallet_nodes)\<rparr>,
            sr_wallets := IndexWallets kept\<rparr>))"

definition AddMinerNode :: "nat \<Rightarrow> SimulationRegistry \<Rightarrow> SimulationRegistry result" where
  "AddMinerNode node_index registry =
     (let topology = sr_topology registry in
      if node_index \<ge> unat (nt_node_count topology) then Inl (RuntimeError ''miner node is out of range'')
      else if node_index \<in> set (nt_miner_nodes topology) then Inl (RuntimeError ''miner node is already registered'')
      else if \<not> nt_allow_miner_wallet_overlap topology \<and> node_index \<in> set (nt_wallet_nodes topology)
      then Inl (RuntimeError ''miner node overlaps a wallet node without overlap permission'')
      else let miner_nodes = sort (nt_miner_nodes topology @ [node_index]) in
        Inr (registry\<lparr>sr_topology := topology\<lparr>nt_miner_nodes := miner_nodes, nt_configured := True,
          nt_miner_node_count := to_u32 (length miner_nodes)\<rparr>\<rparr>))"

definition RemoveMinerNodes :: "nat list \<Rightarrow> SimulationRegistry \<Rightarrow> SimulationRegistry result" where
  "RemoveMinerNodes node_indexes registry =
     (let topology = sr_topology registry in
      if \<not> distinct node_indexes then Inl (RuntimeError ''miner removal contains duplicate node indexes'')
      else if \<not> list_all (\<lambda>node. node \<in> set (nt_miner_nodes topology)) node_indexes
      then Inl (RuntimeError ''miner removal references an unregistered node'')
      else let miner_nodes = filter (\<lambda>node. node \<notin> set node_indexes) (nt_miner_nodes topology) in
        Inr (registry\<lparr>sr_topology := topology\<lparr>nt_miner_nodes := miner_nodes,
          nt_miner_node_count := to_u32 (length miner_nodes)\<rparr>\<rparr>))"

definition masternode_fields :: "MasternodeIdentity \<Rightarrow> string list" where
  "masternode_fields m = [mi_node_id m, mi_funding_wallet_node_id m, mi_pro_tx_hash m, mi_service m, mi_collateral_address m,
     mi_owner_address m, mi_operator_public_key m, mi_operator_secret_key m, mi_voting_address m, mi_payout_address m]"

definition AddMasternode :: "MasternodeIdentity \<Rightarrow> SimulationRegistry \<Rightarrow> SimulationRegistry result" where
  "AddMasternode masternode registry =
     (let topology = sr_topology registry; node_index = mi_node masternode - 1 in
      if mi_node masternode = 0 \<or> mi_node masternode > unat (nt_node_count topology)
      then Inl (RuntimeError ''masternode backing node is out of range'')
      else if [] \<in> set (masternode_fields masternode) \<or> mi_state masternode \<noteq> ''READY''
      then Inl (RuntimeError ''masternode identity is incomplete'')
      else if node_index \<in> set (nt_masternode_nodes topology)
      then Inl (RuntimeError ''masternode node is already registered'')
      else if list_ex (\<lambda>present. mi_pro_tx_hash present = mi_pro_tx_hash masternode \<or> mi_service present = mi_service masternode)
        (sr_masternodes registry)
      then Inl (RuntimeError ''masternode ProTx hash or service is already registered'')
      else let masternode_nodes = sort (nt_masternode_nodes topology @ [node_index]) in
        Inr (registry\<lparr>sr_topology := topology\<lparr>nt_masternode_nodes := masternode_nodes, nt_configured := True,
              nt_masternode_node_count := to_u32 (length masternode_nodes)\<rparr>,
            sr_masternodes := sort_key mi_node (sr_masternodes registry @ [masternode])\<rparr>))"

definition RemoveMasternodeNodes :: "nat list \<Rightarrow> SimulationRegistry \<Rightarrow> SimulationRegistry result" where
  "RemoveMasternodeNodes node_indexes registry =
     (let topology = sr_topology registry in
      if \<not> distinct node_indexes then Inl (RuntimeError ''masternode removal contains duplicate node indexes'')
      else if \<not> list_all (\<lambda>node. node \<in> set (nt_masternode_nodes topology)) node_indexes
      then Inl (RuntimeError ''masternode removal references an unregistered node'')
      else let masternode_nodes = filter (\<lambda>node. node \<notin> set node_indexes) (nt_masternode_nodes topology) in
        Inr (registry\<lparr>sr_topology := topology\<lparr>nt_masternode_nodes := masternode_nodes,
              nt_masternode_node_count := to_u32 (length masternode_nodes)\<rparr>,
            sr_masternodes := filter (\<lambda>m. \<not> (mi_node m \<noteq> 0 \<and> mi_node m - 1 \<in> set node_indexes)) (sr_masternodes registry)\<rparr>))"

definition SetRuntimeNodeCount :: "u32 \<Rightarrow> SimulationRegistry \<Rightarrow> SimulationRegistry result" where
  "SetRuntimeNodeCount node_count registry =
     (if node_count < nt_node_count (sr_topology registry)
      then Inl (RuntimeError ''runtime node count cannot shrink through wallet publication'')
      else Inr (registry\<lparr>sr_topology := (sr_topology registry)\<lparr>nt_node_count := node_count\<rparr>\<rparr>))"

definition WalletByIndex :: "nat \<Rightarrow> SimulationRegistry \<Rightarrow> WalletIdentity result" where
  "WalletByIndex wallet_index registry =
     (if wallet_index \<ge> length (sr_wallets registry) then Inl (RuntimeError ''wallet index is out of range'')
      else Inr (sr_wallets registry ! wallet_index))"

text \<open>Writing through the reference that \<open>MutableWalletByIndex\<close> returns.\<close>

definition MutableWalletByIndex ::
    "nat \<Rightarrow> (WalletIdentity \<Rightarrow> WalletIdentity) \<Rightarrow> SimulationRegistry \<Rightarrow> SimulationRegistry result" where
  "MutableWalletByIndex wallet_index change registry =
     (if wallet_index \<ge> length (sr_wallets registry) then Inl (RuntimeError ''wallet index is out of range'')
      else Inr (registry\<lparr>sr_wallets := (sr_wallets registry)[wallet_index := change (sr_wallets registry ! wallet_index)]\<rparr>))"

subsection \<open>Remapping after a removal\<close>

definition CheckRoleMapped :: "nat \<Rightarrow> nat option \<Rightarrow> nat set \<times> nat \<Rightarrow> (nat set \<times> nat) result" where
  "CheckRoleMapped old_count mapped state = (case mapped of
       None \<Rightarrow> Inr state
     | Some node \<Rightarrow>
         if node \<ge> old_count \<or> node \<in> fst state
         then Inl (InvalidArgument ''runtime role node remap must contain unique compact indexes'')
         else Inr (insert node (fst state), max (snd state) (node + 1)))"

definition RoleNodeCount :: "nat option list \<Rightarrow> nat result" where
  "RoleNodeCount old_to_new =
     bind_result (fold_result (CheckRoleMapped (length old_to_new)) old_to_new ({}, 0)) (\<lambda>(seen, next_node_count).
       if list_ex (\<lambda>node. node \<notin> seen) [0..<next_node_count]
       then Inl (InvalidArgument ''runtime role node remap must contain unique compact indexes'')
       else Inr next_node_count)"

definition RemapRoleNode :: "nat option list \<Rightarrow> string \<Rightarrow> nat \<Rightarrow> nat list \<Rightarrow> nat list result" where
  "RemapRoleNode old_to_new role node remapped =
     (if node \<ge> length old_to_new then Inl (RuntimeError (''cannot remove a node with the '' @ role @ '' role''))
      else case old_to_new ! node of
          None \<Rightarrow> Inl (RuntimeError (''cannot remove a node with the '' @ role @ '' role''))
        | Some new_node \<Rightarrow> Inr (remapped @ [new_node]))"

definition RemapRoleNodes :: "nat option list \<Rightarrow> string \<Rightarrow> nat list \<Rightarrow> nat list result" where
  "RemapRoleNodes old_to_new role nodes = fold_result (RemapRoleNode old_to_new role) nodes []"

definition RemapPolicy ::
    "'g rng \<Rightarrow> nat option list \<Rightarrow> PeerTopologyConfig \<Rightarrow> nat \<Rightarrow> PeerConnectivityPolicy \<Rightarrow> PeerConnectivityPolicy list \<Rightarrow>
     PeerConnectivityPolicy list result" where
  "RemapPolicy R old_to_new peer_topology next_node_count policy policies =
     (if cp_node policy \<ge> length old_to_new then Inl (RuntimeError ''runtime peer connectivity node is out of range'')
      else case old_to_new ! cp_node policy of
          None \<Rightarrow> Inr policies
        | Some node \<Rightarrow>
          bind_result (ResolvePeerTopologyPeerIndexes R peer_topology next_node_count node) (\<lambda>eligible.
            case cp_mode policy of
              kAllPeers \<Rightarrow>
                if length eligible > 4294967295 then Inl (OverflowError ''runtime all-peers eligibility exceeds uint32'')
                else bind_result (new_PeerCountPolicy (word_of_nat (length eligible)) (word_of_nat (length eligible))) (\<lambda>peer_count.
                  Inr (policies @ [policy\<lparr>cp_node := node, cp_peer_count := peer_count\<rparr>]))
            | kFixedCount \<Rightarrow>
                if unat (pc_maximum (cp_peer_count policy)) > next_node_count - 1 \<or>
                   unat (pc_minimum (cp_peer_count policy)) > length eligible
                then Inl (RuntimeError ''runtime peer connectivity policy is incompatible with the remapped node set'')
                else Inr (policies @ [policy\<lparr>cp_node := node\<rparr>])))"

definition RemapBackingNode :: "nat option list \<Rightarrow> string \<Rightarrow> nat \<Rightarrow> nat result" where
  "RemapBackingNode old_to_new kind node =
     (if node = 0 \<or> node > length old_to_new
      then Inl (RuntimeError (''cannot remove a node backing a registered '' @ kind))
      else case old_to_new ! (node - 1) of
          None \<Rightarrow> Inl (RuntimeError (''cannot remove a node backing a registered '' @ kind))
        | Some new_node \<Rightarrow> Inr (to_u32 (new_node + 1)))"

definition RemapWallet :: "nat option list \<Rightarrow> WalletIdentity \<Rightarrow> WalletIdentity list \<Rightarrow> WalletIdentity list result" where
  "RemapWallet old_to_new wallet wallets =
     bind_result (RemapBackingNode old_to_new ''wallet'' (wi_node wallet)) (\<lambda>node. Inr (wallets @ [wallet\<lparr>wi_node := node\<rparr>]))"

definition RemapMasternode ::
    "nat option list \<Rightarrow> MasternodeIdentity \<Rightarrow> MasternodeIdentity list \<Rightarrow> MasternodeIdentity list result" where
  "RemapMasternode old_to_new masternode masternodes =
     bind_result (RemapBackingNode old_to_new ''masternode'' (mi_node masternode)) (\<lambda>node.
       Inr (masternodes @ [masternode\<lparr>mi_node := node\<rparr>]))"

definition RemapRuntimeNodes ::
    "'g rng \<Rightarrow> nat option list \<Rightarrow> PeerTopologyConfig \<Rightarrow> SimulationRegistry \<Rightarrow> SimulationRegistry result" where
  "RemapRuntimeNodes R old_to_new peer_topology registry =
     (let topology = sr_topology registry in
      if length old_to_new \<noteq> unat (nt_node_count topology)
      then Inl (InvalidArgument ''runtime role node remap size must match the current node count'')
      else
        bind_result (RoleNodeCount old_to_new) (\<lambda>next_node_count.
        bind_result (RemapRoleNodes old_to_new ''wallet'' (nt_wallet_nodes topology)) (\<lambda>wallet_nodes.
        bind_result (RemapRoleNodes old_to_new ''miner'' (nt_miner_nodes topology)) (\<lambda>miner_nodes.
        bind_result (RemapRoleNodes old_to_new ''masternode'' (nt_masternode_nodes topology)) (\<lambda>masternode_nodes.
        bind_result (fold_result (RemapPolicy R old_to_new peer_topology next_node_count) (nt_peer_connectivity topology) []) (\<lambda>policies.
        bind_result (fold_result (RemapWallet old_to_new) (sr_wallets registry) []) (\<lambda>wallets.
        bind_result (fold_result (RemapMasternode old_to_new) (sr_masternodes registry) []) (\<lambda>masternodes.
          Inr (registry\<lparr>sr_topology := topology\<lparr>nt_node_count := word_of_nat next_node_count, nt_wallet_nodes := wallet_nodes,
                nt_miner_nodes := miner_nodes, nt_masternode_nodes := masternode_nodes,
                nt_wallet_node_count := to_u32 (length wallet_nodes), nt_miner_node_count := to_u32 (length miner_nodes),
                nt_masternode_node_count := to_u32 (length masternode_nodes),
                nt_peer_topology := peer_topology, nt_peer_connectivity := policies\<rparr>,
              sr_wallets := wallets, sr_masternodes := masternodes\<rparr>)))))))))"

subsection \<open>Published generations\<close>

record Generation =
  gn_sequence :: u64
  gn_registry :: SimulationRegistry

record RuntimeWalletRegistry =
  rw_generation :: Generation
  rw_target_addresses :: "string list"

definition DefaultNodeRoleTopology :: NodeRoleTopology where
  "DefaultNodeRoleTopology = \<lparr>nt_configured = False, nt_node_count = 0, nt_wallet_node_count = 0, nt_miner_node_count = 0,
     nt_masternode_node_count = 0, nt_allow_miner_wallet_overlap = False, nt_wallet_nodes = [], nt_miner_nodes = [],
     nt_masternode_nodes = [], nt_peer_topology = DefaultPeerTopologyConfig, nt_peer_connectivity = []\<rparr>"

definition new_SimulationRegistry :: SimulationRegistry where
  "new_SimulationRegistry = \<lparr>sr_topology = DefaultNodeRoleTopology,
     sr_wallet_initialization = \<lparr>wn_strategy = kDriverRpc, wn_mode = kPublic\<rparr>, sr_wallets = [], sr_masternodes = []\<rparr>"

definition new_RuntimeWalletRegistry :: RuntimeWalletRegistry where
  "new_RuntimeWalletRegistry =
     \<lparr>rw_generation = \<lparr>gn_sequence = 0, gn_registry = new_SimulationRegistry\<rparr>, rw_target_addresses = []\<rparr>"

text \<open>\<open>before_commit\<close> returns or throws.\<close>

definition SetTargetAddress ::
    "string \<Rightarrow> bool \<Rightarrow> unit result \<Rightarrow> RuntimeWalletRegistry \<Rightarrow> RuntimeWalletRegistry result" where
  "SetTargetAddress address enabled before_commit registry =
     bind_result (ValidateTargetAddressText address) (\<lambda>_.
     if enabled \<and> list_ex (\<lambda>wallet. wi_address wallet = address \<or> wi_funding_address wallet = address)
          (sr_wallets (gn_registry (rw_generation registry)))
     then Inl (InvalidArgument ''address already belongs to a managed wallet'')
     else
       let targets = rw_target_addresses registry;
           updated = (if enabled \<and> address \<notin> set targets then targets @ [address]
             else if \<not> enabled \<and> address \<in> set targets then remove1 address targets
             else targets) in
       bind_result before_commit (\<lambda>_. Inr (registry\<lparr>rw_target_addresses := updated\<rparr>)))"

definition SelectTargetAddress :: "u64 \<Rightarrow> u64 \<Rightarrow> RuntimeWalletRegistry \<Rightarrow> string option result" where
  "SelectTargetAddress transaction_index managed_recipient_count registry =
     (let targets = rw_target_addresses registry in
      if targets = [] then Inr None
      else if unat managed_recipient_count > 18446744073709551615 - length targets
      then Inl (OverflowError ''target address recipient count overflow'')
      else
        let slot = unat transaction_index mod (unat managed_recipient_count + length targets) in
        if slot < length targets then Inr (Some (targets ! slot)) else Inr None)"

definition Initialize :: "SimulationRegistry \<Rightarrow> RuntimeWalletRegistry \<Rightarrow> RuntimeWalletRegistry result" where
  "Initialize roles registry =
     (if gn_sequence (rw_generation registry) \<noteq> 0 \<or> sr_wallets (gn_registry (rw_generation registry)) \<noteq> []
      then Inl (LogicError ''runtime wallet registry is already initialized'')
      else Inr (registry\<lparr>rw_generation := \<lparr>gn_sequence = 1, gn_registry = roles\<rparr>\<rparr>))"

definition RegistrySnapshot :: "RuntimeWalletRegistry \<Rightarrow> Generation result" where
  "RegistrySnapshot registry =
     (if gn_sequence (rw_generation registry) = 0
      then Inl (LogicError ''runtime wallet registry is not initialized'')
      else Inr (rw_generation registry))"

text \<open>
  A \<open>PreparedAppend\<close> holds the lock and the generation to publish, or nothing once it was committed.
\<close>

type_synonym PreparedAppend = "Generation option"

definition PublishWallet ::
    "u32 \<Rightarrow> WalletIdentity \<Rightarrow> string set \<times> SimulationRegistry \<Rightarrow> (string set \<times> SimulationRegistry) result" where
  "PublishWallet runtime_node_count wallet state =
     (let (addresses, upcoming) = state in
      if wi_node wallet = 0 \<or> wi_node wallet > unat runtime_node_count \<or> wi_node_id wallet = [] \<or>
         wi_address wallet = [] \<or> wi_funding_address wallet = []
      then Inl (InvalidArgument ''runtime wallet publication contains an incomplete wallet'')
      else if wi_address wallet \<in> addresses
      then Inl (InvalidArgument ''runtime wallet publication contains a duplicate address'')
      else bind_result (AddWallet wallet upcoming) (\<lambda>upcoming. Inr (insert (wi_address wallet) addresses, upcoming)))"

definition PublishMiner ::
    "nat \<Rightarrow> nat set \<times> SimulationRegistry \<Rightarrow> (nat set \<times> SimulationRegistry) result" where
  "PublishMiner miner_node state =
     (let (unique_miner_nodes, upcoming) = state in
      if miner_node \<in> unique_miner_nodes
      then Inl (InvalidArgument ''runtime role publication contains a duplicate miner node'')
      else bind_result (AddMinerNode miner_node upcoming) (\<lambda>upcoming. Inr (insert miner_node unique_miner_nodes, upcoming)))"

definition PublishMasternode ::
    "u32 \<Rightarrow> MasternodeIdentity \<Rightarrow> (nat set \<times> string set \<times> string set) \<times> SimulationRegistry \<Rightarrow>
     ((nat set \<times> string set \<times> string set) \<times> SimulationRegistry) result" where
  "PublishMasternode runtime_node_count masternode state =
     (let ((nodes, hashes, services), upcoming) = state in
      if mi_node masternode = 0 \<or> mi_node masternode > unat runtime_node_count \<or>
         [] \<in> set (masternode_fields masternode) \<or> mi_state masternode \<noteq> ''READY'' \<or>
         mi_node masternode - 1 \<in> nodes \<or> mi_pro_tx_hash masternode \<in> hashes \<or> mi_service masternode \<in> services
      then Inl (InvalidArgument ''runtime role publication contains an invalid masternode'')
      else bind_result (AddMasternode masternode upcoming) (\<lambda>upcoming.
        Inr ((insert (mi_node masternode - 1) nodes, insert (mi_pro_tx_hash masternode) hashes,
              insert (mi_service masternode) services), upcoming)))"

definition PrepareUpdate ::
    "u64 \<Rightarrow> WalletIdentity list \<Rightarrow> nat list \<Rightarrow> MasternodeIdentity list \<Rightarrow> u32 \<Rightarrow> RuntimeWalletRegistry \<Rightarrow>
     PreparedAppend result" where
  "PrepareUpdate expected_generation wallets miner_nodes masternodes runtime_node_count registry =
     (let generation = rw_generation registry; roles = gn_registry generation in
      if gn_sequence generation = 0 then Inl (LogicError ''runtime wallet registry is not initialized'')
      else if gn_sequence generation \<noteq> expected_generation
      then Inl (RuntimeError ''runtime wallet registry changed before publication'')
      else if wallets = [] \<and> miner_nodes = [] \<and> masternodes = [] \<and>
         runtime_node_count = nt_node_count (sr_topology roles)
      then Inl (InvalidArgument ''runtime role publication requires a state change'')
      else if gn_sequence generation = max_u64
      then Inl (OverflowError ''runtime wallet registry generation overflow'')
      else
        bind_result (SetRuntimeNodeCount runtime_node_count roles) (\<lambda>upcoming.
        bind_result (fold_result (PublishWallet runtime_node_count) wallets
          (set (filter (\<lambda>address. address \<noteq> []) (map wi_address (sr_wallets upcoming))), upcoming)) (\<lambda>(_, upcoming).
        bind_result (fold_result PublishMiner miner_nodes ({}, upcoming)) (\<lambda>(_, upcoming).
        bind_result (fold_result (PublishMasternode runtime_node_count) masternodes
          ((set (map (\<lambda>present. pred_u32 (mi_node present)) (sr_masternodes upcoming)),
            set (map mi_pro_tx_hash (sr_masternodes upcoming)), set (map mi_service (sr_masternodes upcoming))), upcoming))
          (\<lambda>(_, upcoming). Inr (Some \<lparr>gn_sequence = gn_sequence generation + 1, gn_registry = upcoming\<rparr>))))))"

definition PrepareAppend ::
    "u64 \<Rightarrow> WalletIdentity list \<Rightarrow> u32 \<Rightarrow> RuntimeWalletRegistry \<Rightarrow> PreparedAppend result" where
  "PrepareAppend expected_generation wallets runtime_node_count registry =
     PrepareUpdate expected_generation wallets [] [] runtime_node_count registry"

definition InsertRoleNode :: "string \<Rightarrow> u32 \<Rightarrow> nat \<Rightarrow> nat set \<Rightarrow> nat set result" where
  "InsertRoleNode role node_count node nodes =
     (if node \<ge> unat node_count \<or> node \<in> nodes
      then Inl (InvalidArgument (''runtime role replacement contains an invalid '' @ role @ '' node''))
      else Inr (insert node nodes))"

definition CheckWalletIdentity ::
    "u32 \<Rightarrow> nat set \<Rightarrow> WalletIdentity \<Rightarrow> string set \<times> nat \<Rightarrow> (string set \<times> nat) result" where
  "CheckWalletIdentity node_count wallet_nodes wallet state =
     (let (addresses, expected_wallet_index) = state in
      if wi_wallet_index wallet \<noteq> expected_wallet_index \<or> wi_node wallet = 0 \<or> wi_node wallet > unat node_count \<or>
         wi_node_id wallet = [] \<or> wi_address wallet = [] \<or> wi_funding_address wallet = [] \<or>
         wi_address wallet \<in> addresses \<or> wi_node wallet - 1 \<notin> wallet_nodes
      then Inl (InvalidArgument ''runtime role replacement contains an invalid wallet identity'')
      else Inr (insert (wi_address wallet) addresses, to_u32 (expected_wallet_index + 1)))"

definition CheckMasternodeIdentity ::
    "u32 \<Rightarrow> nat set \<Rightarrow> MasternodeIdentity \<Rightarrow> string set \<times> string set \<Rightarrow> (string set \<times> string set) result" where
  "CheckMasternodeIdentity node_count masternode_nodes masternode state =
     (let (hashes, services) = state in
      if mi_node masternode = 0 \<or> mi_node masternode > unat node_count \<or> [] \<in> set (masternode_fields masternode) \<or>
         mi_state masternode = [] \<or> mi_pro_tx_hash masternode \<in> hashes \<or> mi_service masternode \<in> services \<or>
         mi_node masternode - 1 \<notin> masternode_nodes
      then Inl (InvalidArgument ''runtime role replacement contains an invalid masternode identity'')
      else Inr (insert (mi_pro_tx_hash masternode) hashes, insert (mi_service masternode) services))"

definition PrepareReplace ::
    "u64 \<Rightarrow> SimulationRegistry \<Rightarrow> RuntimeWalletRegistry \<Rightarrow> PreparedAppend result" where
  "PrepareReplace expected_generation roles registry =
     (let generation = rw_generation registry; topology = sr_topology roles; node_count = nt_node_count topology in
      if gn_sequence generation = 0 then Inl (LogicError ''runtime wallet registry is not initialized'')
      else if gn_sequence generation \<noteq> expected_generation
      then Inl (RuntimeError ''runtime wallet registry changed before replacement publication'')
      else if gn_sequence generation = max_u64
      then Inl (OverflowError ''runtime wallet registry generation overflow'')
      else if nt_wallet_node_count topology \<noteq> length (nt_wallet_nodes topology) \<or>
         nt_miner_node_count topology \<noteq> length (nt_miner_nodes topology) \<or>
         nt_masternode_node_count topology \<noteq> length (nt_masternode_nodes topology)
      then Inl (InvalidArgument ''runtime role replacement count does not match its node indexes'')
      else
        bind_result (fold_result (InsertRoleNode ''wallet'' node_count) (nt_wallet_nodes topology) {}) (\<lambda>wallet_nodes.
        bind_result (fold_result (InsertRoleNode ''miner'' node_count) (nt_miner_nodes topology) {}) (\<lambda>miner_nodes.
        bind_result (fold_result (InsertRoleNode ''masternode'' node_count) (nt_masternode_nodes topology) {}) (\<lambda>masternode_nodes.
        if length (sr_masternodes roles) \<noteq> card masternode_nodes
        then Inl (InvalidArgument ''runtime role replacement masternode identities do not match its node indexes'')
        else if \<not> nt_allow_miner_wallet_overlap topology \<and> miner_nodes \<inter> wallet_nodes \<noteq> {}
        then Inl (InvalidArgument ''runtime role replacement contains a forbidden role overlap'')
        else
          bind_result (fold_result (CheckWalletIdentity node_count wallet_nodes) (sr_wallets roles) ({}, 1)) (\<lambda>_.
          bind_result (fold_result (CheckMasternodeIdentity node_count masternode_nodes) (sr_masternodes roles) ({}, {})) (\<lambda>_.
            Inr (Some \<lparr>gn_sequence = gn_sequence generation + 1, gn_registry = roles\<rparr>)))))))"

definition CommitGeneration :: "PreparedAppend \<Rightarrow> RuntimeWalletRegistry \<Rightarrow> (Generation \<times> PreparedAppend \<times> RuntimeWalletRegistry) result" where
  "CommitGeneration prepared registry = (case prepared of
       None \<Rightarrow> Inl Terminated
     | Some generation \<Rightarrow> Inr (generation, None, registry\<lparr>rw_generation := generation\<rparr>))"

subsection \<open>Valid roles\<close>

definition role_nodes_ok :: "u32 \<Rightarrow> nat \<Rightarrow> nat list \<Rightarrow> bool" where
  "role_nodes_ok node_count n nodes \<longleftrightarrow> n = length nodes \<and> distinct nodes \<and> (\<forall>node\<in>set nodes. node < unat node_count)"

definition wf_role_topology :: "NodeRoleTopology \<Rightarrow> bool" where
  "wf_role_topology t \<longleftrightarrow>
     role_nodes_ok (nt_node_count t) (nt_wallet_node_count t) (nt_wallet_nodes t) \<and>
     role_nodes_ok (nt_node_count t) (nt_miner_node_count t) (nt_miner_nodes t) \<and>
     role_nodes_ok (nt_node_count t) (nt_masternode_node_count t) (nt_masternode_nodes t) \<and>
     (nt_allow_miner_wallet_overlap t \<or> set (nt_miner_nodes t) \<inter> set (nt_wallet_nodes t) = {})"

definition wallet_complete :: "u32 \<Rightarrow> nat set \<Rightarrow> WalletIdentity \<Rightarrow> bool" where
  "wallet_complete node_count wallet_nodes w \<longleftrightarrow> wi_node w \<noteq> 0 \<and> wi_node w \<le> unat node_count \<and> wi_node_id w \<noteq> [] \<and>
     wi_address w \<noteq> [] \<and> wi_funding_address w \<noteq> [] \<and> wi_node w - 1 \<in> wallet_nodes"

definition wf_wallets :: "u32 \<Rightarrow> nat set \<Rightarrow> WalletIdentity list \<Rightarrow> bool" where
  "wf_wallets node_count wallet_nodes ws \<longleftrightarrow>
     map wi_wallet_index ws = map (\<lambda>i. to_u32 (i + 1)) [0..<length ws] \<and>
     distinct (map wi_address ws) \<and> (\<forall>w\<in>set ws. wallet_complete node_count wallet_nodes w)"

definition masternode_complete :: "u32 \<Rightarrow> nat set \<Rightarrow> MasternodeIdentity \<Rightarrow> bool" where
  "masternode_complete node_count masternode_nodes m \<longleftrightarrow> mi_node m \<noteq> 0 \<and> mi_node m \<le> unat node_count \<and>
     [] \<notin> set (masternode_fields m) \<and> mi_state m \<noteq> [] \<and> mi_node m - 1 \<in> masternode_nodes"

definition wf_masternodes :: "u32 \<Rightarrow> nat list \<Rightarrow> MasternodeIdentity list \<Rightarrow> bool" where
  "wf_masternodes node_count masternode_nodes ms \<longleftrightarrow> length ms = length masternode_nodes \<and>
     distinct (map mi_pro_tx_hash ms) \<and> distinct (map mi_service ms) \<and>
     (\<forall>m\<in>set ms. masternode_complete node_count (set masternode_nodes) m)"

definition wf_roles :: "SimulationRegistry \<Rightarrow> bool" where
  "wf_roles r \<longleftrightarrow> (let t = sr_topology r in wf_role_topology t \<and>
     wf_wallets (nt_node_count t) (set (nt_wallet_nodes t)) (sr_wallets r) \<and>
     wf_masternodes (nt_node_count t) (nt_masternode_nodes t) (sr_masternodes r))"

text \<open>The check of a replacement does not see two identities on one node; the operations never produce them.\<close>

definition exact_roles :: "SimulationRegistry \<Rightarrow> bool" where
  "exact_roles r \<longleftrightarrow> wf_roles r \<and> distinct (map mi_node (sr_masternodes r))"

lemma to_u32_less [simp]: "n < 4294967296 \<Longrightarrow> to_u32 n = n"
  by (simp add: to_u32_def)

lemma to_u32_add: "to_u32 (to_u32 a + b) = to_u32 (a + b)"
  by (simp add: to_u32_def mod_add_left_eq)

lemma u32_lt [simp]: "unat (a :: u32) < 4294967296"
  using unsigned_less [of a, where 'a = nat] by simp

lemma role_nodes_length:
  assumes "distinct nodes" "\<And>node. node \<in> set nodes \<Longrightarrow> node < unat (c :: u32)"
  shows "to_u32 (length nodes) = length nodes"
proof -
  have "length nodes = card (set nodes)" using assms(1) by (simp add: distinct_card)
  also have "\<dots> \<le> card {..<unat c}" using assms(2) by (intro card_mono) auto
  finally have "length nodes \<le> unat c" by simp
  then have "length nodes < 4294967296" using u32_lt [of c] by linarith
  then show ?thesis by simp
qed

lemma role_nodes_okI:
  assumes "distinct nodes" "\<And>node. node \<in> set nodes \<Longrightarrow> node < unat c"
  shows "role_nodes_ok c (to_u32 (length nodes)) nodes"
  using assms role_nodes_length [OF assms] by (simp add: role_nodes_ok_def)

lemma wf_rolesI:
  assumes "wf_role_topology (sr_topology r)"
    "wf_wallets (nt_node_count (sr_topology r)) (set (nt_wallet_nodes (sr_topology r))) (sr_wallets r)"
    "wf_masternodes (nt_node_count (sr_topology r)) (nt_masternode_nodes (sr_topology r)) (sr_masternodes r)"
  shows "wf_roles r"
  using assms by (simp add: wf_roles_def)

subsection \<open>What a replacement must satisfy\<close>

lemma InsertRoleNode_loop:
  "fold_result (InsertRoleNode role c) nodes seen = Inr seen' \<longleftrightarrow>
     distinct nodes \<and> (\<forall>node\<in>set nodes. node < unat c) \<and> set nodes \<inter> seen = {} \<and> seen' = seen \<union> set nodes"
proof (induction nodes arbitrary: seen)
  case (Cons node nodes)
  show ?case
  proof (cases "node < unat c \<and> node \<notin> seen")
    case True
    then have "InsertRoleNode role c node seen = Inr (insert node seen)" by (simp add: InsertRoleNode_def)
    with True show ?thesis by (auto simp: Cons.IH)
  next
    case False
    then have "\<exists>e. InsertRoleNode role c node seen = Inl e" by (auto simp: InsertRoleNode_def)
    with False show ?thesis by auto
  qed
qed auto

lemma CheckWalletIdentity_ok:
  "CheckWalletIdentity c nodes w (A, k) = Inr s \<longleftrightarrow> wi_wallet_index w = k \<and> wallet_complete c nodes w \<and>
     wi_address w \<notin> A \<and> s = (insert (wi_address w) A, to_u32 (k + 1))"
  by (auto simp: CheckWalletIdentity_def wallet_complete_def)

lemma CheckWalletIdentity_loop:
  assumes "k < 4294967296"
  shows "ok (fold_result (CheckWalletIdentity c nodes) ws (A, k)) \<longleftrightarrow>
     map wi_wallet_index ws = map (\<lambda>i. to_u32 (i + k)) [0..<length ws] \<and> distinct (map wi_address ws) \<and>
     wi_address ` set ws \<inter> A = {} \<and> (\<forall>w\<in>set ws. wallet_complete c nodes w)"
  using assms
proof (induction ws arbitrary: A k)
  case (Cons w ws)
  define k' where "k' = to_u32 (k + 1)"
  have shift: "map (\<lambda>i. to_u32 (i + k)) [0..<length (w # ws)] = k # map (\<lambda>i. to_u32 (i + k')) [0..<length ws]"
    using Cons.prems to_u32_add [of "k + 1"]
    by (simp add: k'_def upt_conv_Cons map_Suc_upt [symmetric] add.commute del: upt_Suc)
  have "k' < 4294967296" by (simp add: k'_def to_u32_def)
  note IH = Cons.IH [OF this]
  show ?case unfolding shift by (auto simp: CheckWalletIdentity_ok IH k'_def [symmetric] simp del: One_nat_def add_Suc_right)
qed simp

lemma CheckMasternodeIdentity_ok:
  "CheckMasternodeIdentity c nodes m (H, S) = Inr s \<longleftrightarrow> masternode_complete c nodes m \<and> mi_pro_tx_hash m \<notin> H \<and>
     mi_service m \<notin> S \<and> s = (insert (mi_pro_tx_hash m) H, insert (mi_service m) S)"
  by (auto simp: CheckMasternodeIdentity_def masternode_complete_def)

lemma CheckMasternodeIdentity_loop:
  "ok (fold_result (CheckMasternodeIdentity c nodes) ms (H, S)) \<longleftrightarrow>
     distinct (map mi_pro_tx_hash ms) \<and> distinct (map mi_service ms) \<and> mi_pro_tx_hash ` set ms \<inter> H = {} \<and>
     mi_service ` set ms \<inter> S = {} \<and> (\<forall>m\<in>set ms. masternode_complete c nodes m)"
  by (induction ms arbitrary: H S) (auto simp: CheckMasternodeIdentity_ok)

lemma PrepareReplace_iff:
  "PrepareReplace expected roles registry = Inr prepared \<longleftrightarrow>
     gn_sequence (rw_generation registry) \<noteq> 0 \<and> gn_sequence (rw_generation registry) = expected \<and>
     expected \<noteq> max_u64 \<and> wf_roles roles \<and> prepared = Some \<lparr>gn_sequence = expected + 1, gn_registry = roles\<rparr>"
proof -
  let ?t = "sr_topology roles"
  let ?c = "nt_node_count ?t"
  define W where "W = fold_result (CheckWalletIdentity ?c (set (nt_wallet_nodes ?t))) (sr_wallets roles) ({}, 1)"
  define M where "M = fold_result (CheckMasternodeIdentity ?c (set (nt_masternode_nodes ?t))) (sr_masternodes roles) ({}, {})"
  have W: "ok W \<longleftrightarrow> wf_wallets ?c (set (nt_wallet_nodes ?t)) (sr_wallets roles)"
    unfolding W_def by (subst CheckWalletIdentity_loop) (auto simp: wf_wallets_def)
  have M: "ok M \<and> length (sr_masternodes roles) = length (nt_masternode_nodes ?t) \<longleftrightarrow>
      wf_masternodes ?c (nt_masternode_nodes ?t) (sr_masternodes roles)"
    unfolding M_def by (subst CheckMasternodeIdentity_loop) (auto simp: wf_masternodes_def)
  show ?thesis
    unfolding PrepareReplace_def Let_def wf_roles_def wf_role_topology_def role_nodes_ok_def W [symmetric] M [symmetric]
    by (auto simp: bind_result_Inr InsertRoleNode_loop distinct_card ok_iff W_def [symmetric] M_def [symmetric] simp del: One_nat_def split: if_splits)
qed

subsection \<open>Adding roles\<close>

lemma wf_rolesD:
  assumes "wf_roles r"
  shows "wf_role_topology (sr_topology r)"
    "wf_wallets (nt_node_count (sr_topology r)) (set (nt_wallet_nodes (sr_topology r))) (sr_wallets r)"
    "wf_masternodes (nt_node_count (sr_topology r)) (nt_masternode_nodes (sr_topology r)) (sr_masternodes r)"
  using assms by (simp_all add: wf_roles_def Let_def)

lemma exact_rolesI:
  assumes "wf_role_topology (sr_topology r)"
    "wf_wallets (nt_node_count (sr_topology r)) (set (nt_wallet_nodes (sr_topology r))) (sr_wallets r)"
    "wf_masternodes (nt_node_count (sr_topology r)) (nt_masternode_nodes (sr_topology r)) (sr_masternodes r)"
    "distinct (map mi_node (sr_masternodes r))"
  shows "exact_roles r"
  using assms by (simp add: exact_roles_def wf_rolesI)

lemma exact_rolesD:
  assumes "exact_roles r"
  shows "wf_role_topology (sr_topology r)"
    "wf_wallets (nt_node_count (sr_topology r)) (set (nt_wallet_nodes (sr_topology r))) (sr_wallets r)"
    "wf_masternodes (nt_node_count (sr_topology r)) (nt_masternode_nodes (sr_topology r)) (sr_masternodes r)"
    "distinct (map mi_node (sr_masternodes r))"
  using assms wf_rolesD by (simp_all add: exact_roles_def)

lemma wf_role_topologyI:
  assumes "role_nodes_ok (nt_node_count t) (nt_wallet_node_count t) (nt_wallet_nodes t)"
    "role_nodes_ok (nt_node_count t) (nt_miner_node_count t) (nt_miner_nodes t)"
    "role_nodes_ok (nt_node_count t) (nt_masternode_node_count t) (nt_masternode_nodes t)"
    "nt_allow_miner_wallet_overlap t \<or> set (nt_miner_nodes t) \<inter> set (nt_wallet_nodes t) = {}"
  shows "wf_role_topology t"
  using assms by (simp add: wf_role_topology_def)

lemma wf_role_topologyD:
  assumes "wf_role_topology t"
  shows "role_nodes_ok (nt_node_count t) (nt_wallet_node_count t) (nt_wallet_nodes t)"
    "role_nodes_ok (nt_node_count t) (nt_miner_node_count t) (nt_miner_nodes t)"
    "role_nodes_ok (nt_node_count t) (nt_masternode_node_count t) (nt_masternode_nodes t)"
    "nt_allow_miner_wallet_overlap t \<or> set (nt_miner_nodes t) \<inter> set (nt_wallet_nodes t) = {}"
  using assms by (simp_all add: wf_role_topology_def)

lemma wallet_complete_mono:
  "wallet_complete c N w \<Longrightarrow> unat c \<le> unat c' \<Longrightarrow> N \<subseteq> N' \<Longrightarrow> wallet_complete c' N' w"
  by (auto simp: wallet_complete_def)

lemma wf_wallets_mono:
  "wf_wallets c N ws \<Longrightarrow> unat c \<le> unat c' \<Longrightarrow> N \<subseteq> N' \<Longrightarrow> wf_wallets c' N' ws"
  using wallet_complete_mono by (auto simp: wf_wallets_def)

lemma wf_wallets_snoc:
  assumes "wf_wallets c N ws" "wallet_complete c N w" "wi_address w \<notin> wi_address ` set ws"
  shows "wf_wallets c N (ws @ [w\<lparr>wi_wallet_index := to_u32 (length ws + 1)\<rparr>])"
  using assms by (auto simp: wf_wallets_def wallet_complete_def)

lemma role_nodes_add:
  assumes "role_nodes_ok c n nodes" "node < unat c" "node \<notin> set nodes"
  shows "role_nodes_ok c (to_u32 (length (sort (nodes @ [node])))) (sort (nodes @ [node]))"
  using assms by (intro role_nodes_okI) (auto simp: role_nodes_ok_def)

lemma role_nodes_keep: "role_nodes_ok c n nodes \<Longrightarrow> role_nodes_ok c (to_u32 (length nodes)) nodes"
  using role_nodes_okI [of nodes c] by (auto simp: role_nodes_ok_def)

lemma AddWallet_wf:
  assumes "wf_roles r" "AddWallet w r = Inr r'" "wi_node_id w \<noteq> []" "wi_address w \<noteq> []" "wi_funding_address w \<noteq> []"
    "wi_address w \<notin> wi_address ` set (sr_wallets r)"
  shows "wf_roles r'"
proof -
  let ?t = "sr_topology r" and ?n = "wi_node w - 1"
  define nodes where "nodes = (if ?n \<notin> set (nt_wallet_nodes ?t) then sort (nt_wallet_nodes ?t @ [?n]) else nt_wallet_nodes ?t)"
  note wf = wf_rolesD [OF assms(1)]
  note top = wf_role_topologyD [OF wf(1)]
  have node: "wi_node w \<noteq> 0" "wi_node w \<le> unat (nt_node_count ?t)"
    and overlap: "nt_allow_miner_wallet_overlap ?t \<or> ?n \<notin> set (nt_miner_nodes ?t)"
    and r': "r' = r\<lparr>sr_topology := ?t\<lparr>nt_wallet_nodes := nodes, nt_configured := True,
        nt_wallet_node_count := to_u32 (length nodes)\<rparr>,
      sr_wallets := sr_wallets r @ [w\<lparr>wi_wallet_index := to_u32 (length (sr_wallets r) + 1)\<rparr>]\<rparr>"
    using assms(2) unfolding AddWallet_def Let_def nodes_def [symmetric] by (auto split: if_splits)
  have set_nodes: "set nodes = insert ?n (set (nt_wallet_nodes ?t))" by (auto simp: nodes_def)
  have nodes_ok: "role_nodes_ok (nt_node_count ?t) (to_u32 (length nodes)) nodes"
    using role_nodes_add [OF top(1), of ?n] role_nodes_keep [OF top(1)] node unfolding nodes_def by auto
  have wallets: "wf_wallets (nt_node_count ?t) (set nodes) (sr_wallets r @ [w\<lparr>wi_wallet_index := to_u32 (length (sr_wallets r) + 1)\<rparr>])"
    using wf_wallets_mono [OF wf(2), of "nt_node_count ?t" "set nodes"] assms(3-6) node set_nodes
    by (intro wf_wallets_snoc) (auto simp: wallet_complete_def)
  show ?thesis
    using wf top overlap nodes_ok wallets set_nodes unfolding r' by (intro wf_rolesI wf_role_topologyI) auto
qed

lemma AddWallet_keeps:
  assumes "AddWallet w r = Inr r'"
  shows "sr_masternodes r' = sr_masternodes r"
    "wi_address ` set (sr_wallets r') = insert (wi_address w) (wi_address ` set (sr_wallets r))"
  using assms by (auto simp: AddWallet_def Let_def split: if_splits)

lemma AddMinerNode_wf:
  assumes "wf_roles r" "AddMinerNode n r = Inr r'"
  shows "wf_roles r'" "sr_masternodes r' = sr_masternodes r"
proof -
  let ?t = "sr_topology r"
  let ?nodes = "sort (nt_miner_nodes ?t @ [n])"
  note wf = wf_rolesD [OF assms(1)]
  note top = wf_role_topologyD [OF wf(1)]
  have n: "n < unat (nt_node_count ?t)" "n \<notin> set (nt_miner_nodes ?t)"
    and overlap: "nt_allow_miner_wallet_overlap ?t \<or> n \<notin> set (nt_wallet_nodes ?t)"
    and r': "r' = r\<lparr>sr_topology := ?t\<lparr>nt_miner_nodes := ?nodes, nt_configured := True, nt_miner_node_count := to_u32 (length ?nodes)\<rparr>\<rparr>"
    using assms(2) unfolding AddMinerNode_def Let_def by (auto split: if_splits)
  show "wf_roles r'" using wf top overlap role_nodes_add [OF top(2) n] unfolding r'
    by (intro wf_rolesI wf_role_topologyI) auto
  show "sr_masternodes r' = sr_masternodes r" by (simp add: r')
qed

lemma masternode_complete_mono:
  "masternode_complete c N m \<Longrightarrow> unat c \<le> unat c' \<Longrightarrow> N \<subseteq> N' \<Longrightarrow> masternode_complete c' N' m"
  by (auto simp: masternode_complete_def)

lemma distinct_map_sort_key: "distinct (map f (sort_key k xs)) \<longleftrightarrow> distinct (map f xs)"
  by (rule mset_eq_imp_distinct_iff) simp

lemma AddMasternode_wf:
  assumes "wf_roles r" "AddMasternode m r = Inr r'"
  shows "wf_roles r'" "distinct (map mi_node (sr_masternodes r)) \<Longrightarrow> distinct (map mi_node (sr_masternodes r'))"
proof -
  let ?t = "sr_topology r" and ?n = "mi_node m - 1" and ?ms = "sr_masternodes r @ [m]"
  let ?nodes = "sort (nt_masternode_nodes ?t @ [?n])"
  note wf = wf_rolesD [OF assms(1)]
  note top = wf_role_topologyD [OF wf(1)]
  have m: "mi_node m \<noteq> 0" "mi_node m \<le> unat (nt_node_count ?t)" "[] \<notin> set (masternode_fields m)" "mi_state m = ''READY''"
    and fresh: "?n \<notin> set (nt_masternode_nodes ?t)"
      "mi_pro_tx_hash m \<notin> mi_pro_tx_hash ` set (sr_masternodes r)" "mi_service m \<notin> mi_service ` set (sr_masternodes r)"
    and r': "r' = r\<lparr>sr_topology := ?t\<lparr>nt_masternode_nodes := ?nodes, nt_configured := True,
        nt_masternode_node_count := to_u32 (length ?nodes)\<rparr>, sr_masternodes := sort_key mi_node ?ms\<rparr>"
    using assms(2) unfolding AddMasternode_def Let_def by (auto simp: list_ex_iff split: if_splits)
  have old: "masternode_complete (nt_node_count ?t) (set ?nodes) x" if "x \<in> set (sr_masternodes r)" for x
    using wf(3) that by (auto simp: wf_masternodes_def intro: masternode_complete_mono)
  have complete: "\<forall>x\<in>set ?ms. masternode_complete (nt_node_count ?t) (set ?nodes) x"
    using old m by (auto simp: masternode_complete_def)
  have "role_nodes_ok (nt_node_count ?t) (to_u32 (length ?nodes)) ?nodes"
    using role_nodes_add [OF top(3), of ?n] m fresh(1) by auto
  moreover have "wf_masternodes (nt_node_count ?t) ?nodes (sort_key mi_node ?ms)"
    using wf(3) fresh complete unfolding wf_masternodes_def distinct_map_sort_key set_sort length_sort by auto
  ultimately show "wf_roles r'" using wf top unfolding r' by (intro wf_rolesI wf_role_topologyI) auto
  have "mi_node x \<noteq> mi_node m" if "x \<in> set (sr_masternodes r)" for x
    using wf(3) that fresh(1) by (auto simp: wf_masternodes_def masternode_complete_def)
  then show "distinct (map mi_node (sr_masternodes r'))" if "distinct (map mi_node (sr_masternodes r))"
    using that unfolding r' by (simp add: distinct_map_sort_key image_iff del: map_append) (simp add: image_iff, metis)
qed

lemma SetRuntimeNodeCount_wf:
  assumes "wf_roles r" "SetRuntimeNodeCount c r = Inr r'"
  shows "wf_roles r'" "sr_masternodes r' = sr_masternodes r"
proof -
  have c: "unat (nt_node_count (sr_topology r)) \<le> unat c"
    and r': "r' = r\<lparr>sr_topology := (sr_topology r)\<lparr>nt_node_count := c\<rparr>\<rparr>"
    using assms(2) by (auto simp: SetRuntimeNodeCount_def word_less_nat_alt split: if_splits)
  note wf = wf_rolesD [OF assms(1)]
  note top = wf_role_topologyD [OF wf(1)]
  have grow: "role_nodes_ok c n nodes" if "role_nodes_ok (nt_node_count (sr_topology r)) n nodes" for n nodes
    using that c by (auto simp: role_nodes_ok_def)
  have "wf_masternodes c (nt_masternode_nodes (sr_topology r)) (sr_masternodes r)"
    using wf(3) c by (auto simp: wf_masternodes_def intro: masternode_complete_mono)
  then show "wf_roles r'" using wf top grow wf_wallets_mono [OF wf(2) c] unfolding r'
    by (intro wf_rolesI wf_role_topologyI) auto
  show "sr_masternodes r' = sr_masternodes r" by (simp add: r')
qed

lemma PrepareUpdate_Inr:
  assumes "PrepareUpdate expected wallets miners masternodes c registry = Inr prepared"
  obtains r1 A r2 N r3 S r4 where
    "gn_sequence (rw_generation registry) \<noteq> 0" "gn_sequence (rw_generation registry) = expected" "expected \<noteq> max_u64"
    "SetRuntimeNodeCount c (gn_registry (rw_generation registry)) = Inr r1"
    "fold_result (PublishWallet c) wallets
       (set (filter (\<lambda>address. address \<noteq> []) (map wi_address (sr_wallets r1))), r1) = Inr (A, r2)"
    "fold_result PublishMiner miners ({}, r2) = Inr (N, r3)"
    "fold_result (PublishMasternode c) masternodes
       ((set (map (\<lambda>present. pred_u32 (mi_node present)) (sr_masternodes r3)),
         set (map mi_pro_tx_hash (sr_masternodes r3)), set (map mi_service (sr_masternodes r3))), r3) = Inr (S, r4)"
    "prepared = Some \<lparr>gn_sequence = expected + 1, gn_registry = r4\<rparr>"
  using assms unfolding PrepareUpdate_def Let_def by (auto simp: bind_result_Inr split: if_splits)

text \<open>
  A contract on roles that each operation of an update keeps is kept by the whole update. It is instantiated with what
  the registry checks and with what the operations guarantee beyond that.
\<close>

locale role_contract =
  fixes valid :: "SimulationRegistry \<Rightarrow> bool"
  assumes valid_wf: "valid r \<Longrightarrow> wf_roles r"
    and valid_count: "valid r \<Longrightarrow> SetRuntimeNodeCount c r = Inr r' \<Longrightarrow> valid r'"
    and valid_wallet: "valid r \<Longrightarrow> AddWallet w r = Inr r' \<Longrightarrow> wi_node_id w \<noteq> [] \<Longrightarrow> wi_address w \<noteq> [] \<Longrightarrow>
      wi_funding_address w \<noteq> [] \<Longrightarrow> wi_address w \<notin> wi_address ` set (sr_wallets r) \<Longrightarrow> valid r'"
    and valid_miner: "valid r \<Longrightarrow> AddMinerNode n r = Inr r' \<Longrightarrow> valid r'"
    and valid_masternode: "valid r \<Longrightarrow> AddMasternode m r = Inr r' \<Longrightarrow> valid r'"
begin

lemma publish_wallets:
  assumes "fold_result (PublishWallet c) ws (A, r) = Inr (A', r')" "valid r" "A = wi_address ` set (sr_wallets r)"
  shows "valid r'"
  using assms
proof (induction ws arbitrary: A r)
  case (Cons w ws)
  then obtain B q where step: "PublishWallet c w (A, r) = Inr (B, q)" and rest: "fold_result (PublishWallet c) ws (B, q) = Inr (A', r')"
    by (auto simp: bind_result_Inr)
  have w: "AddWallet w r = Inr q" "wi_node_id w \<noteq> []" "wi_address w \<noteq> []" "wi_funding_address w \<noteq> []" "wi_address w \<notin> A"
    "B = insert (wi_address w) A"
    using step by (auto simp: PublishWallet_def bind_result_Inr split: if_splits)
  show ?case using Cons.IH [OF rest] valid_wallet [OF Cons.prems(2) w(1-4)] w(5,6) Cons.prems(3) AddWallet_keeps(2) [OF w(1)] by simp
qed simp

lemma publish_miners:
  assumes "fold_result PublishMiner ns (N, r) = Inr (N', r')" "valid r"
  shows "valid r'"
  using assms
proof (induction ns arbitrary: N r)
  case (Cons n ns)
  then obtain B q where step: "PublishMiner n (N, r) = Inr (B, q)" and rest: "fold_result PublishMiner ns (B, q) = Inr (N', r')"
    by (auto simp: bind_result_Inr)
  have "AddMinerNode n r = Inr q" using step by (auto simp: PublishMiner_def bind_result_Inr split: if_splits)
  then show ?case using Cons.IH [OF rest] valid_miner [OF Cons.prems(2)] by blast
qed simp

lemma publish_masternodes:
  assumes "fold_result (PublishMasternode c) ms (S, r) = Inr (S', r')" "valid r"
  shows "valid r'"
  using assms
proof (induction ms arbitrary: S r)
  case (Cons m ms)
  then obtain B q where step: "PublishMasternode c m (S, r) = Inr (B, q)"
    and rest: "fold_result (PublishMasternode c) ms (B, q) = Inr (S', r')"
    by (auto simp: bind_result_Inr)
  have "AddMasternode m r = Inr q"
    using step by (auto simp: PublishMasternode_def Let_def split_def bind_result_Inr split: if_splits)
  then show ?case using Cons.IH [OF rest] valid_masternode [OF Cons.prems(2)] by blast
qed simp

lemma update_valid:
  assumes "valid (gn_registry (rw_generation registry))"
    "PrepareUpdate expected wallets miners masternodes c registry = Inr prepared"
  shows "\<exists>roles. prepared = Some \<lparr>gn_sequence = gn_sequence (rw_generation registry) + 1, gn_registry = roles\<rparr> \<and> valid roles \<and>
    gn_sequence (rw_generation registry) \<noteq> max_u64"
proof (rule PrepareUpdate_Inr [OF assms(2)])
  fix r1 A r2 N r3 S r4
  assume u: "gn_sequence (rw_generation registry) = expected" "expected \<noteq> max_u64"
    "SetRuntimeNodeCount c (gn_registry (rw_generation registry)) = Inr r1"
    "fold_result (PublishWallet c) wallets
       (set (filter (\<lambda>address. address \<noteq> []) (map wi_address (sr_wallets r1))), r1) = Inr (A, r2)"
    "fold_result PublishMiner miners ({}, r2) = Inr (N, r3)"
    "fold_result (PublishMasternode c) masternodes
       ((set (map (\<lambda>present. pred_u32 (mi_node present)) (sr_masternodes r3)),
         set (map mi_pro_tx_hash (sr_masternodes r3)), set (map mi_service (sr_masternodes r3))), r3) = Inr (S, r4)"
    "prepared = Some \<lparr>gn_sequence = expected + 1, gn_registry = r4\<rparr>"
  have r1: "valid r1" using valid_count [OF assms(1) u(3)] .
  have "set (filter (\<lambda>address. address \<noteq> []) (map wi_address (sr_wallets r1))) = wi_address ` set (sr_wallets r1)"
    using wf_rolesD(2) [OF valid_wf [OF r1]] by (auto simp: wf_wallets_def wallet_complete_def)
  then have "valid r4" using publish_masternodes [OF u(6) publish_miners [OF u(5) publish_wallets [OF u(4) r1]]] by blast
  then show ?thesis using u by blast
qed

end

interpretation checked: role_contract wf_roles
  by unfold_locales (auto intro: SetRuntimeNodeCount_wf AddWallet_wf AddMinerNode_wf AddMasternode_wf)

interpretation sole: role_contract exact_roles
  unfolding exact_roles_def
  by unfold_locales (auto intro: SetRuntimeNodeCount_wf(1) AddWallet_wf AddMinerNode_wf(1) AddMasternode_wf
      simp: SetRuntimeNodeCount_wf(2) AddWallet_keeps(1) AddMinerNode_wf(2))

subsection \<open>Removing roles\<close>

text \<open>What the rest of the program sees of the roles: which node has which role, and where each wallet and each masternode lives.\<close>

record role_view =
  rv_wallet_nodes :: "nat set"
  rv_miner_nodes :: "nat set"
  rv_masternode_nodes :: "nat set"
  rv_wallets :: "(string \<times> nat) list"
  rv_masternodes :: "(string \<times> nat) list"

definition view_roles :: "SimulationRegistry \<Rightarrow> role_view" where
  "view_roles r = \<lparr>rv_wallet_nodes = set (nt_wallet_nodes (sr_topology r)), rv_miner_nodes = set (nt_miner_nodes (sr_topology r)),
     rv_masternode_nodes = set (nt_masternode_nodes (sr_topology r)),
     rv_wallets = map (\<lambda>w. (wi_address w, wi_node w - 1)) (sr_wallets r),
     rv_masternodes = map (\<lambda>m. (mi_pro_tx_hash m, mi_node m - 1)) (sr_masternodes r)\<rparr>"

datatype role_change =
    DropWallet nat
  | DropMiners "nat list"
  | DropMasternodes "nat list"
  | RemapNodes "nat option list" PeerTopologyConfig

definition change_role :: "'g rng \<Rightarrow> role_change \<Rightarrow> SimulationRegistry \<Rightarrow> SimulationRegistry result" where
  "change_role R change r = (case change of
       DropWallet node \<Rightarrow> RemoveWalletNode node r
     | DropMiners nodes \<Rightarrow> RemoveMinerNodes nodes r
     | DropMasternodes nodes \<Rightarrow> RemoveMasternodeNodes nodes r
     | RemapNodes old_to_new peer_topology \<Rightarrow> RemapRuntimeNodes R old_to_new peer_topology r)"

fun promised_view :: "role_change \<Rightarrow> role_view \<Rightarrow> role_view" where
  "promised_view (DropWallet node) v = v\<lparr>rv_wallet_nodes := rv_wallet_nodes v - {node},
     rv_wallets := filter (\<lambda>(_, home). home \<noteq> node) (rv_wallets v)\<rparr>"
| "promised_view (DropMiners nodes) v = v\<lparr>rv_miner_nodes := rv_miner_nodes v - set nodes\<rparr>"
| "promised_view (DropMasternodes nodes) v = v\<lparr>rv_masternode_nodes := rv_masternode_nodes v - set nodes,
     rv_masternodes := filter (\<lambda>(_, home). home \<notin> set nodes) (rv_masternodes v)\<rparr>"
| "promised_view (RemapNodes old_to_new _) v = (let move = (\<lambda>node. the (new_index old_to_new node)) in
     \<lparr>rv_wallet_nodes = move ` rv_wallet_nodes v, rv_miner_nodes = move ` rv_miner_nodes v,
       rv_masternode_nodes = move ` rv_masternode_nodes v,
       rv_wallets = map (\<lambda>(address, home). (address, move home)) (rv_wallets v),
       rv_masternodes = map (\<lambda>(hash, home). (hash, move home)) (rv_masternodes v)\<rparr>)"

lemma IndexWallets_simps:
  "length (IndexWallets ws) = length ws"
  "map wi_wallet_index (IndexWallets ws) = map (\<lambda>i. to_u32 (i + 1)) [0..<length ws]"
  "map wi_address (IndexWallets ws) = map wi_address ws"
  "map (\<lambda>w. (wi_address w, wi_node w - 1)) (IndexWallets ws) = map (\<lambda>w. (wi_address w, wi_node w - 1)) ws"
  by (auto simp: IndexWallets_def split_def intro!: nth_equalityI simp: nth_enumerate_eq)

lemma IndexWallets_complete:
  "(\<forall>w\<in>set (IndexWallets ws). wallet_complete c N w) \<longleftrightarrow> (\<forall>w\<in>set ws. wallet_complete c N w)"
  by (simp add: IndexWallets_def all_set_conv_all_nth nth_enumerate_eq wallet_complete_def)

lemma wf_wallets_filter:
  assumes "wf_wallets c N ws" "\<And>w. w \<in> set ws \<Longrightarrow> keep w \<Longrightarrow> wi_node w - 1 \<in> N'"
  shows "wf_wallets c N' (IndexWallets (filter keep ws))"
  using assms distinct_map_filter [of wi_address ws keep]
  unfolding wf_wallets_def IndexWallets_simps IndexWallets_complete by (auto simp: wallet_complete_def)

lemma RemoveWalletNode_exact:
  assumes "exact_roles r" "RemoveWalletNode node r = Inr r'"
  shows "exact_roles r' \<and> view_roles r' = promised_view (DropWallet node) (view_roles r)"
proof -
  let ?t = "sr_topology r" and ?keep = "\<lambda>w. \<not> (wi_node w \<noteq> 0 \<and> wi_node w - 1 = node)"
  let ?nodes = "remove1 node (nt_wallet_nodes ?t)"
  note ex = exact_rolesD [OF assms(1)]
  note top = wf_role_topologyD [OF ex(1)]
  have r': "r' = r\<lparr>sr_topology := ?t\<lparr>nt_wallet_nodes := ?nodes, nt_wallet_node_count := to_u32 (length ?nodes)\<rparr>,
      sr_wallets := IndexWallets (filter ?keep (sr_wallets r))\<rparr>"
    using assms(2) unfolding RemoveWalletNode_def Let_def by (simp split: if_splits)
  have nodes: "distinct (nt_wallet_nodes ?t)" using top(1) by (simp add: role_nodes_ok_def)
  have set_nodes: "set ?nodes = set (nt_wallet_nodes ?t) - {node}" using nodes by (simp add: set_remove1_eq)
  have complete: "wi_node w \<noteq> 0" "wi_node w - 1 \<in> set (nt_wallet_nodes ?t)" if "w \<in> set (sr_wallets r)" for w
    using ex(2) that by (auto simp: wf_wallets_def wallet_complete_def)
  have "role_nodes_ok (nt_node_count ?t) (to_u32 (length ?nodes)) ?nodes"
    using top(1) set_nodes by (intro role_nodes_okI) (auto simp: role_nodes_ok_def)
  moreover have "wf_wallets (nt_node_count ?t) (set ?nodes) (IndexWallets (filter ?keep (sr_wallets r)))"
    using complete unfolding set_nodes by (intro wf_wallets_filter [OF ex(2)]) auto
  ultimately have "exact_roles r'" using ex top set_nodes unfolding r'
    by (intro exact_rolesI wf_role_topologyI) auto
  moreover have "filter ?keep (sr_wallets r) = filter (\<lambda>w. wi_node w - 1 \<noteq> node) (sr_wallets r)"
    using complete by (intro filter_cong) auto
  ultimately show ?thesis
    by (simp add: r' view_roles_def IndexWallets_simps(4) [unfolded One_nat_def] set_nodes [unfolded One_nat_def] filter_map o_def)
qed

lemma role_nodes_filter:
  "role_nodes_ok c n nodes \<Longrightarrow> role_nodes_ok c (to_u32 (length (filter P nodes))) (filter P nodes)"
  by (rule role_nodes_okI) (auto simp: role_nodes_ok_def)

lemma RemoveMinerNodes_exact:
  assumes "exact_roles r" "RemoveMinerNodes nodes r = Inr r'"
  shows "exact_roles r' \<and> view_roles r' = promised_view (DropMiners nodes) (view_roles r)"
proof -
  let ?t = "sr_topology r" and ?P = "\<lambda>node. node \<notin> set nodes"
  let ?nodes = "filter ?P (nt_miner_nodes ?t)"
  note ex = exact_rolesD [OF assms(1)]
  note top = wf_role_topologyD [OF ex(1)]
  have r': "r' = r\<lparr>sr_topology := ?t\<lparr>nt_miner_nodes := ?nodes, nt_miner_node_count := to_u32 (length ?nodes)\<rparr>\<rparr>"
    using assms(2) unfolding RemoveMinerNodes_def Let_def by (simp split: if_splits)
  have "exact_roles r'" using ex top role_nodes_filter [OF top(2), of ?P] unfolding r'
    by (intro exact_rolesI wf_role_topologyI) auto
  then show ?thesis by (auto simp: r' view_roles_def)
qed

text \<open>In exact roles every masternode node has one identity.\<close>

lemma masternode_homes:
  assumes "exact_roles r"
  shows "distinct (map (\<lambda>m. mi_node m - 1) (sr_masternodes r))"
    "set (map (\<lambda>m. mi_node m - 1) (sr_masternodes r)) = set (nt_masternode_nodes (sr_topology r))"
proof -
  let ?ms = "sr_masternodes r" and ?nodes = "nt_masternode_nodes (sr_topology r)"
  note ex = exact_rolesD [OF assms]
  have complete: "mi_node m \<noteq> 0" "mi_node m - 1 \<in> set ?nodes" if "m \<in> set ?ms" for m
    using ex(3) that by (auto simp: wf_masternodes_def masternode_complete_def)
  have "inj_on (\<lambda>node. node - (1 :: nat)) (mi_node ` set ?ms)"
    using complete(1) by (auto simp: inj_on_def) (metis Suc_pred neq0_conv)
  then have "distinct (map (\<lambda>node. node - 1) (map mi_node ?ms))" using ex(4) by (subst distinct_map) simp
  then show homes: "distinct (map (\<lambda>m. mi_node m - 1) ?ms)" by (simp add: o_def)
  have "distinct ?nodes" using wf_role_topologyD(3) [OF ex(1)] by (simp add: role_nodes_ok_def)
  then have "card (set ?nodes) = card (set (map (\<lambda>m. mi_node m - 1) ?ms))"
    using ex(3) distinct_card [OF homes] by (simp add: wf_masternodes_def distinct_card)
  moreover have "set (map (\<lambda>m. mi_node m - 1) ?ms) \<subseteq> set ?nodes" using complete(2) by auto
  ultimately show "set (map (\<lambda>m. mi_node m - 1) ?ms) = set ?nodes" by (intro card_subset_eq) auto
qed

lemma masternode_homes_filter:
  assumes "exact_roles r"
  shows "length (filter (\<lambda>m. P (mi_node m - 1)) (sr_masternodes r)) = length (filter P (nt_masternode_nodes (sr_topology r)))"
proof -
  let ?homes = "map (\<lambda>m. mi_node m - 1) (sr_masternodes r)" and ?nodes = "nt_masternode_nodes (sr_topology r)"
  have nodes: "distinct ?nodes" using wf_role_topologyD(3) [OF exact_rolesD(1) [OF assms]] by (simp add: role_nodes_ok_def)
  have "length (filter (\<lambda>m. P (mi_node m - 1)) (sr_masternodes r)) = length (filter P ?homes)"
    by (simp add: filter_map o_def)
  also have "\<dots> = card (set (filter P ?homes))" using masternode_homes(1) [OF assms] by (metis distinct_card distinct_filter)
  also have "set (filter P ?homes) = set (filter P ?nodes)" using masternode_homes(2) [OF assms] by (metis set_filter)
  also have "card \<dots> = length (filter P ?nodes)" using nodes by (metis distinct_card distinct_filter)
  finally show ?thesis .
qed

lemma RemoveMasternodeNodes_exact:
  assumes "exact_roles r" "RemoveMasternodeNodes nodes r = Inr r'"
  shows "exact_roles r' \<and> view_roles r' = promised_view (DropMasternodes nodes) (view_roles r)"
proof -
  let ?t = "sr_topology r" and ?P = "\<lambda>node. node \<notin> set nodes"
  let ?nodes = "filter ?P (nt_masternode_nodes ?t)"
  define ms where "ms = filter (\<lambda>m. ?P (mi_node m - 1)) (sr_masternodes r)"
  note ex = exact_rolesD [OF assms(1)]
  note top = wf_role_topologyD [OF ex(1)]
  have complete: "masternode_complete (nt_node_count ?t) (set (nt_masternode_nodes ?t)) m" if "m \<in> set (sr_masternodes r)" for m
    using ex(3) that by (simp add: wf_masternodes_def)
  have "filter (\<lambda>m. \<not> (mi_node m \<noteq> 0 \<and> mi_node m - 1 \<in> set nodes)) (sr_masternodes r) = ms"
    unfolding ms_def using complete by (intro filter_cong) (auto simp: masternode_complete_def)
  then have r': "r' = r\<lparr>sr_topology := ?t\<lparr>nt_masternode_nodes := ?nodes, nt_masternode_node_count := to_u32 (length ?nodes)\<rparr>,
      sr_masternodes := ms\<rparr>"
    using assms(2) unfolding RemoveMasternodeNodes_def Let_def by (simp split: if_splits)
  have "length ms = length ?nodes" unfolding ms_def by (rule masternode_homes_filter [OF assms(1)])
  then have "wf_masternodes (nt_node_count ?t) ?nodes ms"
    using ex(3) complete by (auto simp: wf_masternodes_def ms_def distinct_map_filter masternode_complete_def)
  moreover have "distinct (map mi_node ms)" using ex(4) by (simp add: ms_def distinct_map_filter)
  ultimately have "exact_roles r'" using ex top role_nodes_filter [OF top(3), of ?P] unfolding r'
    by (intro exact_rolesI wf_role_topologyI) auto
  then show ?thesis by (auto simp: r' view_roles_def ms_def filter_map o_def)
qed

subsection \<open>Moving roles to new indexes\<close>

lemma CheckRoleMapped_Inr: "CheckRoleMapped n m s = Inr s' \<longleftrightarrow> CheckMapped n m s = Inr s'"
  by (auto simp: CheckRoleMapped_def CheckMapped_def split: option.splits if_splits)

lemma CheckRoleMapped_loop: "fold_result (CheckRoleMapped n) ms s = Inr s' \<longleftrightarrow> fold_result (CheckMapped n) ms s = Inr s'"
  by (induction ms arbitrary: s) (simp_all add: bind_result_Inr CheckRoleMapped_Inr del: bind_result.simps)

lemma RoleNodeCount_Inr: "RoleNodeCount old_to_new = Inr k \<longleftrightarrow> RemappedNodeCount old_to_new = Inr k"
  unfolding RoleNodeCount_def RemappedNodeCount_def bind_result_Inr CheckRoleMapped_loop by (auto split: if_splits)

text \<open>A loop that moves each element, or throws if one cannot move.\<close>

lemma fold_result_map:
  assumes "\<And>x acc out. f x acc = Inr out \<longleftrightarrow> (\<exists>y. g x = Some y \<and> out = acc @ [y])"
  shows "fold_result f xs [] = Inr out \<longleftrightarrow> map Some out = map g xs"
proof -
  have "fold_result f xs acc = Inr out \<longleftrightarrow> (\<exists>ys. out = acc @ ys \<and> map Some ys = map g xs)" for acc
  proof (induction xs arbitrary: acc)
    case (Cons x xs)
    show ?case
    proof (cases "g x")
      case None
      then show ?thesis by (auto simp: bind_result_Inr assms map_eq_Cons_conv)
    next
      case (Some y)
      have "map Some ys = Some y # map g xs \<longleftrightarrow> (\<exists>zs. ys = y # zs \<and> map Some zs = map g xs)" for ys
        by (cases ys) auto
      then show ?thesis using Some by (auto simp: bind_result_Inr assms Cons.IH)
    qed
  qed auto
  from this [of "[]"] show ?thesis by simp
qed

lemma RemapRoleNode_Inr:
  "RemapRoleNode old_to_new role node acc = Inr out \<longleftrightarrow> (\<exists>j. new_index old_to_new node = Some j \<and> out = acc @ [j])"
  by (auto simp: RemapRoleNode_def new_index_def split: option.splits)

lemma RemapRoleNodes_Inr:
  "RemapRoleNodes old_to_new role nodes = Inr out \<longleftrightarrow> map Some out = map (new_index old_to_new) nodes"
  unfolding RemapRoleNodes_def by (rule fold_result_map) (simp add: RemapRoleNode_Inr)

lemma RemapBackingNode_Inr:
  "RemapBackingNode old_to_new kind node = Inr n \<longleftrightarrow>
     node \<noteq> 0 \<and> (\<exists>j. new_index old_to_new (node - 1) = Some j \<and> n = to_u32 (j + 1))"
  by (auto simp: RemapBackingNode_def new_index_def split: option.splits)

lemma map_Some_eq: "map Some ys = map g xs \<longleftrightarrow> ys = map (\<lambda>x. the (g x)) xs \<and> (\<forall>x\<in>set xs. g x \<noteq> None)"
proof (induction xs arbitrary: ys)
  case (Cons x xs)
  then show ?case by (cases ys; cases "g x") auto
qed simp

abbreviation moved :: "nat option list \<Rightarrow> nat \<Rightarrow> nat" where
  "moved old_to_new node \<equiv> the (new_index old_to_new node)"

lemma RemapWallets_Inr:
  assumes "fold_result (RemapWallet old_to_new) wallets [] = Inr out"
  shows "out = map (\<lambda>w. w\<lparr>wi_node := to_u32 (moved old_to_new (wi_node w - 1) + 1)\<rparr>) wallets"
    "\<And>w. w \<in> set wallets \<Longrightarrow> new_index old_to_new (wi_node w - 1) \<noteq> None"
proof -
  let ?g = "\<lambda>w. if wi_node w = 0 then None
    else map_option (\<lambda>j. w\<lparr>wi_node := to_u32 (j + 1)\<rparr>) (new_index old_to_new (wi_node w - 1))"
  have "RemapWallet old_to_new w acc = Inr out \<longleftrightarrow> (\<exists>y. ?g w = Some y \<and> out = acc @ [y])" for w acc out
    by (auto simp: RemapWallet_def bind_result_Inr RemapBackingNode_Inr)
  then have "map Some out = map ?g wallets" using assms by (subst (asm) fold_result_map) auto
  then have o: "out = map (\<lambda>w. the (?g w)) wallets" "\<And>w. w \<in> set wallets \<Longrightarrow> ?g w \<noteq> None"
    unfolding map_Some_eq by blast+
  then show "new_index old_to_new (wi_node w - 1) \<noteq> None" if "w \<in> set wallets" for w
    using o(2) [OF that] by (auto split: if_splits)
  show "out = map (\<lambda>w. w\<lparr>wi_node := to_u32 (moved old_to_new (wi_node w - 1) + 1)\<rparr>) wallets"
    unfolding o(1) using o(2) by (intro map_cong) (force split: if_splits)+
qed

lemma RemapMasternodes_Inr:
  assumes "fold_result (RemapMasternode old_to_new) masternodes [] = Inr out"
  shows "out = map (\<lambda>m. m\<lparr>mi_node := to_u32 (moved old_to_new (mi_node m - 1) + 1)\<rparr>) masternodes"
    "\<And>m. m \<in> set masternodes \<Longrightarrow> new_index old_to_new (mi_node m - 1) \<noteq> None"
proof -
  let ?g = "\<lambda>m. if mi_node m = 0 then None
    else map_option (\<lambda>j. m\<lparr>mi_node := to_u32 (j + 1)\<rparr>) (new_index old_to_new (mi_node m - 1))"
  have "RemapMasternode old_to_new m acc = Inr out \<longleftrightarrow> (\<exists>y. ?g m = Some y \<and> out = acc @ [y])" for m acc out
    by (auto simp: RemapMasternode_def bind_result_Inr RemapBackingNode_Inr)
  then have "map Some out = map ?g masternodes" using assms by (subst (asm) fold_result_map) auto
  then have o: "out = map (\<lambda>m. the (?g m)) masternodes" "\<And>m. m \<in> set masternodes \<Longrightarrow> ?g m \<noteq> None"
    unfolding map_Some_eq by blast+
  then show "new_index old_to_new (mi_node m - 1) \<noteq> None" if "m \<in> set masternodes" for m
    using o(2) [OF that] by (auto split: if_splits)
  show "out = map (\<lambda>m. m\<lparr>mi_node := to_u32 (moved old_to_new (mi_node m - 1) + 1)\<rparr>) masternodes"
    unfolding o(1) using o(2) by (intro map_cong) (force split: if_splits)+
qed

lemma RemapRuntimeNodes_Inr:
  assumes "RemapRuntimeNodes R old_to_new peer_topology r = Inr r'"
  obtains k wallet_nodes miner_nodes masternode_nodes policies wallets masternodes where
    "length old_to_new = unat (nt_node_count (sr_topology r))" "RemappedNodeCount old_to_new = Inr k"
    "map Some wallet_nodes = map (new_index old_to_new) (nt_wallet_nodes (sr_topology r))"
    "map Some miner_nodes = map (new_index old_to_new) (nt_miner_nodes (sr_topology r))"
    "map Some masternode_nodes = map (new_index old_to_new) (nt_masternode_nodes (sr_topology r))"
    "fold_result (RemapWallet old_to_new) (sr_wallets r) [] = Inr wallets"
    "fold_result (RemapMasternode old_to_new) (sr_masternodes r) [] = Inr masternodes"
    "r' = r\<lparr>sr_topology := (sr_topology r)\<lparr>nt_node_count := word_of_nat k, nt_wallet_nodes := wallet_nodes,
        nt_miner_nodes := miner_nodes, nt_masternode_nodes := masternode_nodes,
        nt_wallet_node_count := to_u32 (length wallet_nodes), nt_miner_node_count := to_u32 (length miner_nodes),
        nt_masternode_node_count := to_u32 (length masternode_nodes),
        nt_peer_topology := peer_topology, nt_peer_connectivity := policies\<rparr>,
      sr_wallets := wallets, sr_masternodes := masternodes\<rparr>"
  using assms unfolding RemapRuntimeNodes_def Let_def
  by (auto simp: bind_result_Inr RemapRoleNodes_Inr RoleNodeCount_Inr split: if_splits)

lemma moved_nodes:
  assumes "RemappedNodeCount old_to_new = Inr k" "map Some xs = map (new_index old_to_new) nodes"
  shows "set xs = moved old_to_new ` set nodes" "distinct nodes \<Longrightarrow> distinct xs" "x \<in> set xs \<Longrightarrow> x < k"
    "length xs = length nodes"
proof -
  have xs: "xs = map (moved old_to_new) nodes" "\<And>n. n \<in> set nodes \<Longrightarrow> new_index old_to_new n = Some (moved old_to_new n)"
    using assms(2) unfolding map_Some_eq by auto
  show "set xs = moved old_to_new ` set nodes" "length xs = length nodes" by (simp_all add: xs(1))
  have "inj_on (moved old_to_new) (set nodes)"
  proof (rule inj_onI)
    fix a b assume "a \<in> set nodes" "b \<in> set nodes" "moved old_to_new a = moved old_to_new b"
    then show "a = b" using new_index_inj [OF assms(1) xs(2)] xs(2) by metis
  qed
  then show "distinct nodes \<Longrightarrow> distinct xs" by (simp add: xs(1) distinct_map)
  show "x \<in> set xs \<Longrightarrow> x < k" using new_index_less [OF assms(1)] xs(2) by (auto simp: xs(1))
qed

text \<open>A mapped node is a new node, and distinct nodes stay distinct.\<close>

lemma moved_role_nodes:
  assumes "RemappedNodeCount old_to_new = Inr k" "map Some xs = map (new_index old_to_new) nodes"
    "role_nodes_ok c n nodes" "unat c' = k"
  shows "role_nodes_ok c' (to_u32 (length xs)) xs"
  using moved_nodes [OF assms(1,2)] assms(3,4) by (intro role_nodes_okI) (auto simp: role_nodes_ok_def)

lemma moved_disjoint:
  assumes "RemappedNodeCount old_to_new = Inr k" "\<And>n. n \<in> A \<union> B \<Longrightarrow> new_index old_to_new n \<noteq> None" "A \<inter> B = {}"
  shows "moved old_to_new ` A \<inter> moved old_to_new ` B = {}"
proof -
  have some: "new_index old_to_new n = Some (moved old_to_new n)" if "n \<in> A \<union> B" for n using assms(2) [OF that] by auto
  have "a = b" if ab: "a \<in> A" "b \<in> B" "moved old_to_new a = moved old_to_new b" for a b
    using new_index_inj [OF assms(1) some [of a] ] some [of b] ab by auto
  then show ?thesis using assms(3) by blast
qed

lemma RemapRuntimeNodes_shape:
  assumes "RemapRuntimeNodes R old_to_new peer_topology r = Inr r'"
  obtains k c wallet_nodes miner_nodes masternode_nodes policies where
    "RemappedNodeCount old_to_new = Inr k" "unat c = k"
    "map Some wallet_nodes = map (new_index old_to_new) (nt_wallet_nodes (sr_topology r))"
    "map Some miner_nodes = map (new_index old_to_new) (nt_miner_nodes (sr_topology r))"
    "map Some masternode_nodes = map (new_index old_to_new) (nt_masternode_nodes (sr_topology r))"
    "r' = r\<lparr>sr_topology := (sr_topology r)\<lparr>nt_node_count := c, nt_wallet_nodes := wallet_nodes,
        nt_miner_nodes := miner_nodes, nt_masternode_nodes := masternode_nodes,
        nt_wallet_node_count := to_u32 (length wallet_nodes), nt_miner_node_count := to_u32 (length miner_nodes),
        nt_masternode_node_count := to_u32 (length masternode_nodes),
        nt_peer_topology := peer_topology, nt_peer_connectivity := policies\<rparr>,
      sr_wallets := map (\<lambda>w. w\<lparr>wi_node := Suc (moved old_to_new (wi_node w - 1))\<rparr>) (sr_wallets r),
      sr_masternodes := map (\<lambda>m. m\<lparr>mi_node := Suc (moved old_to_new (mi_node m - 1))\<rparr>) (sr_masternodes r)\<rparr>"
proof (rule RemapRuntimeNodes_Inr [OF assms])
  fix k wn mn an policies wallets masternodes
  assume size: "length old_to_new = unat (nt_node_count (sr_topology r))" and count_k: "RemappedNodeCount old_to_new = Inr k"
    and nodes: "map Some wn = map (new_index old_to_new) (nt_wallet_nodes (sr_topology r))"
      "map Some mn = map (new_index old_to_new) (nt_miner_nodes (sr_topology r))"
      "map Some an = map (new_index old_to_new) (nt_masternode_nodes (sr_topology r))"
    and ids: "fold_result (RemapWallet old_to_new) (sr_wallets r) [] = Inr wallets"
      "fold_result (RemapMasternode old_to_new) (sr_masternodes r) [] = Inr masternodes"
    and r': "r' = r\<lparr>sr_topology := (sr_topology r)\<lparr>nt_node_count := word_of_nat k, nt_wallet_nodes := wn,
        nt_miner_nodes := mn, nt_masternode_nodes := an,
        nt_wallet_node_count := to_u32 (length wn), nt_miner_node_count := to_u32 (length mn),
        nt_masternode_node_count := to_u32 (length an), nt_peer_topology := peer_topology, nt_peer_connectivity := policies\<rparr>,
      sr_wallets := wallets, sr_masternodes := masternodes\<rparr>"
  have "k = length (mapped_nodes old_to_new)" using count_k distinct_card unfolding RemappedNodeCount_iff by fastforce
  then have k: "k < 4294967296" using mapped_nodes_length [of old_to_new] size u32_lt [of "nt_node_count (sr_topology r)"] by linarith
  then have c: "unat (word_of_nat k :: u32) = k" by (simp add: unat_of_nat)
  have index: "to_u32 (moved old_to_new n + 1) = Suc (moved old_to_new n)" if "new_index old_to_new n \<noteq> None" for n
    using new_index_less [OF count_k, of n] that k by auto
  have "wallets = map (\<lambda>w. w\<lparr>wi_node := Suc (moved old_to_new (wi_node w - 1))\<rparr>) (sr_wallets r)"
    unfolding RemapWallets_Inr(1) [OF ids(1)] using index RemapWallets_Inr(2) [OF ids(1)] by (intro map_cong) auto
  moreover have "masternodes = map (\<lambda>m. m\<lparr>mi_node := Suc (moved old_to_new (mi_node m - 1))\<rparr>) (sr_masternodes r)"
    unfolding RemapMasternodes_Inr(1) [OF ids(2)] using index RemapMasternodes_Inr(2) [OF ids(2)] by (intro map_cong) auto
  ultimately show thesis using that [OF count_k c nodes] r' by simp
qed

lemma wf_wallets_moved:
  assumes "wf_wallets c N ws" "\<And>n. n \<in> N \<Longrightarrow> f n \<in> N'" "\<And>n. n \<in> N' \<Longrightarrow> n < unat c'"
  shows "wf_wallets c' N' (map (\<lambda>w. w\<lparr>wi_node := Suc (f (wi_node w - 1))\<rparr>) ws)"
  using assms by (auto simp: wf_wallets_def wallet_complete_def o_def Suc_le_eq)

lemma wf_masternodes_moved:
  assumes "wf_masternodes c nodes ms" "\<And>n. n \<in> set nodes \<Longrightarrow> f n \<in> set nodes'" "\<And>n. n \<in> set nodes' \<Longrightarrow> n < unat c'"
    "length nodes' = length nodes"
  shows "wf_masternodes c' nodes' (map (\<lambda>m. m\<lparr>mi_node := Suc (f (mi_node m - 1))\<rparr>) ms)"
  using assms by (auto simp: wf_masternodes_def masternode_complete_def masternode_fields_def o_def Suc_le_eq)

lemma RemapRuntimeNodes_exact:
  assumes "exact_roles r" "RemapRuntimeNodes R old_to_new peer_topology r = Inr r'"
  shows "exact_roles r' \<and> view_roles r' = promised_view (RemapNodes old_to_new peer_topology) (view_roles r)"
proof (rule RemapRuntimeNodes_shape [OF assms(2)])
  let ?t = "sr_topology r" and ?homes = "map (\<lambda>m. mi_node m - 1) (sr_masternodes r)"
  fix k c wn mn an policies
  assume p: "RemappedNodeCount old_to_new = Inr k" "unat c = k"
    and wn: "map Some wn = map (new_index old_to_new) (nt_wallet_nodes ?t)"
    and mn: "map Some mn = map (new_index old_to_new) (nt_miner_nodes ?t)"
    and an: "map Some an = map (new_index old_to_new) (nt_masternode_nodes ?t)"
    and r': "r' = r\<lparr>sr_topology := ?t\<lparr>nt_node_count := c, nt_wallet_nodes := wn,
        nt_miner_nodes := mn, nt_masternode_nodes := an,
        nt_wallet_node_count := to_u32 (length wn), nt_miner_node_count := to_u32 (length mn),
        nt_masternode_node_count := to_u32 (length an), nt_peer_topology := peer_topology, nt_peer_connectivity := policies\<rparr>,
      sr_wallets := map (\<lambda>w. w\<lparr>wi_node := Suc (moved old_to_new (wi_node w - 1))\<rparr>) (sr_wallets r),
      sr_masternodes := map (\<lambda>m. m\<lparr>mi_node := Suc (moved old_to_new (mi_node m - 1))\<rparr>) (sr_masternodes r)\<rparr>"
  note ex = exact_rolesD [OF assms(1)]
  note top = wf_role_topologyD [OF ex(1)]
  have sets: "set wn = moved old_to_new ` set (nt_wallet_nodes ?t)" "set mn = moved old_to_new ` set (nt_miner_nodes ?t)"
    "set an = moved old_to_new ` set (nt_masternode_nodes ?t)"
    using moved_nodes(1) [OF p(1)] wn mn an by blast+
  have disjoint: "nt_allow_miner_wallet_overlap ?t \<or> set mn \<inter> set wn = {}"
    using top(4) moved_disjoint [OF p(1), of "set (nt_miner_nodes ?t)" "set (nt_wallet_nodes ?t)"] wn mn
    unfolding sets map_Some_eq by blast
  have "map Some (map (moved old_to_new) ?homes) = map (new_index old_to_new) ?homes"
    using an masternode_homes(2) [OF assms(1)] unfolding map_Some_eq by auto
  from moved_nodes(2) [OF p(1) this masternode_homes(1) [OF assms(1)]]
  have homes: "distinct (map (\<lambda>m. moved old_to_new (mi_node m - 1)) (sr_masternodes r))" by (simp add: o_def)
  then have suc: "distinct (map (\<lambda>m. Suc (moved old_to_new (mi_node m - 1))) (sr_masternodes r))"
    by (simp add: distinct_map inj_on_def)
  have "wf_role_topology (sr_topology r')"
    using moved_role_nodes [OF p(1) wn top(1) p(2)] moved_role_nodes [OF p(1) mn top(2) p(2)]
      moved_role_nodes [OF p(1) an top(3) p(2)] disjoint unfolding r' by (intro wf_role_topologyI) simp_all
  moreover have "wf_wallets c (set wn) (sr_wallets r')"
    using wf_wallets_moved [OF ex(2), of "moved old_to_new" "set wn" c] moved_nodes(3) [OF p(1) wn] p(2) sets(1) r' by simp
  moreover have "wf_masternodes c an (sr_masternodes r')"
    using wf_masternodes_moved [OF ex(3), of "moved old_to_new" an c] moved_nodes(3,4) [OF p(1) an] p(2) sets(3) r' by simp
  ultimately have "exact_roles r'" using suc by (intro exact_rolesI) (simp_all add: r' o_def)
  then show ?thesis by (simp add: r' view_roles_def Let_def sets [unfolded One_nat_def] o_def)
qed

lemma change_role_exact:
  assumes "exact_roles r" "change_role R change r = Inr r'"
  shows "exact_roles r' \<and> view_roles r' = promised_view change (view_roles r)"
proof (cases change)
  case (DropWallet node)
  with assms RemoveWalletNode_exact show ?thesis by (simp add: change_role_def)
next
  case (DropMiners nodes)
  with assms RemoveMinerNodes_exact show ?thesis by (simp add: change_role_def)
next
  case (DropMasternodes nodes)
  with assms RemoveMasternodeNodes_exact show ?thesis by (simp add: change_role_def)
next
  case (RemapNodes old_to_new peer_topology)
  with assms RemapRuntimeNodes_exact show ?thesis by (simp add: change_role_def)
qed

text \<open>A client may make several changes before it publishes them together.\<close>

definition change_roles :: "'g rng \<Rightarrow> role_change list \<Rightarrow> SimulationRegistry \<Rightarrow> SimulationRegistry result" where
  "change_roles R changes r = fold_result (change_role R) changes r"

lemma change_roles_exact:
  "exact_roles r \<Longrightarrow> change_roles R changes r = Inr r' \<Longrightarrow>
     exact_roles r' \<and> view_roles r' = fold promised_view changes (view_roles r)"
  unfolding change_roles_def
proof (induction changes arbitrary: r)
  case (Cons change changes)
  then obtain q where q: "change_role R change r = Inr q" "fold_result (change_role R) changes q = Inr r'"
    by (auto simp: bind_result_Inr)
  show ?case using Cons.IH [OF _ q(2)] change_role_exact [OF Cons.prems(1) q(1)] by simp
qed simp

subsection \<open>The registry and its clients\<close>

text \<open>
  Any thread may update the roles, or offer any roles as a replacement at any generation. The clients of the program hold
  snapshots, compute changed roles from them and offer these at the generation of the snapshot. A prepared publication holds
  the lock until it is committed or dropped. The state is the registry with the snapshots handed out so far.
\<close>

record role_clients =
  rc_registry :: RuntimeWalletRegistry
  rc_snapshots :: "Generation list"

datatype registry_op =
    InitializeRoles SimulationRegistry
  | SetTarget string bool "unit result"
  | TakeSnapshot
  | UpdateRoles u64 "WalletIdentity list" "nat list" "MasternodeIdentity list" u32 bool
  | ReplaceWith u64 SimulationRegistry bool
  | ReplaceRoles nat "role_change list" bool

definition publish :: "PreparedAppend result \<Rightarrow> bool \<Rightarrow> role_clients \<Rightarrow> role_clients \<times> unit result" where
  "publish prepared commit s = (case prepared of
       Inl e \<Rightarrow> (s, Inl e)
     | Inr p \<Rightarrow>
         if \<not> commit then (s, Inr ())
         else case CommitGeneration p (rc_registry s) of
             Inl e \<Rightarrow> (s, Inl e)
           | Inr (snapshot, _, registry) \<Rightarrow> (\<lparr>rc_registry = registry, rc_snapshots = rc_snapshots s @ [snapshot]\<rparr>, Inr ()))"

definition registry_exec :: "'g rng \<Rightarrow> role_clients \<Rightarrow> registry_op \<Rightarrow> role_clients \<times> unit result" where
  "registry_exec R s x = (case x of
       InitializeRoles roles \<Rightarrow>
         (case Initialize roles (rc_registry s) of Inl e \<Rightarrow> (s, Inl e) | Inr registry \<Rightarrow> (s\<lparr>rc_registry := registry\<rparr>, Inr ()))
     | SetTarget address enabled before_commit \<Rightarrow>
         (case SetTargetAddress address enabled before_commit (rc_registry s) of
            Inl e \<Rightarrow> (s, Inl e) | Inr registry \<Rightarrow> (s\<lparr>rc_registry := registry\<rparr>, Inr ()))
     | TakeSnapshot \<Rightarrow>
         (case RegistrySnapshot (rc_registry s) of
            Inl e \<Rightarrow> (s, Inl e) | Inr snapshot \<Rightarrow> (s\<lparr>rc_snapshots := rc_snapshots s @ [snapshot]\<rparr>, Inr ()))
     | UpdateRoles expected wallets miners masternodes runtime_node_count commit \<Rightarrow>
         publish (PrepareUpdate expected wallets miners masternodes runtime_node_count (rc_registry s)) commit s
     | ReplaceWith expected roles commit \<Rightarrow> publish (PrepareReplace expected roles (rc_registry s)) commit s
     | ReplaceRoles i changes commit \<Rightarrow>
         (if i < length (rc_snapshots s)
          then publish (bind_result (change_roles R changes (gn_registry (rc_snapshots s ! i)))
                 (\<lambda>roles. PrepareReplace (gn_sequence (rc_snapshots s ! i)) roles (rc_registry s))) commit s
          else (s, Inr ())))"

abbreviation current :: "role_clients \<Rightarrow> Generation" where
  "current s \<equiv> rw_generation (rc_registry s)"

abbreviation target_ok :: "string \<Rightarrow> bool" where
  "target_ok address \<equiv> ok (ValidateTargetAddressText address)"

definition registry_inv :: "role_clients \<Rightarrow> bool" where
  "registry_inv s \<longleftrightarrow> gn_sequence (current s) \<noteq> 0 \<and> wf_roles (gn_registry (current s)) \<and>
     (\<forall>g\<in>set (rc_snapshots s). g = current s \<or> unat (gn_sequence g) < unat (gn_sequence (current s))) \<and>
     distinct (rw_target_addresses (rc_registry s)) \<and> (\<forall>a\<in>set (rw_target_addresses (rc_registry s)). target_ok a)"

lemma registry_invI:
  assumes "gn_sequence (current s) \<noteq> 0" "wf_roles (gn_registry (current s))"
    "\<And>g. g \<in> set (rc_snapshots s) \<Longrightarrow> g = current s \<or> unat (gn_sequence g) < unat (gn_sequence (current s))"
    "distinct (rw_target_addresses (rc_registry s))" "\<And>a. a \<in> set (rw_target_addresses (rc_registry s)) \<Longrightarrow> target_ok a"
  shows "registry_inv s"
  using assms by (simp add: registry_inv_def)

lemma registry_invD:
  assumes "registry_inv s"
  shows "gn_sequence (current s) \<noteq> 0" "wf_roles (gn_registry (current s))"
    "\<And>g. g \<in> set (rc_snapshots s) \<Longrightarrow> g = current s \<or> unat (gn_sequence g) < unat (gn_sequence (current s))"
    "distinct (rw_target_addresses (rc_registry s))" "\<And>a. a \<in> set (rw_target_addresses (rc_registry s)) \<Longrightarrow> target_ok a"
  using assms by (auto simp: registry_inv_def)

text \<open>A publication that was prepared is the next generation, with roles of which \<open>P\<close> holds.\<close>

definition next_generation :: "(SimulationRegistry \<Rightarrow> bool) \<Rightarrow> role_clients \<Rightarrow> PreparedAppend result \<Rightarrow> bool" where
  "next_generation P s prepared \<longleftrightarrow> (\<forall>p. prepared = Inr p \<longrightarrow>
     (\<exists>roles. p = Some \<lparr>gn_sequence = gn_sequence (current s) + 1, gn_registry = roles\<rparr> \<and> P roles \<and>
        gn_sequence (current s) \<noteq> max_u64))"

lemma publish_cases:
  assumes "next_generation P s prepared"
  obtains (same) "fst (publish prepared commit s) = s" "\<not> commit \<or> \<not> ok (snd (publish prepared commit s))"
  | (committed) roles where "commit" "P roles" "gn_sequence (current s) \<noteq> max_u64" "snd (publish prepared commit s) = Inr ()"
      "fst (publish prepared commit s) =
         \<lparr>rc_registry = (rc_registry s)\<lparr>rw_generation := \<lparr>gn_sequence = gn_sequence (current s) + 1, gn_registry = roles\<rparr>\<rparr>,
          rc_snapshots = rc_snapshots s @ [\<lparr>gn_sequence = gn_sequence (current s) + 1, gn_registry = roles\<rparr>]\<rparr>"
proof (cases prepared)
  case (Inl e)
  then show thesis using same by (simp add: publish_def)
next
  case (Inr p)
  then obtain roles where p: "p = Some \<lparr>gn_sequence = gn_sequence (current s) + 1, gn_registry = roles\<rparr>" "P roles"
    "gn_sequence (current s) \<noteq> max_u64"
    using assms unfolding next_generation_def by blast
  show thesis
  proof (cases commit)
    case True
    then show thesis using committed [OF True p(2,3)] by (simp add: publish_def Inr p(1) CommitGeneration_def)
  qed (use same in \<open>simp add: publish_def Inr\<close>)
qed

lemma publish_inv:
  assumes "registry_inv s" "next_generation wf_roles s prepared"
  shows "registry_inv (fst (publish prepared commit s)) \<and>
    unat (gn_sequence (current (fst (publish prepared commit s)))) =
      unat (gn_sequence (current s)) + (if commit \<and> ok (snd (publish prepared commit s)) then 1 else 0)"
  using assms(2)
proof (cases rule: publish_cases [where commit = commit])
  case same
  then show ?thesis using assms(1) by auto
next
  case (committed roles)
  have sequence: "unat (gn_sequence (current s) + 1) = Suc (unat (gn_sequence (current s)))"
    using committed(3) by (rule u64_succ_exact)
  then have "gn_sequence (current s) + 1 \<noteq> 0" by force
  moreover have "unat (gn_sequence g) < Suc (unat (gn_sequence (current s)))" if "g \<in> set (rc_snapshots s)" for g
    using registry_invD(3) [OF assms(1) that] by auto
  ultimately have "registry_inv (fst (publish prepared commit s))"
    using registry_invD [OF assms(1)] committed(2) sequence unfolding committed(5) by (auto intro!: registry_invI)
  moreover have "unat (gn_sequence (current (fst (publish prepared commit s)))) = Suc (unat (gn_sequence (current s)))"
    unfolding committed(5) by (simp add: sequence)
  ultimately show ?thesis using committed(1,4) by simp
qed

lemma publish_exact:
  assumes "next_generation exact_roles s prepared" "exact_roles (gn_registry (current s))"
  shows "exact_roles (gn_registry (current (fst (publish prepared commit s))))"
  using assms(1)
proof (cases rule: publish_cases [where commit = commit])
  case same
  then show ?thesis using assms(2) by simp
next
  case (committed roles)
  then show ?thesis by simp
qed

lemma SetTargetAddress_inv:
  assumes "registry_inv s" "SetTargetAddress address enabled before_commit (rc_registry s) = Inr registry"
  shows "registry_inv (s\<lparr>rc_registry := registry\<rparr>)" "rw_generation registry = current s"
proof -
  let ?targets = "rw_target_addresses (rc_registry s)"
  define updated where "updated = (if enabled \<and> address \<notin> set ?targets then ?targets @ [address]
    else if \<not> enabled \<and> address \<in> set ?targets then remove1 address ?targets else ?targets)"
  have u: "registry = (rc_registry s)\<lparr>rw_target_addresses := updated\<rparr>" "target_ok address"
    using assms(2) unfolding SetTargetAddress_def Let_def updated_def [symmetric]
    by (auto simp: bind_result_Inr ok_iff split: if_splits)
  note inv = registry_invD [OF assms(1)]
  have "distinct updated" "\<And>a. a \<in> set updated \<Longrightarrow> target_ok a"
    using u(2) inv(4,5) by (auto simp: updated_def split: if_splits dest: notin_set_remove1 set_remove1_subset [THEN subsetD])
  then show "registry_inv (s\<lparr>rc_registry := registry\<rparr>)" using assms(1) by (simp add: registry_inv_def u(1))
  show "rw_generation registry = current s" by (simp add: u(1))
qed

text \<open>The calls that publish a generation.\<close>

fun commits :: "registry_op \<Rightarrow> bool" where
  "commits (UpdateRoles _ _ _ _ _ commit) = commit"
| "commits (ReplaceWith _ _ commit) = commit"
| "commits (ReplaceRoles _ _ commit) = commit"
| "commits _ = False"

definition published :: "'g rng \<Rightarrow> role_clients \<Rightarrow> registry_op \<Rightarrow> nat list" where
  "published R s x = (if commits x \<and> ok (snd (registry_exec R s x)) \<and>
       (case x of ReplaceRoles i _ _ \<Rightarrow> i < length (rc_snapshots s) | _ \<Rightarrow> True)
     then [Suc (unat (gn_sequence (current s)))] else [])"

text \<open>Replacements that put two identities on one node are the one thing the check of the registry does not see.\<close>

fun sole_identities :: "registry_op \<Rightarrow> bool" where
  "sole_identities (ReplaceWith _ roles _) = distinct (map mi_node (sr_masternodes roles))"
| "sole_identities _ = True"

lemma next_replace:
  assumes "wf_roles roles \<Longrightarrow> P roles"
  shows "next_generation P s (PrepareReplace expected roles (rc_registry s))"
  using assms unfolding next_generation_def PrepareReplace_iff by blast

lemma next_change:
  assumes "registry_inv s" "i < length (rc_snapshots s)"
    and P: "\<And>roles. wf_roles roles \<Longrightarrow> change_roles R changes (gn_registry (current s)) = Inr roles \<Longrightarrow> P roles"
  shows "next_generation P s (bind_result (change_roles R changes (gn_registry (rc_snapshots s ! i)))
    (\<lambda>roles. PrepareReplace (gn_sequence (rc_snapshots s ! i)) roles (rc_registry s)))"
  unfolding next_generation_def
proof (intro allI impI)
  fix p assume "bind_result (change_roles R changes (gn_registry (rc_snapshots s ! i)))
    (\<lambda>roles. PrepareReplace (gn_sequence (rc_snapshots s ! i)) roles (rc_registry s)) = Inr p"
  then obtain roles where roles: "change_roles R changes (gn_registry (rc_snapshots s ! i)) = Inr roles"
    "PrepareReplace (gn_sequence (rc_snapshots s ! i)) roles (rc_registry s) = Inr p"
    unfolding bind_result_Inr by blast
  then have p: "gn_sequence (current s) = gn_sequence (rc_snapshots s ! i)" "gn_sequence (rc_snapshots s ! i) \<noteq> max_u64"
    "wf_roles roles" "p = Some \<lparr>gn_sequence = gn_sequence (rc_snapshots s ! i) + 1, gn_registry = roles\<rparr>"
    unfolding PrepareReplace_iff by simp_all
  have "rc_snapshots s ! i = current s" using registry_invD(3) [OF assms(1) nth_mem [OF assms(2)]] p(1) by auto
  then show "\<exists>roles. p = Some \<lparr>gn_sequence = gn_sequence (current s) + 1, gn_registry = roles\<rparr> \<and> P roles \<and>
      gn_sequence (current s) \<noteq> max_u64"
    using p roles(1) P [of roles] by simp
qed

lemma registry_exec_inv:
  assumes "registry_inv s"
  shows "registry_inv (fst (registry_exec R s x)) \<and> unat (gn_sequence (current (fst (registry_exec R s x)))) =
    unat (gn_sequence (current s)) + length (published R s x)"
proof (cases x)
  case (InitializeRoles roles)
  then show ?thesis using registry_invD(1) [OF assms] assms by (simp add: registry_exec_def Initialize_def published_def)
next
  case (SetTarget address enabled before_commit)
  show ?thesis
  proof (cases "SetTargetAddress address enabled before_commit (rc_registry s)")
    case (Inr registry)
    then show ?thesis using SetTarget SetTargetAddress_inv [OF assms Inr] by (simp add: registry_exec_def published_def)
  qed (simp add: SetTarget registry_exec_def published_def assms)
next
  case TakeSnapshot
  have "registry_inv (s\<lparr>rc_snapshots := rc_snapshots s @ [current s]\<rparr>)" using assms by (auto simp: registry_inv_def)
  then show ?thesis using TakeSnapshot registry_invD(1) [OF assms]
    by (simp add: registry_exec_def RegistrySnapshot_def published_def)
next
  case (UpdateRoles expected wallets miners masternodes c commit)
  have "next_generation wf_roles s (PrepareUpdate expected wallets miners masternodes c (rc_registry s))"
    unfolding next_generation_def using checked.update_valid [OF registry_invD(2) [OF assms]] by blast
  from publish_inv [OF assms this, of commit] show ?thesis using UpdateRoles by (simp add: registry_exec_def published_def)
next
  case (ReplaceWith expected roles commit)
  have "next_generation wf_roles s (PrepareReplace expected roles (rc_registry s))" by (rule next_replace)
  from publish_inv [OF assms this, of commit] show ?thesis using ReplaceWith by (simp add: registry_exec_def published_def)
next
  case (ReplaceRoles i changes commit)
  show ?thesis
  proof (cases "i < length (rc_snapshots s)")
    case True
    from publish_inv [OF assms next_change [OF assms True, where R = R and changes = changes], of commit]
    show ?thesis using True ReplaceRoles by (simp add: registry_exec_def published_def)
  qed (simp add: ReplaceRoles registry_exec_def published_def assms)
qed

lemma registry_exec_fifo:
  assumes "registry_inv s"
  shows "[0..<Suc (unat (gn_sequence (current s)))] @ published R s x =
    [0..<Suc (unat (gn_sequence (current (fst (registry_exec R s x)))))]"
proof -
  have "published R s x = [] \<or> published R s x = [Suc (unat (gn_sequence (current s)))]" by (simp add: published_def)
  then show ?thesis using registry_exec_inv [OF assms, of R x] by auto
qed

interpretation generations: fifo_object "registry_exec R" registry_inv
  "\<lambda>s. [0..<Suc (unat (gn_sequence (current s)))]" "published R" "\<lambda>_ _. []" for R
  by unfold_locales (simp_all add: registry_exec_inv registry_exec_fifo del: upt_Suc)

lemma registry_exec_exact:
  assumes inv: "registry_inv s" and ex: "exact_roles (gn_registry (current s))" and x: "sole_identities x"
  shows "exact_roles (gn_registry (current (fst (registry_exec R s x))))"
proof (cases x)
  case (InitializeRoles roles)
  then show ?thesis using registry_invD(1) [OF inv] ex by (simp add: registry_exec_def Initialize_def)
next
  case (SetTarget address enabled before_commit)
  show ?thesis
  proof (cases "SetTargetAddress address enabled before_commit (rc_registry s)")
    case (Inr registry)
    then show ?thesis using SetTarget ex SetTargetAddress_inv(2) [OF inv Inr] by (simp add: registry_exec_def)
  qed (simp add: SetTarget registry_exec_def ex)
next
  case TakeSnapshot
  then show ?thesis using ex registry_invD(1) [OF inv] by (simp add: registry_exec_def RegistrySnapshot_def)
next
  case (UpdateRoles expected wallets miners masternodes c commit)
  have "next_generation exact_roles s (PrepareUpdate expected wallets miners masternodes c (rc_registry s))"
    unfolding next_generation_def using sole.update_valid [OF ex] by blast
  from publish_exact [OF this ex] show ?thesis using UpdateRoles by (simp add: registry_exec_def)
next
  case (ReplaceWith expected roles commit)
  have "next_generation exact_roles s (PrepareReplace expected roles (rc_registry s))"
    using x ReplaceWith by (intro next_replace) (simp add: exact_roles_def)
  from publish_exact [OF this ex] show ?thesis using ReplaceWith by (simp add: registry_exec_def)
next
  case (ReplaceRoles i changes commit)
  show ?thesis
  proof (cases "i < length (rc_snapshots s)")
    case True
    have "next_generation exact_roles s (bind_result (change_roles R changes (gn_registry (rc_snapshots s ! i)))
        (\<lambda>roles. PrepareReplace (gn_sequence (rc_snapshots s ! i)) roles (rc_registry s)))"
      using change_roles_exact [OF ex] by (intro next_change [OF inv True]) blast
    from publish_exact [OF this ex] show ?thesis using True ReplaceRoles by (simp add: registry_exec_def)
  qed (simp add: ReplaceRoles registry_exec_def ex)
qed

lemma registry_run_exact:
  "registry_inv s \<Longrightarrow> exact_roles (gn_registry (current s)) \<Longrightarrow> list_all sole_identities ops \<Longrightarrow>
    exact_roles (gn_registry (current (fst (run (registry_exec R) s ops))))"
  by (induction ops arbitrary: s) (simp_all add: split_def Let_def registry_exec_exact registry_exec_inv)

lemma initial_inv:
  assumes "wf_roles roles" "Initialize roles new_RuntimeWalletRegistry = Inr registry"
  shows "registry_inv \<lparr>rc_registry = registry, rc_snapshots = []\<rparr>" "rw_generation registry = \<lparr>gn_sequence = 1, gn_registry = roles\<rparr>"
  using assms by (auto simp: Initialize_def new_RuntimeWalletRegistry_def new_SimulationRegistry_def registry_inv_def)

text \<open>
  The roles at startup: \<open>InitializeWalletNodes\<close> in \<open>src/simulator_wallet_node_initialization.cpp\<close> writes node
  identifier and addresses into each wallet of a resolved topology. The result satisfies what the registry
  assumes, if the wallet software returned distinct non-empty addresses.
\<close>

lemma fill_wallets:
  "fold_result (\<lambda>i. MutableWalletByIndex i (fill i)) [0..<length (sr_wallets r)] r
     = Inr (r\<lparr>sr_wallets := map (\<lambda>i. fill i (sr_wallets r ! i)) [0..<length (sr_wallets r)]\<rparr>)"
proof -
  let ?ws = "sr_wallets r"
  let ?filled = "\<lambda>m. map (\<lambda>i. if i < m then fill i (?ws ! i) else ?ws ! i) [0..<length ?ws]"
  have step: "MutableWalletByIndex m (fill m) (r\<lparr>sr_wallets := ?filled m\<rparr>) = Inr (r\<lparr>sr_wallets := ?filled (Suc m)\<rparr>)"
    if "m < length ?ws" for m
  proof -
    have "(?filled m)[m := fill m (?ws ! m)] = ?filled (Suc m)"
      using that by (intro nth_equalityI) (auto simp: nth_list_update less_Suc_eq)
    then show ?thesis using that by (simp add: MutableWalletByIndex_def)
  qed
  have "\<exists>s. fold_result (\<lambda>i. MutableWalletByIndex i (fill i)) [0..<length ?ws] r = Inr s \<and> s = r\<lparr>sr_wallets := ?filled (length ?ws)\<rparr>"
    using step by (intro fold_result_upt [where I = "\<lambda>m s. s = r\<lparr>sr_wallets := ?filled m\<rparr>"]) (auto simp: map_nth)
  moreover have "?filled (length ?ws) = map (\<lambda>i. fill i (?ws ! i)) [0..<length ?ws]" by (intro map_cong) auto
  ultimately show ?thesis by simp
qed

lemma startup_roles_exact:
  assumes "wf_role_topology t" "nt_masternode_nodes t = []" "nt_configured t" "FromTopology t initialization = Inr r"
    and "fill = (\<lambda>i w. w\<lparr>wi_node_id := node_id i, wi_address := address i, wi_funding_address := funding i\<rparr>)"
    and "fold_result (\<lambda>i. MutableWalletByIndex i (fill i)) [0..<length (sr_wallets r)] r = Inr r'"
    and "\<And>i. i < length (nt_wallet_nodes t) \<Longrightarrow> node_id i \<noteq> [] \<and> address i \<noteq> [] \<and> funding i \<noteq> []"
    and "inj_on address {..<length (nt_wallet_nodes t)}"
  shows "exact_roles r'"
proof -
  let ?n = "length (nt_wallet_nodes t)" and ?c = "nt_node_count t"
  note top = wf_role_topologyD [OF assms(1)]
  have nodes: "node < unat ?c" if "node \<in> set (nt_wallet_nodes t)" for node using top(1) that by (simp add: role_nodes_ok_def)
  have r: "sr_topology r = t" "sr_masternodes r = []" "length (sr_wallets r) = ?n"
    and w: "\<And>i. i < ?n \<Longrightarrow> wi_wallet_index (sr_wallets r ! i) = to_u32 (i + 1) \<and> wi_node (sr_wallets r ! i) = to_u32 (nt_wallet_nodes t ! i + 1)"
    using assms(3,4) by (auto simp: FromTopology_def nth_enumerate_eq split: if_splits)
  have node: "nt_wallet_nodes t ! i < unat ?c" "to_u32 (nt_wallet_nodes t ! i + 1) = Suc (nt_wallet_nodes t ! i)" if "i < ?n" for i
  proof -
    show less: "nt_wallet_nodes t ! i < unat ?c" using nodes [OF nth_mem [OF that]] .
    then have "Suc (nt_wallet_nodes t ! i) < 4294967296" using u32_lt [of ?c] by linarith
    then show "to_u32 (nt_wallet_nodes t ! i + 1) = Suc (nt_wallet_nodes t ! i)" by simp
  qed
  have r': "r' = r\<lparr>sr_wallets := map (\<lambda>i. fill i (sr_wallets r ! i)) [0..<?n]\<rparr>"
    using assms(6) fill_wallets [of fill r] by (simp add: r(3))
  have "distinct (map address [0..<?n])" using assms(8) by (simp add: distinct_map lessThan_atLeast0)
  moreover have "wallet_complete ?c (set (nt_wallet_nodes t)) (fill i (sr_wallets r ! i))" if "i < ?n" for i
    using w [OF that] node [OF that] assms(7) [OF that] that by (simp add: assms(5) wallet_complete_def Suc_le_eq)
  ultimately have "wf_wallets ?c (set (nt_wallet_nodes t)) (sr_wallets r')"
    using w by (auto simp: r' wf_wallets_def assms(5) o_def)
  then show ?thesis using assms(1,2) r by (intro exact_rolesI) (simp_all add: r' wf_masternodes_def)
qed

lemma replacement_accepted:
  assumes "registry_inv s"
  shows "ok (snd (registry_exec R s (ReplaceWith (gn_sequence (current s)) offered commit))) \<longleftrightarrow>
    wf_roles offered \<and> gn_sequence (current s) \<noteq> max_u64"
proof (cases "PrepareReplace (gn_sequence (current s)) offered (rc_registry s)")
  case (Inl e)
  then have "\<not> (wf_roles offered \<and> gn_sequence (current s) \<noteq> max_u64)"
    using PrepareReplace_iff [of "gn_sequence (current s)" offered "rc_registry s"] registry_invD(1) [OF assms] by auto
  then show ?thesis by (simp add: registry_exec_def publish_def Inl)
next
  case (Inr p)
  then have "wf_roles offered \<and> gn_sequence (current s) \<noteq> max_u64"
    "p = Some \<lparr>gn_sequence = gn_sequence (current s) + 1, gn_registry = offered\<rparr>"
    unfolding PrepareReplace_iff by simp_all
  then show ?thesis by (simp add: registry_exec_def publish_def Inr CommitGeneration_def)
qed

lemma SelectTargetAddress_member:
  assumes "SelectTargetAddress t n registry = Inr (Some address)"
  shows "address \<in> set (rw_target_addresses registry)"
  using assms by (auto simp: SelectTargetAddress_def Let_def split: if_splits)

text \<open>C26. A registry initialised with valid roles publishes only valid roles, whatever updates, replacements and target
  changes are attempted in any order, with whatever arguments, committed or dropped, failed or not: counts agree with the node
  lists, nodes exist and are listed once, wallets are numbered and complete with distinct addresses, masternode identities are
  complete, as many as the masternode nodes and on such nodes, and forbidden overlaps do not occur. Each masternode node keeps
  exactly one identity unless a replacement is offered that puts two on one node. A replacement at the current generation is
  accepted exactly if its roles are valid, below the last generation. The generations are numbered without gaps, one for each
  successful commit, and every selected target address is a valid text.\<close>

theorem published_roles_valid:
  assumes "wf_roles roles" "Initialize roles new_RuntimeWalletRegistry = Inr registry"
    and s: "s = fst (run (registry_exec R) \<lparr>rc_registry = registry, rc_snapshots = []\<rparr> ops)"
  shows "wf_roles (gn_registry (current s)) \<and>
    (exact_roles roles \<and> list_all sole_identities ops \<longrightarrow> exact_roles (gn_registry (current s))) \<and>
    (\<forall>offered commit. ok (snd (registry_exec R s (ReplaceWith (gn_sequence (current s)) offered commit))) \<longleftrightarrow>
      wf_roles offered \<and> gn_sequence (current s) \<noteq> max_u64) \<and>
    collect (registry_exec R) (published R) \<lparr>rc_registry = registry, rc_snapshots = []\<rparr> ops
      = [2..<Suc (unat (gn_sequence (current s)))] \<and>
    (\<forall>t n address. SelectTargetAddress t n (rc_registry s) = Inr (Some address) \<longrightarrow> target_ok address)"
proof -
  let ?s0 = "\<lparr>rc_registry = registry, rc_snapshots = []\<rparr>"
  note init = initial_inv [OF assms(1,2)]
  have inv: "registry_inv s" unfolding s by (rule generations.run_inv [OF init(1)])
  have "[0..<Suc (unat (gn_sequence (current ?s0)))] @ collect (registry_exec R) (published R) ?s0 ops
      = collect (registry_exec R) (\<lambda>_ _. []) ?s0 ops @ [0..<Suc (unat (gn_sequence (current s)))]"
    unfolding s by (rule generations.run_fifo [OF init(1)])
  moreover have "collect (registry_exec R) (\<lambda>_ _. []) s' xs = []" for s' xs by (induction xs arbitrary: s') auto
  ultimately have all: "[0..<2] @ collect (registry_exec R) (published R) ?s0 ops = [0..<Suc (unat (gn_sequence (current s)))]"
    using init(2) by (simp add: numeral_2_eq_2)
  have "collect (registry_exec R) (published R) ?s0 ops = drop 2 [0..<Suc (unat (gn_sequence (current s)))]"
    unfolding all [symmetric] by (simp del: upt_Suc)
  moreover have "exact_roles (gn_registry (current s))" if "exact_roles roles" "list_all sole_identities ops"
    unfolding s using registry_run_exact [OF init(1)] that init(2) by simp
  moreover have "target_ok address" if "SelectTargetAddress t n (rc_registry s) = Inr (Some address)" for t n address
    using registry_invD(5) [OF inv] SelectTargetAddress_member [OF that] by blast
  ultimately show ?thesis using registry_invD(2) [OF inv] replacement_accepted [OF inv, of R]
    by (simp del: upt_Suc add: drop_upt numeral_2_eq_2)
qed

text \<open>C27. A client that removes roles, or moves them to new node indexes after nodes were removed, works on a snapshot, makes
  one or more changes and publishes the result. If nothing was published since the snapshot, the publication is accepted, and the
  published roles are the former ones with exactly the requested changes. Otherwise it is refused and changes nothing, so that
  no update is lost.\<close>

theorem role_change_republished:
  assumes "exact_roles roles" "Initialize roles new_RuntimeWalletRegistry = Inr registry"
    and "s = fst (run (registry_exec R) \<lparr>rc_registry = registry, rc_snapshots = []\<rparr> ops)" "list_all sole_identities ops"
    and "i < length (rc_snapshots s)" "change_roles R changes (gn_registry (rc_snapshots s ! i)) = Inr changed"
    and "gn_sequence (current s) \<noteq> max_u64"
  shows "if gn_sequence (rc_snapshots s ! i) = gn_sequence (current s)
    then snd (registry_exec R s (ReplaceRoles i changes True)) = Inr () \<and>
      view_roles (gn_registry (current (fst (registry_exec R s (ReplaceRoles i changes True)))))
        = fold promised_view changes (view_roles (gn_registry (current s)))
    else registry_exec R s (ReplaceRoles i changes True)
      = (s, Inl (RuntimeError ''runtime wallet registry changed before replacement publication''))"
proof -
  have "wf_roles roles" using assms(1) by (simp add: exact_roles_def)
  note init = initial_inv [OF this assms(2)]
  have inv: "registry_inv s" unfolding assms(3) by (rule generations.run_inv [OF init(1)])
  have ex: "exact_roles (gn_registry (current s))"
    unfolding assms(3) using registry_run_exact [OF init(1) _ assms(4)] assms(1) init(2) by simp
  show ?thesis
  proof (cases "gn_sequence (rc_snapshots s ! i) = gn_sequence (current s)")
    case True
    then have same: "rc_snapshots s ! i = current s" using registry_invD(3) [OF inv nth_mem [OF assms(5)]] by auto
    have changed: "exact_roles changed" "view_roles changed = fold promised_view changes (view_roles (gn_registry (current s)))"
      using change_roles_exact [OF ex] assms(6) same by auto
    have "PrepareReplace (gn_sequence (current s)) changed (rc_registry s)
        = Inr (Some \<lparr>gn_sequence = gn_sequence (current s) + 1, gn_registry = changed\<rparr>)"
      unfolding PrepareReplace_iff using registry_invD(1) [OF inv] assms(7) changed(1) by (simp add: exact_roles_def)
    then have "registry_exec R s (ReplaceRoles i changes True) =
        (\<lparr>rc_registry = (rc_registry s)\<lparr>rw_generation := \<lparr>gn_sequence = gn_sequence (current s) + 1, gn_registry = changed\<rparr>\<rparr>,
          rc_snapshots = rc_snapshots s @ [\<lparr>gn_sequence = gn_sequence (current s) + 1, gn_registry = changed\<rparr>]\<rparr>, Inr ())"
      using assms(5,6) same by (simp add: registry_exec_def publish_def CommitGeneration_def)
    then show ?thesis using True changed(2) by simp
  next
    case False
    then have "PrepareReplace (gn_sequence (rc_snapshots s ! i)) changed (rc_registry s)
        = Inl (RuntimeError ''runtime wallet registry changed before replacement publication'')"
      using registry_invD(1) [OF inv] by (simp add: PrepareReplace_def)
    then show ?thesis using False assms(5,6) by (simp add: registry_exec_def publish_def)
  qed
qed

subsection \<open>Examples\<close>

definition example_wallet :: WalletIdentity where
  "example_wallet = \<lparr>wi_wallet_index = 1, wi_node = 1, wi_node_id = ''n1'', wi_address = ''a1'', wi_funding_address = ''f1''\<rparr>"

definition example_roles :: SimulationRegistry where
  "example_roles = new_SimulationRegistry\<lparr>
     sr_topology := DefaultNodeRoleTopology\<lparr>nt_configured := True, nt_node_count := 3, nt_wallet_node_count := 1,
       nt_miner_node_count := 2, nt_wallet_nodes := [0], nt_miner_nodes := [1, 2]\<rparr>,
     sr_wallets := [example_wallet]\<rparr>"

definition example_registry :: RuntimeWalletRegistry where
  "example_registry = new_RuntimeWalletRegistry\<lparr>rw_generation := \<lparr>gn_sequence = 1, gn_registry = example_roles\<rparr>\<rparr>"

definition example_clients :: "registry_op list \<Rightarrow> role_clients" where
  "example_clients ops = fst (run (registry_exec high_rng) \<lparr>rc_registry = example_registry, rc_snapshots = []\<rparr> ops)"

lemma example_roles_exact: "exact_roles example_roles"
  by (intro exact_rolesI wf_role_topologyI)
    (simp_all add: example_roles_def example_wallet_def new_SimulationRegistry_def DefaultNodeRoleTopology_def role_nodes_ok_def
      wf_wallets_def wallet_complete_def wf_masternodes_def)

lemma example_initialized: "Initialize example_roles new_RuntimeWalletRegistry = Inr example_registry"
  by (simp add: Initialize_def example_registry_def new_RuntimeWalletRegistry_def new_SimulationRegistry_def)

theorem published_roles_valid_witness:
  "wf_roles (gn_registry (current (example_clients [TakeSnapshot, ReplaceRoles 0 [DropMiners [2]] True,
     SetTarget ''t1'' True (Inr ()), ReplaceRoles 0 [DropMiners [1]] True, UpdateRoles 2 [] [2] [] 4 True,
     ReplaceWith 3 new_SimulationRegistry True])))"
proof -
  have "wf_roles example_roles" using example_roles_exact by (simp add: exact_roles_def)
  from published_roles_valid [OF this example_initialized example_clients_def] show ?thesis by (rule conjunct1)
qed

lemma example_snapshot:
  "rc_snapshots (example_clients [TakeSnapshot]) = [\<lparr>gn_sequence = 1, gn_registry = example_roles\<rparr>]"
  "rw_generation (rc_registry (example_clients [TakeSnapshot])) = \<lparr>gn_sequence = 1, gn_registry = example_roles\<rparr>"
  by (simp_all add: example_clients_def registry_exec_def RegistrySnapshot_def example_registry_def)

lemma example_drop: "\<exists>changed. change_roles high_rng [DropMiners [2], DropWallet 0] example_roles = Inr changed"
  by (simp add: change_roles_def change_role_def RemoveMinerNodes_def RemoveWalletNode_def example_roles_def example_wallet_def)

theorem role_change_republished_witness:
  "view_roles (gn_registry (current (fst (registry_exec high_rng (example_clients [TakeSnapshot])
     (ReplaceRoles 0 [DropMiners [2], DropWallet 0] True))))) =
   \<lparr>rv_wallet_nodes = {}, rv_miner_nodes = {1}, rv_masternode_nodes = {}, rv_wallets = [], rv_masternodes = []\<rparr>"
proof -
  let ?s = "example_clients [TakeSnapshot]" and ?changes = "[DropMiners [2], DropWallet 0]"
  obtain changed where "change_roles high_rng ?changes (gn_registry (rc_snapshots ?s ! 0)) = Inr changed"
    using example_drop by (auto simp: example_snapshot)
  from role_change_republished [OF example_roles_exact example_initialized example_clients_def _ _ this]
  have "view_roles (gn_registry (current (fst (registry_exec high_rng ?s (ReplaceRoles 0 ?changes True)))))
      = fold promised_view ?changes (view_roles example_roles)" by (simp add: example_snapshot)
  also have "\<dots> = \<lparr>rv_wallet_nodes = {}, rv_miner_nodes = {1}, rv_masternode_nodes = {}, rv_wallets = [], rv_masternodes = []\<rparr>"
    by (auto simp: view_roles_def example_roles_def example_wallet_def new_SimulationRegistry_def DefaultNodeRoleTopology_def)
  finally show ?thesis .
qed

end
