(* ===== verification/Rate_Schedule.thy ===== *)
theory Rate_Schedule
  imports BBP_Prelude
begin

text \<open>
  Transaction rates and the simulation time scale: \<open>WalletTransactionRate\<close> and
  \<open>WalletTransactionDurationAttemptLimit\<close> of \<open>src/wallet_transaction_plan.cpp\<close> and
  \<open>SimulationTimeScale\<close> of \<open>src/simulation_time_scale.cpp\<close>. Both classes hold a number of
  millionths; both round a scaled duration up to whole milliseconds. A
  \<open>std::chrono::milliseconds\<close> is the integer it counts, with a 64-bit signed representation.
  The conversions from \<open>double\<close> are not modelled: the range that they check is the hypothesis
  on the millionths.
\<close>

definition kTransactionRateUnitsPerOne :: u64 where
  "kTransactionRateUnitsPerOne = 1000000"

definition kMaximumTransactionRateUnits :: u64 where
  "kMaximumTransactionRateUnits = 1000 * kTransactionRateUnitsPerOne"

definition kMillisecondsTimesRateUnits :: u64 where
  "kMillisecondsTimesRateUnits = 1000 * kTransactionRateUnitsPerOne"

definition kScaleUnitsPerOne :: u64 where
  "kScaleUnitsPerOne = 1000000"

definition kMaximumScaleUnits :: u64 where
  "kMaximumScaleUnits = 1000000 * kScaleUnitsPerOne"

text \<open>\<open>std::numeric_limits<std::chrono::milliseconds::rep>::max()\<close> as an unsigned value.\<close>

definition max_milliseconds :: u64 where
  "max_milliseconds = 9223372036854775807"

text \<open>The computation that both classes share: \<open>value * unit / millionths\<close> rounded up, with the
  message of the exception that the caller throws.\<close>

definition ScaleMilliseconds :: "u64 \<Rightarrow> string \<Rightarrow> u64 \<Rightarrow> u64 \<Rightarrow> int result" where
  "ScaleMilliseconds unit_count message millionths value =
     (let whole = value div millionths; remainder = value mod millionths in
      if whole > max_milliseconds div unit_count then Inl (RuntimeError message)
      else let elapsed_ms = whole * unit_count in
        if remainder \<noteq> 0
        then let partial_numerator = remainder * unit_count;
                 partial = partial_numerator div millionths +
                   (if partial_numerator mod millionths = 0 then 0 else 1) in
          if elapsed_ms > max_milliseconds - partial then Inl (RuntimeError message)
          else Inr (uint (elapsed_ms + partial))
        else Inr (uint elapsed_ms))"

definition SimulationElapsedBefore :: "u64 \<Rightarrow> u64 \<Rightarrow> int result" where
  "SimulationElapsedBefore millionths zero_based_transaction_index =
     ScaleMilliseconds kMillisecondsTimesRateUnits
       ''wallet transaction rate schedule exceeds milliseconds range''
       millionths zero_based_transaction_index"

definition WallDuration :: "u64 \<Rightarrow> int \<Rightarrow> int result" where
  "WallDuration millionths simulation_duration =
     (if simulation_duration < 0
      then Inl (RuntimeError ''simulation duration must not be negative'')
      else ScaleMilliseconds kScaleUnitsPerOne ''scaled simulation duration exceeds milliseconds range''
        millionths (word_of_int simulation_duration))"

definition WalletTransactionDurationAttemptLimit :: "int \<Rightarrow> u64 \<Rightarrow> u64 result" where
  "WalletTransactionDurationAttemptLimit duration millionths =
     (if duration \<le> 0
      then Inl (RuntimeError ''transaction load duration must be greater than zero'')
      else let duration_ms = word_of_int duration in
        if duration_ms > max_u64 div millionths
        then Inl (RuntimeError ''transaction load duration and rate attempt count overflows uint64'')
        else let numerator = duration_ms * millionths;
                 quotient = numerator div 1000000000;
                 remainder = numerator mod 1000000000 in
          if quotient = max_u64 \<and> remainder \<noteq> 0
          then Inl (RuntimeError ''transaction load duration attempt count exceeds uint64'')
          else Inr (quotient + (if remainder = 0 then 0 else 1)))"

subsection \<open>Rounding up\<close>

definition ceiling_div :: "nat \<Rightarrow> nat \<Rightarrow> nat" where
  "ceiling_div a b = (a + (b - 1)) div b"

lemma ceiling_div_quotient:
  assumes "0 < b"
  shows "a div b + (if a mod b = 0 then 0 else 1) = ceiling_div a b"
proof -
  have "ceiling_div a b = (a div b * b + (a mod b + (b - 1))) div b" by (simp add: ceiling_div_def)
  also have "\<dots> = a div b + (a mod b + (b - 1)) div b" by (rule div_mult_self3) (use assms in simp)
  also have "(a mod b + (b - 1)) div b = (if a mod b = 0 then 0 else 1)"
  proof (cases "a mod b = 0")
    case False
    have "(a mod b + (b - 1)) div b = Suc 0"
      using False assms mod_less_divisor [OF assms, of a] by (intro div_nat_eqI) simp_all
    then show ?thesis using False by simp
  qed (use assms in simp)
  finally show ?thesis by simp
qed

lemma ceiling_div_le_iff: "0 < b \<Longrightarrow> ceiling_div a b \<le> c \<longleftrightarrow> a \<le> c * b"
proof -
  assume b: "0 < b"
  have "ceiling_div a b \<le> c \<longleftrightarrow> (a + (b - 1)) div b < Suc c" by (simp add: ceiling_div_def less_Suc_eq_le)
  also have "\<dots> \<longleftrightarrow> a + (b - 1) < Suc c * b" using b by (simp add: div_less_iff_less_mult)
  also have "\<dots> \<longleftrightarrow> a \<le> c * b" using b by auto
  finally show ?thesis .
qed

lemma ceiling_div_split:
  assumes "0 < b"
  shows "ceiling_div (a * u) b = a div b * u + ceiling_div (a mod b * u) b"
proof -
  have "a * u = a div b * u * b + a mod b * u"
    by (metis add_mult_distrib div_mult_mod_eq mult.assoc mult.commute)
  then have "ceiling_div (a * u) b = (a div b * u * b + (a mod b * u + (b - 1))) div b"
    by (simp add: ceiling_div_def add.assoc)
  also have "\<dots> = a div b * u + ceiling_div (a mod b * u) b"
    unfolding ceiling_div_def by (rule div_mult_self3) (use assms in simp)
  finally show ?thesis .
qed

lemma ceiling_div_bound: "r < b \<Longrightarrow> ceiling_div (r * u) b \<le> u"
  by (subst ceiling_div_le_iff) (auto simp: mult.commute)

lemma u64_mult_exact [no_wrap]:
  fixes a b :: u64
  assumes "unat a * unat b < 2 ^ 64"
  shows "unat (a * b) = unat a * unat b"
  using assms by (simp add: unat_word_ariths)

lemma unat_max_milliseconds: "unat max_milliseconds = 9223372036854775807"
  by (simp add: max_milliseconds_def)

lemma partial_exact:
  fixes U m v :: u64
  assumes m: "0 < unat m" and fits: "unat m * unat U < 2 ^ 64" and U: "unat U \<le> 9223372036854775807"
  defines "p \<equiv> (v mod m * U) div m + (if (v mod m * U) mod m = 0 then 0 else 1)"
  shows "unat p = ceiling_div (unat v mod unat m * unat U) (unat m)"
proof -
  let ?r = "unat v mod unat m"
  have r: "?r < unat m" using m by simp
  have "?r * unat U < 2 ^ 64" using order_le_less_trans [OF mult_le_mono1 [OF less_imp_le [OF r]] fits] .
  then have n: "unat (v mod m * U) = ?r * unat U" by (simp add: u64_mult_exact unat_mod_distrib)
  have z: "(v mod m * U) mod m = 0 \<longleftrightarrow> (?r * unat U) mod unat m = 0"
    using n by (metis unat_eq_zero unat_mod_distrib)
  have "unat ((v mod m * U) div m) + unat (if (v mod m * U) mod m = 0 then 0 else 1 :: u64)
      = ceiling_div (?r * unat U) (unat m)"
    using ceiling_div_quotient [OF m, of "?r * unat U"] by (simp add: unat_div_distrib n z split: if_splits)
  moreover have "ceiling_div (?r * unat U) (unat m) < 2 ^ 64"
    using ceiling_div_bound [OF r, of "unat U"] U by simp
  ultimately show ?thesis unfolding p_def by (simp add: u64_add_exact)
qed

lemma ScaleMilliseconds_exact:
  assumes m: "0 < unat m" and U: "0 < unat U" "unat m * unat U < 2 ^ 64" "unat U \<le> 9223372036854775807"
  shows "ScaleMilliseconds U message m v =
    (let exact = ceiling_div (unat v * unat U) (unat m) in
     if exact \<le> 9223372036854775807 then Inr (int exact) else Inl (RuntimeError message))"
proof -
  let ?w = "unat v div unat m" and ?r = "unat v mod unat m" and ?M = "9223372036854775807 :: nat"
  define p where "p = (v mod m * U) div m + (if (v mod m * U) mod m = 0 then 0 else 1)"
  have split: "ceiling_div (unat v * unat U) (unat m) = ?w * unat U + ceiling_div (?r * unat U) (unat m)"
    by (rule ceiling_div_split [OF m])
  have g1: "max_milliseconds div U < v div m \<longleftrightarrow> ?M < ?w * unat U"
    unfolding word_less_nat_alt unat_div_distrib unat_max_milliseconds using U(1) by (rule div_less_iff_less_mult)
  show ?thesis
  proof (cases "?M < ?w * unat U")
    case True
    then show ?thesis unfolding ScaleMilliseconds_def split using g1 by (simp add: Let_def)
  next
    case False
    have e: "unat (v div m * U) = ?w * unat U"
      using False by (simp add: u64_mult_exact unat_div_distrib)
    have r0: "v mod m = 0 \<longleftrightarrow> ?r = 0" by (metis unat_eq_zero unat_mod_distrib)
    show ?thesis
    proof (cases "?r = 0")
      case True
      then have "ScaleMilliseconds U message m v = Inr (uint (v div m * U))"
        using r0 g1 False by (simp add: ScaleMilliseconds_def Let_def)
      moreover have "ceiling_div 0 (unat m) = 0" using m by (simp add: ceiling_div_def)
      moreover have "uint (v div m * U) = int (?w * unat U)" by (metis e uint_nat)
      ultimately show ?thesis unfolding split using True False by (simp add: Let_def)
    next
      case nz: False
      have exact: "unat p = ceiling_div (?r * unat U) (unat m)" unfolding p_def by (rule partial_exact [OF m U(2,3)])
      have "unat p \<le> unat U" unfolding exact using m by (intro ceiling_div_bound) simp
      then have pM: "unat p \<le> ?M" using U(3) by simp
      then have "unat (max_milliseconds - p) = ?M - unat p"
        by (subst u64_sub_exact) (simp_all add: word_le_nat_alt unat_max_milliseconds)
      then have g2: "max_milliseconds - p < v div m * U \<longleftrightarrow> ?M < ?w * unat U + unat p"
        unfolding word_less_nat_alt e using pM by linarith
      have s: "uint (v div m * U + p) = int (?w * unat U + unat p)" if "\<not> ?M < ?w * unat U + unat p"
      proof -
        have "unat (v div m * U + p) = unat (v div m * U) + unat p"
          by (rule u64_add_exact) (use that e in linarith)
        then show ?thesis by (metis e uint_nat)
      qed
      have "ScaleMilliseconds U message m v =
          (if max_milliseconds - p < v div m * U then Inl (RuntimeError message) else Inr (uint (v div m * U + p)))"
        using r0 nz g1 False unfolding p_def by (simp add: ScaleMilliseconds_def Let_def)
      then show ?thesis unfolding split exact [symmetric] g2 Let_def using s by (cases "?M < ?w * unat U + unat p") simp_all
    qed
  qed
qed

lemma rate_units: "unat kMillisecondsTimesRateUnits = 1000000000" "unat kMaximumTransactionRateUnits = 1000000000"
  "unat kScaleUnitsPerOne = 1000000" "unat kMaximumScaleUnits = 1000000000000"
  by (simp_all add: kMillisecondsTimesRateUnits_def kMaximumTransactionRateUnits_def kTransactionRateUnitsPerOne_def
      kScaleUnitsPerOne_def kMaximumScaleUnits_def)

lemma SimulationElapsedBefore_exact:
  assumes "0 < rate" "rate \<le> kMaximumTransactionRateUnits"
  shows "SimulationElapsedBefore rate i =
    (let exact = ceiling_div (unat i * 1000000000) (unat rate) in
     if exact \<le> 9223372036854775807 then Inr (int exact)
     else Inl (RuntimeError ''wallet transaction rate schedule exceeds milliseconds range''))"
proof -
  have r: "0 < unat rate" "unat rate \<le> 1000000000"
    using assms by (simp_all add: word_less_nat_alt word_le_nat_alt rate_units)
  then have "unat rate * 1000000000 < 2 ^ 64" by simp
  then show ?thesis
    using ScaleMilliseconds_exact [OF r(1), of kMillisecondsTimesRateUnits] by (simp add: SimulationElapsedBefore_def rate_units)
qed

lemma unat_of_milliseconds: "0 \<le> d \<Longrightarrow> d \<le> 9223372036854775807 \<Longrightarrow> unat (word_of_int d :: u64) = nat d"
  by (simp add: unat_eq_nat_uint uint_word_of_int_eq take_bit_int_eq_self)

lemma WallDuration_exact:
  assumes "0 < scale" "scale \<le> kMaximumScaleUnits" "0 \<le> d" "d \<le> 9223372036854775807"
  shows "WallDuration scale d =
    (let exact = ceiling_div (nat d * 1000000) (unat scale) in
     if exact \<le> 9223372036854775807 then Inr (int exact)
     else Inl (RuntimeError ''scaled simulation duration exceeds milliseconds range''))"
proof -
  have s: "0 < unat scale" "unat scale \<le> 1000000000000"
    using assms(1,2) by (simp_all add: word_less_nat_alt word_le_nat_alt rate_units)
  then have "unat scale * 1000000 < 2 ^ 64" by simp
  then show ?thesis
    using ScaleMilliseconds_exact [OF s(1), of kScaleUnitsPerOne] assms(3) unat_of_milliseconds [OF assms(3,4)]
    by (simp add: WallDuration_def rate_units)
qed

lemma AttemptLimit_exact:
  assumes "0 < rate" "0 < d" "d \<le> 9223372036854775807"
  shows "WalletTransactionDurationAttemptLimit d rate = Inr limit \<longleftrightarrow>
    nat d * unat rate < 2 ^ 64 \<and> unat limit = ceiling_div (nat d * unat rate) 1000000000"
proof -
  define D where "D = (word_of_int d :: u64)"
  have D: "unat D = nat d" using unat_of_milliseconds [of d] assms(2,3) by (simp add: D_def)
  have r: "0 < unat rate" using assms(1) by (simp add: word_less_nat_alt)
  have guard: "max_u64 div rate < D \<longleftrightarrow> \<not> nat d * unat rate < 2 ^ 64"
    unfolding word_less_nat_alt unat_div_distrib D u64_max div_less_iff_less_mult [OF r] two_to_64 by linarith
  show ?thesis
  proof (cases "nat d * unat rate < 2 ^ 64")
    case False
    then show ?thesis
      using guard assms(2) by (simp add: WalletTransactionDurationAttemptLimit_def Let_def D_def)
  next
    case True
    let ?n = "nat d * unat rate"
    have n: "unat (D * rate) = ?n" using True D by (simp add: u64_mult_exact)
    have q: "unat (D * rate div 1000000000) = ?n div 1000000000" "unat (D * rate mod 1000000000) = ?n mod 1000000000"
      using n by (simp_all add: unat_div_distrib unat_mod_distrib)
    have small: "?n div 1000000000 < 18446744073709551615" using True by simp
    then have "D * rate div 1000000000 \<noteq> max_u64" using q(1) u64_max by (metis less_irrefl)
    then have v: "WalletTransactionDurationAttemptLimit d rate =
        Inr (D * rate div 1000000000 + (if D * rate mod 1000000000 = 0 then 0 else 1))"
      using guard True assms(2) by (simp add: WalletTransactionDurationAttemptLimit_def Let_def D_def)
    have z: "D * rate mod 1000000000 = 0 \<longleftrightarrow> ?n mod 1000000000 = 0" using q(2) by (metis unat_eq_zero)
    have "unat (D * rate div 1000000000 + (if D * rate mod 1000000000 = 0 then 0 else 1)) = ceiling_div ?n 1000000000"
      using ceiling_div_quotient [of 1000000000 ?n] q(1) small unfolding z
      by (subst u64_add_exact) (simp_all split: if_splits)
    then show ?thesis unfolding v using True by (metis sum.inject(2) word_unat_eq_iff)
  qed
qed

lemma ceiling_div_iff:
  assumes "0 < b"
  shows "int (ceiling_div a b) = t \<longleftrightarrow> 0 \<le> t \<and> int a \<le> t * int b \<and> (t - 1) * int b < int a"
proof (cases "0 \<le> t")
  case True
  define c where "c = nat t"
  then have c: "t = int c" using True by simp
  have "ceiling_div a b = c \<longleftrightarrow> ceiling_div a b \<le> c \<and> \<not> (0 < c \<and> ceiling_div a b \<le> c - 1)" by auto
  also have "\<dots> \<longleftrightarrow> a \<le> c * b \<and> \<not> (0 < c \<and> a \<le> (c - 1) * b)" by (simp only: ceiling_div_le_iff [OF assms])
  also have "\<dots> \<longleftrightarrow> int a \<le> t * int b \<and> (t - 1) * int b < int a"
  proof (cases c)
    case 0
    then show ?thesis using assms c by simp
  next
    case (Suc k)
    then have e: "(t - 1) * int b = int ((c - 1) * b)" "t * int b = int (c * b)" using c by (simp_all add: algebra_simps)
    show ?thesis unfolding e of_nat_le_iff of_nat_less_iff using Suc by auto
  qed
  finally show ?thesis using c by simp
qed auto

lemma when_fits:
  "(let exact = n in if exact \<le> m then Inr (int exact) else Inl e) = (Inr t :: int result) \<longleftrightarrow> int n = t \<and> t \<le> int m"
  by auto

text \<open>C28. Scaled durations are exact: transaction \<open>i\<close> at a rate of \<open>rate\<close> millionths per second is due
  after \<open>i * 10^9 / rate\<close> milliseconds rounded up, and a simulation duration takes \<open>10^6 / scale\<close>
  times as long on the wall clock, rounded up. No intermediate product wraps around, and the
  call throws exactly if the result does not fit into a signed 64-bit count.\<close>

theorem scaled_durations_exact:
  assumes "0 < rate" "rate \<le> kMaximumTransactionRateUnits" "0 < scale" "scale \<le> kMaximumScaleUnits"
    and "0 \<le> d" "d < 2 ^ 63"
  shows "(SimulationElapsedBefore rate i = Inr t \<longleftrightarrow>
      0 \<le> t \<and> t < 2 ^ 63 \<and> (t - 1) * uint rate < uint i * 10 ^ 9 \<and> uint i * 10 ^ 9 \<le> t * uint rate) \<and>
    (WallDuration scale d = Inr t \<longleftrightarrow>
      0 \<le> t \<and> t < 2 ^ 63 \<and> (t - 1) * uint scale < d * 10 ^ 6 \<and> d * 10 ^ 6 \<le> t * uint scale)"
proof -
  have pos: "0 < unat rate" "0 < unat scale" using assms(1,3) by (simp_all add: word_less_nat_alt)
  have "d \<le> 9223372036854775807" using assms(6) by simp
  note W = WallDuration_exact [OF assms(3,4,5) this]
  note S = SimulationElapsedBefore_exact [OF assms(1,2)]
  have "int (nat d * 1000000) = d * 10 ^ 6" "int (unat i * 1000000000) = uint i * 10 ^ 9" using assms(5) by simp_all
  then show ?thesis
    unfolding W S when_fits ceiling_div_iff [OF pos(1)] ceiling_div_iff [OF pos(2)] by auto
qed


theorem scaled_durations_exact_witness:
  "SimulationElapsedBefore 3000000 1 = Inr 334 \<and> WallDuration 3000000 1000 = Inr 334"
proof -
  have "(0 :: u64) < 3000000" "(3000000 :: u64) \<le> kMaximumTransactionRateUnits" "(3000000 :: u64) \<le> kMaximumScaleUnits"
    by (simp_all add: kMaximumTransactionRateUnits_def kTransactionRateUnitsPerOne_def kMaximumScaleUnits_def kScaleUnitsPerOne_def)
  then show ?thesis
    using scaled_durations_exact [of 3000000 3000000 1000 1 334] by simp
qed


end
