(* ===== verification/Wallet_Plan.thy ===== *)
theory Wallet_Plan
  imports Peer_Topology Rate_Schedule
begin

text \<open>
  Planning of wallet transactions: \<open>src/wallet_transaction_plan.cpp\<close> and
  \<open>include/bbp/simulator/wallet_transactions_workload.h\<close>. \<open>WalletTransactionPlanner\<close> yields one
  transfer at a time, \<open>WalletTransactionLoadPlanner\<close> a batch that fits the balances of the
  senders. Satoshis are 64-bit words, wallet indexes natural numbers. The generator
  \<open>std::mt19937_64\<close> is a parameter, and so is \<open>std::shuffle\<close>, of which the standard fixes only that
  it permutes its range.
\<close>

unbundle bit_operations_syntax

subsection \<open>Workloads\<close>

datatype ValueDistributionKind = kFixed | kUniform

datatype WalletTransferStrategy =
  kRoundRobin | kRandom | kFanout | kHotspot | kRandomBruteforce | kEqualFanout

definition IsTransactionLoadStrategy :: "WalletTransferStrategy \<Rightarrow> bool" where
  "IsTransactionLoadStrategy strategy \<longleftrightarrow> strategy = kRandomBruteforce \<or> strategy = kEqualFanout"

record AmountDistribution =
  ad_kind :: ValueDistributionKind
  minimum_satoshis :: u64
  maximum_satoshis :: u64

record IntervalDistribution =
  id_kind :: ValueDistributionKind
  id_minimum :: int
  id_maximum :: int

text \<open>The part of a workload that the planners read; \<open>transaction_rate\<close> is its number of
  millionths.\<close>

record WalletTransactionsWorkload =
  wt_strategy :: WalletTransferStrategy
  wt_transaction_count :: nat
  wt_transaction_rate :: "u64 option"
  wt_duration :: "int option"
  wt_amount :: AmountDistribution
  wt_interval :: IntervalDistribution
  wt_fee_satoshis :: u64
  wt_fee_reserve_satoshis :: u64
  wt_retained_balance_basis_points :: "nat option"
  wt_random_seed :: u64
  wt_sender_wallets :: "nat list"
  wt_receiver_wallets :: "nat list"

definition EffectiveWalletTransactionFeeReserveSatoshis :: "WalletTransactionsWorkload \<Rightarrow> u64" where
  "EffectiveWalletTransactionFeeReserveSatoshis workload =
     (if wt_fee_reserve_satoshis workload = 0 then wt_fee_satoshis workload else wt_fee_reserve_satoshis workload)"

record WalletTransactionPlanEntry =
  pe_sender_index :: nat
  pe_receiver_index :: nat
  pe_amount_satoshis :: u64
  pe_interval_before :: int

type_synonym 'g shuffle = "nat list \<Rightarrow> 'g \<Rightarrow> nat list \<times> 'g"

subsection \<open>Helpers\<close>

definition ResolveSelectedWallet ::
    "nat \<Rightarrow> string \<Rightarrow> nat \<Rightarrow> nat set \<times> nat list \<Rightarrow> (nat set \<times> nat list) result" where
  "ResolveSelectedWallet wallet_count field wallet state =
     (let (unique, resolved) = state in
      if wallet = 0 \<or> wallet > wallet_count
      then Inl (RuntimeError (field @ '' wallet index is out of range''))
      else if wallet \<in> unique
      then Inl (RuntimeError (field @ '' contains a duplicate wallet index''))
      else Inr (insert wallet unique, resolved @ [wallet - 1]))"

definition ResolveSelectedWallets :: "nat list \<Rightarrow> nat \<Rightarrow> string \<Rightarrow> nat list result" where
  "ResolveSelectedWallets one_based_wallets wallet_count field =
     bind_result (fold_result (ResolveSelectedWallet wallet_count field) one_based_wallets ({}, [])) (\<lambda>(_, resolved).
       Inr resolved)"

definition ComplementWallets :: "nat \<Rightarrow> nat list \<Rightarrow> nat list" where
  "ComplementWallets wallet_count selected = filter (\<lambda>wallet. wallet \<notin> set selected) [0..<wallet_count]"

definition SampleInclusive :: "'g rng \<Rightarrow> 'g \<Rightarrow> u64 \<Rightarrow> u64 \<Rightarrow> (u64 \<times> 'g) result" where
  "SampleInclusive R g minimum maximum =
     (if minimum = maximum then Inr (minimum, g)
      else let range_count = maximum - minimum + 1 in
        if range_count = 0 then Inr (rng_next R g)
        else case draw_at_least (rng_next R) ((0 - range_count) mod range_count) g of
            None \<Rightarrow> Inl Diverged
          | Some (value, g') \<Rightarrow> Inr (minimum + value mod range_count, g'))"

definition MillisecondsCount :: "int \<Rightarrow> u64 result" where
  "MillisecondsCount value =
     (if value < 0 then Inl (RuntimeError ''wallet transaction interval must not be negative'')
      else Inr (word_of_int value))"

definition CycleIndex :: "u64 \<Rightarrow> nat \<Rightarrow> nat result" where
  "CycleIndex value element_count =
     (if element_count = 0 then Inl (RuntimeError ''wallet transaction cycle must not be empty'')
      else Inr (unat (value mod word_of_nat element_count)))"

definition SampleIndex :: "'g rng \<Rightarrow> 'g \<Rightarrow> nat \<Rightarrow> (nat \<times> 'g) result" where
  "SampleIndex R g element_count =
     (if element_count = 0 then Inl (RuntimeError ''wallet transaction sample must not be empty'')
      else bind_result (SampleInclusive R g 0 (word_of_nat (element_count - 1))) (\<lambda>(value, g').
        Inr (unat value, g')))"

definition RequireDisjointWalletSets :: "nat list \<Rightarrow> nat list \<Rightarrow> unit result" where
  "RequireDisjointWalletSets senders receivers =
     (if list_ex (\<lambda>sender. sender \<in> set receivers) senders
      then Inl (RuntimeError ''transaction load sender_wallets and receiver_wallets must be disjoint'')
      else Inr ())"

definition RetainedBalance :: "u64 \<Rightarrow> u64 \<Rightarrow> u64" where
  "RetainedBalance balance retained_basis_points =
     (let whole = balance div 10000 * retained_basis_points;
          remainder_product = balance mod 10000 * retained_basis_points in
      whole + remainder_product div 10000 + (if remainder_product mod 10000 = 0 then 0 else 1))"

definition SeedForSequenceOffset :: "u64 \<Rightarrow> u64 \<Rightarrow> u64" where
  "SeedForSequenceOffset seed sequence_offset =
     (if sequence_offset = 0 then seed
      else let mixed0 = seed XOR (sequence_offset + 0x9e3779b97f4a7c15);
               mixed1 = (mixed0 XOR drop_bit 30 mixed0) * 0xbf58476d1ce4e5b9;
               mixed2 = (mixed1 XOR drop_bit 27 mixed1) * 0x94d049bb133111eb in
        mixed2 XOR drop_bit 31 mixed2)"

subsection \<open>One transfer at a time\<close>

record 'g WalletTransactionPlanner =
  wp_wallet_count :: nat
  wp_workload :: WalletTransactionsWorkload
  wp_senders :: "nat list"
  wp_receivers :: "nat list"
  wp_shuffled_wallets :: "nat list"
  wp_rng :: 'g
  wp_transaction_index :: u64

definition CheckPlannerRanges :: "nat \<Rightarrow> WalletTransactionsWorkload \<Rightarrow> unit result" where
  "CheckPlannerRanges wallet_count workload =
     (let amount = wt_amount workload; interval = wt_interval workload in
      if wallet_count < 2 then Inl (RuntimeError ''wallet transaction plan requires at least two wallets'')
      else if minimum_satoshis amount = 0 \<or> minimum_satoshis amount > maximum_satoshis amount
      then Inl (RuntimeError ''wallet transaction amount range is invalid'')
      else if ad_kind amount = kFixed \<and> minimum_satoshis amount \<noteq> maximum_satoshis amount
      then Inl (RuntimeError ''fixed wallet transaction amount range must have equal bounds'')
      else bind_result (MillisecondsCount (id_minimum interval)) (\<lambda>minimum_interval.
        bind_result (MillisecondsCount (id_maximum interval)) (\<lambda>maximum_interval.
        if minimum_interval > maximum_interval
        then Inl (RuntimeError ''wallet transaction interval range is invalid'')
        else if id_kind interval = kFixed \<and> minimum_interval \<noteq> maximum_interval
        then Inl (RuntimeError ''fixed wallet transaction interval range must have equal bounds'')
        else Inr ())))"

definition new_WalletTransactionPlanner ::
    "'g rng \<Rightarrow> 'g shuffle \<Rightarrow> nat \<Rightarrow> WalletTransactionsWorkload \<Rightarrow> u64 \<Rightarrow> 'g WalletTransactionPlanner result" where
  "new_WalletTransactionPlanner R shuffle wallet_count workload sequence_offset =
     bind_result (CheckPlannerRanges wallet_count workload) (\<lambda>_.
     let planner = \<lparr>wp_wallet_count = wallet_count, wp_workload = workload, wp_senders = [], wp_receivers = [],
           wp_shuffled_wallets = [0..<wallet_count], wp_rng = rng_seed R (wt_random_seed workload),
           wp_transaction_index = sequence_offset\<rparr> in
     case wt_strategy workload of
       kRoundRobin \<Rightarrow>
         if wt_sender_wallets workload \<noteq> [] \<or> wt_receiver_wallets workload \<noteq> []
         then Inl (RuntimeError ''round_robin wallet transaction plan does not accept wallet selectors'')
         else Inr planner
     | kRandom \<Rightarrow>
         if wt_sender_wallets workload \<noteq> [] \<or> wt_receiver_wallets workload \<noteq> []
         then Inl (RuntimeError ''random wallet transaction plan does not accept wallet selectors'')
         else let (shuffled, g) = shuffle (wp_shuffled_wallets planner) (wp_rng planner) in
           Inr (planner\<lparr>wp_shuffled_wallets := shuffled, wp_rng := g\<rparr>)
     | kFanout \<Rightarrow>
         if wt_receiver_wallets workload \<noteq> []
         then Inl (RuntimeError ''fanout wallet transaction plan does not accept receiver_wallets'')
         else bind_result (ResolveSelectedWallets (wt_sender_wallets workload) wallet_count ''sender_wallets'') (\<lambda>senders.
           let receivers = ComplementWallets wallet_count senders in
           if senders = [] \<or> receivers = []
           then Inl (RuntimeError ''fanout wallet transaction plan requires sender and receiver wallets'')
           else Inr (planner\<lparr>wp_senders := senders, wp_receivers := receivers\<rparr>))
     | kHotspot \<Rightarrow>
         if wt_sender_wallets workload \<noteq> []
         then Inl (RuntimeError ''hotspot wallet transaction plan does not accept sender_wallets'')
         else bind_result (ResolveSelectedWallets (wt_receiver_wallets workload) wallet_count ''receiver_wallets'') (\<lambda>receivers.
           let senders = ComplementWallets wallet_count receivers in
           if senders = [] \<or> receivers = []
           then Inl (RuntimeError ''hotspot wallet transaction plan requires sender and receiver wallets'')
           else Inr (planner\<lparr>wp_senders := senders, wp_receivers := receivers\<rparr>))
     | _ \<Rightarrow> Inl (RuntimeError ''balance-aware transaction load strategy requires the load planner''))"

text \<open>The two wallets of a transfer.\<close>

definition SelectWallets :: "'g WalletTransactionPlanner \<Rightarrow> u64 \<Rightarrow> (nat \<times> nat) result" where
  "SelectWallets planner transaction_index =
     (let senders = wp_senders planner; receivers = wp_receivers planner; shuffled = wp_shuffled_wallets planner in
      case wt_strategy (wp_workload planner) of
        kRoundRobin \<Rightarrow>
          bind_result (CycleIndex transaction_index (wp_wallet_count planner)) (\<lambda>sender_position.
            Inr (shuffled ! sender_position, shuffled ! ((sender_position + 1) mod wp_wallet_count planner)))
      | kRandom \<Rightarrow>
          bind_result (CycleIndex transaction_index (wp_wallet_count planner)) (\<lambda>sender_position.
            Inr (shuffled ! sender_position, shuffled ! ((sender_position + 1) mod wp_wallet_count planner)))
      | kFanout \<Rightarrow>
          bind_result (CycleIndex transaction_index (length receivers)) (\<lambda>receiver.
          bind_result (CycleIndex (transaction_index div word_of_nat (length receivers)) (length senders)) (\<lambda>sender.
            Inr (senders ! sender, receivers ! receiver)))
      | kHotspot \<Rightarrow>
          bind_result (CycleIndex transaction_index (length senders)) (\<lambda>sender.
          bind_result (CycleIndex (transaction_index div word_of_nat (length senders)) (length receivers)) (\<lambda>receiver.
            Inr (senders ! sender, receivers ! receiver)))
      | _ \<Rightarrow> Inl (RuntimeError ''balance-aware transaction load strategy requires the load planner''))"

definition SampleInterval ::
    "'g rng \<Rightarrow> WalletTransactionsWorkload \<Rightarrow> u64 \<Rightarrow> 'g \<Rightarrow> (int \<times> 'g) result" where
  "SampleInterval R workload transaction_index g =
     (if transaction_index = 0 then Inr (0, g)
      else let interval = wt_interval workload in
        bind_result (MillisecondsCount (id_minimum interval)) (\<lambda>minimum_interval.
        bind_result (MillisecondsCount (id_maximum interval)) (\<lambda>maximum_interval.
        bind_result (if id_kind interval = kFixed then Inr (minimum_interval, g)
            else SampleInclusive R g minimum_interval maximum_interval) (\<lambda>(sampled, g').
          if sampled > max_milliseconds
          then Inl (RuntimeError ''wallet transaction interval exceeds milliseconds range'')
          else Inr (uint sampled, g')))))"

text \<open>The index is advanced before anything else can throw.\<close>

definition Next ::
    "'g rng \<Rightarrow> 'g WalletTransactionPlanner \<Rightarrow> 'g WalletTransactionPlanner \<times> WalletTransactionPlanEntry result" where
  "Next R planner =
     (let transaction_index = wp_transaction_index planner; workload = wp_workload planner in
      if transaction_index = max_u64
      then (planner, Inl (RuntimeError ''wallet transaction index exceeds uint64''))
      else let advanced = planner\<lparr>wp_transaction_index := transaction_index + 1\<rparr> in
        case bind_result (SelectWallets planner transaction_index) (\<lambda>(sender, receiver).
          bind_result (if ad_kind (wt_amount workload) = kFixed
              then Inr (minimum_satoshis (wt_amount workload), wp_rng planner)
              else SampleInclusive R (wp_rng planner) (minimum_satoshis (wt_amount workload))
                (maximum_satoshis (wt_amount workload))) (\<lambda>(amount, g).
          bind_result (SampleInterval R workload transaction_index g) (\<lambda>(interval_before, g').
            Inr (\<lparr>pe_sender_index = sender, pe_receiver_index = receiver, pe_amount_satoshis = amount,
              pe_interval_before = interval_before\<rparr>, g')))) of
          Inl e \<Rightarrow> (advanced, Inl e)
        | Inr (entry, g) \<Rightarrow> (advanced\<lparr>wp_rng := g\<rparr>, Inr entry))"

fun PlanTransactions ::
    "'g rng \<Rightarrow> nat \<Rightarrow> 'g WalletTransactionPlanner \<Rightarrow> WalletTransactionPlanEntry list result" where
  "PlanTransactions R 0 planner = Inr []"
| "PlanTransactions R (Suc n) planner =
     (let (planner', entry) = Next R planner in
      bind_result entry (\<lambda>entry. bind_result (PlanTransactions R n planner') (\<lambda>plan. Inr (entry # plan))))"

definition BuildWalletTransactionPlan ::
    "'g rng \<Rightarrow> 'g shuffle \<Rightarrow> nat \<Rightarrow> WalletTransactionsWorkload \<Rightarrow> WalletTransactionPlanEntry list result" where
  "BuildWalletTransactionPlan R shuffle wallet_count workload =
     (if wt_transaction_count workload = 0
      then Inl (RuntimeError ''wallet transaction plan requires at least one transaction'')
      else bind_result (new_WalletTransactionPlanner R shuffle wallet_count workload 0)
        (PlanTransactions R (wt_transaction_count workload)))"

definition ExplicitWalletTransactionAttemptLimit :: "WalletTransactionsWorkload \<Rightarrow> u64 option result" where
  "ExplicitWalletTransactionAttemptLimit workload =
     (if wt_transaction_count workload \<noteq> 0 then Inr (Some (word_of_nat (wt_transaction_count workload)))
      else case wt_duration workload of
          None \<Rightarrow> Inr None
        | Some duration \<Rightarrow>
          case wt_transaction_rate workload of
            None \<Rightarrow> Inl (RuntimeError ''wallet transaction duration requires transaction_rate'')
          | Some rate \<Rightarrow> bind_result (WalletTransactionDurationAttemptLimit duration rate) (\<lambda>limit. Inr (Some limit)))"

subsection \<open>Batches within the balances\<close>

record 'g WalletTransactionLoadPlanner =
  lp_workload :: WalletTransactionsWorkload
  lp_wallet_count :: nat
  lp_senders :: "nat list"
  lp_receivers :: "nat list"
  lp_equal_sender_order :: "nat list"
  lp_rng :: 'g
  lp_equal_sender_cursor :: nat

definition ResolveLoadWallets :: "nat \<Rightarrow> WalletTransactionsWorkload \<Rightarrow> (nat list \<times> nat list) result" where
  "ResolveLoadWallets wallet_count workload =
     (if wt_strategy workload = kRandomBruteforce
      then if wt_sender_wallets workload \<noteq> [] \<or> wt_receiver_wallets workload \<noteq> []
        then Inl (RuntimeError ''random_bruteforce uses every wallet and does not accept wallet selectors'')
        else case wt_retained_balance_basis_points workload of
            None \<Rightarrow> Inl (RuntimeError ''random_bruteforce requires retained_balance_percentage in 0..99.99'')
          | Some retained \<Rightarrow>
            if retained \<ge> 10000
            then Inl (RuntimeError ''random_bruteforce requires retained_balance_percentage in 0..99.99'')
            else Inr ([0..<wallet_count], [])
      else
        bind_result (ResolveSelectedWallets (wt_sender_wallets workload) wallet_count ''sender_wallets'') (\<lambda>senders.
        bind_result (ResolveSelectedWallets (wt_receiver_wallets workload) wallet_count ''receiver_wallets'') (\<lambda>receivers.
        if senders = [] \<or> receivers = []
        then Inl (RuntimeError ''equal_fanout requires explicit sender and receiver wallets'')
        else bind_result (RequireDisjointWalletSets senders receivers) (\<lambda>_. Inr (senders, receivers)))))"

definition new_WalletTransactionLoadPlanner ::
    "'g rng \<Rightarrow> 'g shuffle \<Rightarrow> nat \<Rightarrow> WalletTransactionsWorkload \<Rightarrow> u64 \<Rightarrow> 'g WalletTransactionLoadPlanner result" where
  "new_WalletTransactionLoadPlanner R shuffle wallet_count workload sequence_offset =
     (let amount = wt_amount workload; g = rng_seed R (SeedForSequenceOffset (wt_random_seed workload) sequence_offset) in
      if \<not> IsTransactionLoadStrategy (wt_strategy workload)
      then Inl (RuntimeError ''transaction load planner requires a load strategy'')
      else if wallet_count < 2
      then Inl (RuntimeError ''transaction load planner requires at least two wallets'')
      else if minimum_satoshis amount = 0 \<or> minimum_satoshis amount > maximum_satoshis amount
      then Inl (RuntimeError ''transaction load amount range is invalid'')
      else if wt_fee_satoshis workload = 0
      then Inl (RuntimeError ''transaction load fee must be greater than zero'')
      else bind_result (ResolveLoadWallets wallet_count workload) (\<lambda>(senders, receivers).
        let (order, g') = (if wt_strategy workload = kEqualFanout then shuffle senders g else (senders, g)) in
        Inr \<lparr>lp_workload = workload, lp_wallet_count = wallet_count, lp_senders = senders, lp_receivers = receivers,
          lp_equal_sender_order = order, lp_rng = g', lp_equal_sender_cursor = 0\<rparr>))"

text \<open>The loop over the senders stops when the batch is full.\<close>

fun BruteforceBatch ::
    "'g rng \<Rightarrow> WalletTransactionsWorkload \<Rightarrow> nat \<Rightarrow> nat \<Rightarrow> nat list \<Rightarrow>
     u64 list \<times> 'g \<times> WalletTransactionPlanEntry list \<Rightarrow> (u64 list \<times> 'g \<times> WalletTransactionPlanEntry list) result" where
  "BruteforceBatch R workload wallet_count maximum_entries [] state = Inr state"
| "BruteforceBatch R workload wallet_count maximum_entries (sender # senders) (balances, g, batch) =
     (let fee = EffectiveWalletTransactionFeeReserveSatoshis workload;
          balance = balances ! sender;
          retained = RetainedBalance balance (word_of_nat (the (wt_retained_balance_basis_points workload))) in
      if balance < retained \<or> balance - retained \<le> fee
      then BruteforceBatch R workload wallet_count maximum_entries senders (balances, g, batch)
      else let spendable = balance - retained - fee;
               maximum = min (maximum_satoshis (wt_amount workload)) spendable in
        if maximum < minimum_satoshis (wt_amount workload)
        then BruteforceBatch R workload wallet_count maximum_entries senders (balances, g, batch)
        else bind_result (SampleIndex R g (wallet_count - 1)) (\<lambda>(sampled_receiver, g1).
          bind_result (SampleInclusive R g1 (minimum_satoshis (wt_amount workload)) maximum) (\<lambda>(amount, g2).
          let receiver = (if sampled_receiver \<ge> sender then sampled_receiver + 1 else sampled_receiver);
              batch' = batch @ [\<lparr>pe_sender_index = sender, pe_receiver_index = receiver,
                pe_amount_satoshis = amount, pe_interval_before = 0\<rparr>];
              balances' = balances[sender := balance - amount - fee] in
          if length batch' = maximum_entries then Inr (balances', g2, batch')
          else BruteforceBatch R workload wallet_count maximum_entries senders (balances', g2, batch'))))"

text \<open>The scan for a sender that can pay every receiver the same amount: the position of the
  sender and the amount.\<close>

fun FindEqualSender ::
    "WalletTransactionsWorkload \<Rightarrow> u64 \<Rightarrow> u64 \<Rightarrow> nat list \<Rightarrow> nat \<Rightarrow> u64 list \<Rightarrow> nat list \<Rightarrow> (nat \<times> u64) option result" where
  "FindEqualSender workload total_fees receiver_count order cursor balances [] = Inr None"
| "FindEqualSender workload total_fees receiver_count order cursor balances (offset # offsets) =
     (let position = (cursor + offset) mod length order;
          balance = balances ! (order ! position) in
      if balance \<le> total_fees
      then FindEqualSender workload total_fees receiver_count order cursor balances offsets
      else let fee_safe_budget = balance - total_fees;
               amount = min (maximum_satoshis (wt_amount workload)) (fee_safe_budget div receiver_count) in
        if amount < minimum_satoshis (wt_amount workload)
        then FindEqualSender workload total_fees receiver_count order cursor balances offsets
        else if amount > (max_u64 - total_fees) div receiver_count
        then Inl (RuntimeError ''equal fan-out amount total overflows uint64'')
        else Inr (Some (position, amount)))"

definition EqualFanoutBatch ::
    "'g WalletTransactionLoadPlanner \<Rightarrow> u64 list \<Rightarrow>
     ('g WalletTransactionLoadPlanner \<times> u64 list \<times> WalletTransactionPlanEntry list option) result" where
  "EqualFanoutBatch planner balances =
     (let workload = lp_workload planner; order = lp_equal_sender_order planner;
          fee = EffectiveWalletTransactionFeeReserveSatoshis workload;
          receiver_count = word_of_nat (length (lp_receivers planner)) in
      if fee > max_u64 div receiver_count
      then Inl (RuntimeError ''equal fan-out fee total overflows uint64'')
      else let total_fees = fee * receiver_count in
        bind_result (FindEqualSender workload total_fees receiver_count order (lp_equal_sender_cursor planner) balances
            [0..<length order]) (\<lambda>found.
          case found of
            None \<Rightarrow> Inr (planner, balances, None)
          | Some (position, amount) \<Rightarrow>
            let sender = order ! position; total_amount = amount * receiver_count in
            Inr (planner\<lparr>lp_equal_sender_cursor := (position + 1) mod length order\<rparr>,
                 balances[sender := balances ! sender - total_fees - total_amount],
                 Some (map (\<lambda>receiver. \<lparr>pe_sender_index = sender, pe_receiver_index = receiver,
                   pe_amount_satoshis = amount, pe_interval_before = 0\<rparr>) (lp_receivers planner)))))"

text \<open>A planner and the balances that its caller lends it; a call that throws has changed neither.\<close>

definition NextBatch ::
    "'g rng \<Rightarrow> 'g WalletTransactionLoadPlanner \<Rightarrow> u64 list \<Rightarrow> nat \<Rightarrow>
     ('g WalletTransactionLoadPlanner \<times> u64 list) \<times> WalletTransactionPlanEntry list option result" where
  "NextBatch R planner available_balances maximum_entries =
     (let workload = lp_workload planner in
      if maximum_entries = 0
      then ((planner, available_balances),
        Inl (RuntimeError ''transaction load planner maximum entries must be positive''))
      else if list_ex (\<lambda>sender. sender \<ge> length available_balances) (lp_senders planner)
      then ((planner, available_balances),
        Inl (RuntimeError ''transaction load balance ledger does not cover every sender''))
      else if wt_strategy workload = kRandomBruteforce
      then (case BruteforceBatch R workload (lp_wallet_count planner) maximum_entries (lp_senders planner)
              (available_balances, lp_rng planner, []) of
            Inl e \<Rightarrow> ((planner, available_balances), Inl e)
          | Inr (balances, g, batch) \<Rightarrow>
            ((planner\<lparr>lp_rng := g\<rparr>, balances), Inr (if batch = [] then None else Some batch)))
      else if wt_strategy workload \<noteq> kEqualFanout
      then ((planner, available_balances), Inl (RuntimeError ''unknown transaction load strategy''))
      else case EqualFanoutBatch planner available_balances of
            Inl e \<Rightarrow> ((planner, available_balances), Inl e)
          | Inr (planner', balances, batch) \<Rightarrow> ((planner', balances), Inr batch))"

definition batch_size :: "'g WalletTransactionLoadPlanner \<Rightarrow> nat" where
  "batch_size planner = (if wt_strategy (lp_workload planner) = kEqualFanout
     then length (lp_receivers planner) else lp_wallet_count planner)"

subsection \<open>Sampling\<close>

lemma SampleInclusive_BoundedRandom:
  assumes "minimum \<noteq> maximum" "maximum - minimum + 1 \<noteq> (0 :: u64)"
  shows "SampleInclusive R g minimum maximum =
    bind_result (BoundedRandom R g (maximum - minimum + 1)) (\<lambda>(n, g'). Inr (minimum + n, g'))"
proof -
  have "max_u64 - (maximum - minimum + 1) + 1 = 0 - (maximum - minimum + 1)" by simp
  then show ?thesis
    using assms by (simp add: SampleInclusive_def BoundedRandom_def Let_def split: option.splits)
qed

lemma BoundedRandom_less:
  assumes "BoundedRandom R g b = Inr (n, g')"
  shows "unat n < unat b"
  using assms by (auto simp: BoundedRandom_def Let_def unat_mod unat_gt_0 split: if_splits option.splits)

lemma range_count_exact:
  fixes minimum maximum :: u64
  assumes "minimum \<le> maximum" "maximum - minimum + 1 \<noteq> 0"
  shows "unat (maximum - minimum + 1) = unat maximum - unat minimum + 1"
proof -
  have "maximum - minimum \<noteq> max_u64" using assms(2) by auto
  from u64_succ_exact [OF this] show ?thesis by (simp add: u64_sub_exact [OF assms(1)])
qed

lemma SampleInclusive_range:
  assumes "minimum \<le> maximum" "SampleInclusive R g minimum maximum = Inr (v, g')"
  shows "minimum \<le> v \<and> v \<le> maximum"
proof (cases "minimum = maximum \<or> maximum - minimum + 1 = 0")
  case True
  then show ?thesis
  proof
    assume "minimum = maximum" then show ?thesis using assms by (simp add: SampleInclusive_def)
  next
    assume "maximum - minimum + 1 = 0"
    then have "maximum - minimum = max_u64" by (simp add: eq_neg_iff_add_eq_0)
    then have "unat maximum - unat minimum = unat max_u64" by (metis assms(1) u64_sub_exact)
    then have "unat minimum = 0" "unat maximum = 18446744073709551615"
      using u64_lt [of maximum] unfolding u64_max by linarith+
    then show ?thesis using u64_lt [of v] unfolding word_le_nat_alt by linarith
  qed
next
  case False
  then obtain n where n: "BoundedRandom R g (maximum - minimum + 1) = Inr (n, g')" "v = minimum + n"
    using assms(2) by (auto simp: SampleInclusive_BoundedRandom result_simps)
  have "unat n \<le> unat maximum - unat minimum"
    using BoundedRandom_less [OF n(1)] range_count_exact [OF assms(1)] False by simp
  moreover have le: "unat minimum \<le> unat maximum" using assms(1) by (simp add: word_le_nat_alt)
  ultimately have "unat minimum + unat n \<le> unat maximum" by linarith
  moreover from this have "unat v = unat minimum + unat n"
    unfolding n(2) using u64_lt [of maximum] by (intro u64_add_exact) linarith
  ultimately show ?thesis by (simp add: word_le_nat_alt)
qed

lemma SampleInclusive_returns:
  assumes "recurrent R"
  shows "\<exists>v g'. SampleInclusive R g minimum maximum = Inr (v, g')"
proof (cases "minimum = maximum \<or> maximum - minimum + 1 = 0")
  case True
  then show ?thesis by (auto simp: SampleInclusive_def)
next
  case False
  then obtain n g' where "BoundedRandom R g (maximum - minimum + 1) = Inr (n, g')"
    using BoundedRandom_returns [OF assms] by blast
  with False show ?thesis by (simp add: SampleInclusive_BoundedRandom)
qed

lemma SampleIndex_less:
  assumes "SampleIndex R g n = Inr (i, g')" "n < 2 ^ 64"
  shows "i < n"
proof -
  obtain v where v: "0 < n" "SampleInclusive R g 0 (word_of_nat (n - 1)) = Inr (v, g')" "i = unat v"
    using assms(1) by (auto simp: SampleIndex_def result_simps split: if_splits)
  have "v \<le> word_of_nat (n - 1)" using SampleInclusive_range [OF _ v(2)] by simp
  then have "unat v \<le> n - 1" using assms(2) by (simp add: word_le_nat_alt unat_of_nat)
  then show ?thesis using v by simp
qed

subsection \<open>Wallet lists and balances\<close>

lemma ResolveSelectedWallets_loop:
  "fold_result (ResolveSelectedWallet n field) wallets (seen, done) = Inr (seen', done') \<longleftrightarrow>
     (\<forall>w\<in>set wallets. 0 < w \<and> w \<le> n) \<and> distinct wallets \<and> set wallets \<inter> seen = {} \<and>
     seen' = seen \<union> set wallets \<and> done' = done @ map (\<lambda>w. w - 1) wallets"
proof (induction wallets arbitrary: seen "done")
  case (Cons w wallets)
  show ?case
  proof (cases "0 < w \<and> w \<le> n \<and> w \<notin> seen")
    case True
    then have "ResolveSelectedWallet n field w (seen, done) = Inr (insert w seen, done @ [w - 1])"
      by (simp add: ResolveSelectedWallet_def)
    then show ?thesis using True by (auto simp: Cons.IH)
  next
    case False
    then have "\<exists>e. ResolveSelectedWallet n field w (seen, done) = Inl e" by (auto simp: ResolveSelectedWallet_def)
    then show ?thesis using False by auto
  qed
qed auto

lemma ResolveSelectedWallets_Inr:
  assumes "ResolveSelectedWallets wallets n field = Inr resolved"
  shows "distinct resolved" "set resolved \<subseteq> {..<n}"
proof -
  obtain seen where f: "fold_result (ResolveSelectedWallet n field) wallets ({}, []) = Inr (seen, resolved)"
    using assms by (auto simp: ResolveSelectedWallets_def result_simps)
  then have r: "resolved = map (\<lambda>w. w - 1) wallets" "distinct wallets" "\<forall>w\<in>set wallets. 0 < w \<and> w \<le> n"
    unfolding ResolveSelectedWallets_loop by simp_all
  show "set resolved \<subseteq> {..<n}" using r(1,3) by auto
  have "inj_on (\<lambda>w. w - 1) (set wallets)" using r(3) by (intro inj_onI) (metis Suc_pred')
  then show "distinct resolved" using r(1,2) by (simp add: distinct_map)
qed

lemma RetainedBalance_exact:
  assumes "unat points \<le> 10000"
  shows "unat (RetainedBalance balance points) = ceiling_div (unat balance * unat points) 10000"
    "RetainedBalance balance points \<le> balance"
proof -
  let ?b = "unat balance" and ?p = "unat points"
  have split: "ceiling_div (?b * ?p) 10000 = ?b div 10000 * ?p + ceiling_div (?b mod 10000 * ?p) 10000"
    by (rule ceiling_div_split) simp
  have total: "ceiling_div (?b * ?p) 10000 \<le> ?b"
    using assms by (subst ceiling_div_le_iff) simp_all
  have fits: "?b div 10000 * ?p < 18446744073709551616" using split total u64_lt [of balance] by linarith
  have w: "unat (balance div 10000 * points) = ?b div 10000 * ?p"
    using fits by (simp add: u64_mult_exact unat_div_distrib)
  define q where "q = (balance mod 10000 * points) div 10000 + (if (balance mod 10000 * points) mod 10000 = 0 then 0 else 1)"
  have "unat (10000 :: u64) * ?p < 2 ^ 64" "?p \<le> 9223372036854775807" "0 < unat (10000 :: u64)" using assms by simp_all
  then have q: "unat q = ceiling_div (?b mod 10000 * ?p) 10000"
    unfolding q_def using partial_exact [of 10000 points balance] by simp
  have "RetainedBalance balance points = balance div 10000 * points + q"
    by (simp add: RetainedBalance_def Let_def q_def add.assoc)
  moreover have "unat (balance div 10000 * points + q) = unat (balance div 10000 * points) + unat q"
    by (rule u64_add_exact) (use split total w q u64_lt [of balance] in linarith)
  ultimately show "unat (RetainedBalance balance points) = ceiling_div (?b * ?p) 10000" using split w q by simp
  then show "RetainedBalance balance points \<le> balance" using total by (simp add: word_le_nat_alt)
qed

subsection \<open>Transfers\<close>

text \<open>What the standard promises of \<open>std::shuffle\<close>.\<close>

definition shuffle_permutes :: "'g shuffle \<Rightarrow> bool" where
  "shuffle_permutes shuffle \<longleftrightarrow> (\<forall>xs g. mset (fst (shuffle xs g)) = mset xs)"

text \<open>The counts of a \<open>std::size_t\<close> and of \<open>std::chrono::milliseconds\<close> are within their types.\<close>

definition in_types :: "nat \<Rightarrow> WalletTransactionsWorkload \<Rightarrow> bool" where
  "in_types wallet_count workload \<longleftrightarrow> wallet_count < 2 ^ 64 \<and>
     id_minimum (wt_interval workload) < 2 ^ 63 \<and> id_maximum (wt_interval workload) < 2 ^ 63"

definition wf_ranges :: "WalletTransactionsWorkload \<Rightarrow> bool" where
  "wf_ranges workload \<longleftrightarrow>
     0 < minimum_satoshis (wt_amount workload) \<and> minimum_satoshis (wt_amount workload) \<le> maximum_satoshis (wt_amount workload) \<and>
     0 \<le> id_minimum (wt_interval workload) \<and> id_minimum (wt_interval workload) \<le> id_maximum (wt_interval workload)"

definition cycles_all :: "WalletTransferStrategy \<Rightarrow> bool" where
  "cycles_all strategy \<longleftrightarrow> strategy = kRoundRobin \<or> strategy = kRandom"

definition wf_selection :: "'g WalletTransactionPlanner \<Rightarrow> bool" where
  "wf_selection p \<longleftrightarrow> (let n = wp_wallet_count p; workload = wp_workload p in
     cycles_all (wt_strategy workload) \<and> distinct (wp_shuffled_wallets p) \<and> set (wp_shuffled_wallets p) = {..<n} \<or>
     wt_strategy workload \<in> {kFanout, kHotspot} \<and> wp_senders p \<noteq> [] \<and> wp_receivers p \<noteq> [] \<and>
       length (wp_senders p) \<le> n \<and> length (wp_receivers p) \<le> n \<and>
       set (wp_senders p) \<union> set (wp_receivers p) \<subseteq> {..<n} \<and> set (wp_senders p) \<inter> set (wp_receivers p) = {})"

definition wf_planner :: "'g WalletTransactionPlanner \<Rightarrow> bool" where
  "wf_planner p \<longleftrightarrow> 2 \<le> wp_wallet_count p \<and> in_types (wp_wallet_count p) (wp_workload p) \<and>
     wf_ranges (wp_workload p) \<and> wf_selection p"

lemma CheckPlannerRanges_Inr:
  assumes "CheckPlannerRanges n workload = Inr ()" "in_types n workload"
  shows "2 \<le> n \<and> wf_ranges workload"
proof -
  let ?i = "wt_interval workload"
  have b: "\<not> n < 2" "0 \<le> id_minimum ?i" "0 \<le> id_maximum ?i" "word_of_int (id_minimum ?i) \<le> (word_of_int (id_maximum ?i) :: u64)"
    "0 < minimum_satoshis (wt_amount workload)" "minimum_satoshis (wt_amount workload) \<le> maximum_satoshis (wt_amount workload)"
    using assms(1)
    by (auto simp: CheckPlannerRanges_def MillisecondsCount_def Let_def result_simps word_neq_0_conv split: if_splits)
  have "unat (word_of_int (id_minimum ?i) :: u64) = nat (id_minimum ?i)" "unat (word_of_int (id_maximum ?i) :: u64) = nat (id_maximum ?i)"
    using unat_of_milliseconds b(2,3) assms(2) by (simp_all add: in_types_def)
  then have "id_minimum ?i \<le> id_maximum ?i" using b(2,3,4) by (simp add: word_le_nat_alt)
  then show ?thesis using b by (simp add: wf_ranges_def)
qed

lemma ComplementWallets_facts:
  assumes "set selected \<subseteq> {..<n}"
  shows "set (ComplementWallets n selected) = {..<n} - set selected" "distinct (ComplementWallets n selected)"
    "length (ComplementWallets n selected) \<le> n"
  using length_filter_le [of "\<lambda>w. w \<notin> set selected" "[0..<n]"] by (auto simp: ComplementWallets_def)

lemma resolved_length:
  assumes "distinct xs" "set xs \<subseteq> {..<n}"
  shows "length xs \<le> n"
  using card_mono [OF _ assms(2)] distinct_card [OF assms(1)] by simp

lemma new_planner_wf:
  assumes "new_WalletTransactionPlanner R shuffle n workload offset = Inr p" "shuffle_permutes shuffle" "in_types n workload"
  shows "wf_planner p \<and> wp_wallet_count p = n \<and> wp_workload p = workload \<and> wp_transaction_index p = offset"
proof -
  have ok: "CheckPlannerRanges n workload = Inr ()"
    using assms(1) by (auto simp: new_WalletTransactionPlanner_def result_simps)
  then have r: "2 \<le> n" "wf_ranges workload" using CheckPlannerRanges_Inr assms(3) by blast+
  have perm: "distinct (fst (shuffle [0..<n] g))" "set (fst (shuffle [0..<n] g)) = {..<n}" for g
  proof -
    have m: "mset (fst (shuffle [0..<n] g)) = mset [0..<n]" using assms(2) by (simp add: shuffle_permutes_def)
    show "distinct (fst (shuffle [0..<n] g))" using mset_eq_imp_distinct_iff [OF m] by simp
    show "set (fst (shuffle [0..<n] g)) = {..<n}" unfolding mset_eq_setD [OF m] by (simp add: atLeast0LessThan)
  qed
  have sel: "wf_selection p" and same: "wp_wallet_count p = n" "wp_workload p = workload" "wp_transaction_index p = offset"
  proof -
    have "wf_selection p \<and> wp_wallet_count p = n \<and> wp_workload p = workload \<and> wp_transaction_index p = offset"
    proof (cases "wt_strategy workload")
      case kRoundRobin
      then show ?thesis using assms(1) ok
        by (auto simp: new_WalletTransactionPlanner_def wf_selection_def cycles_all_def Let_def split: if_splits)
    next
      case kRandom
      then show ?thesis using assms(1) ok perm
        by (auto simp: new_WalletTransactionPlanner_def wf_selection_def cycles_all_def Let_def split_def split: if_splits)
    next
      case kFanout
      then obtain senders where s: "ResolveSelectedWallets (wt_sender_wallets workload) n ''sender_wallets'' = Inr senders"
        using assms(1) ok by (auto simp: new_WalletTransactionPlanner_def result_simps Let_def split: if_splits)
      note S = ResolveSelectedWallets_Inr [OF s] and C = ComplementWallets_facts [OF ResolveSelectedWallets_Inr(2) [OF s]]
      show ?thesis using assms(1) ok kFanout s S C resolved_length [OF S]
        by (auto simp: new_WalletTransactionPlanner_def wf_selection_def Let_def split: if_splits)
    next
      case kHotspot
      then obtain receivers where s: "ResolveSelectedWallets (wt_receiver_wallets workload) n ''receiver_wallets'' = Inr receivers"
        using assms(1) ok by (auto simp: new_WalletTransactionPlanner_def result_simps Let_def split: if_splits)
      note S = ResolveSelectedWallets_Inr [OF s] and C = ComplementWallets_facts [OF ResolveSelectedWallets_Inr(2) [OF s]]
      show ?thesis using assms(1) ok kHotspot s S C resolved_length [OF S]
        by (auto simp: new_WalletTransactionPlanner_def wf_selection_def Let_def split: if_splits)
    qed (use assms(1) ok in \<open>auto simp: new_WalletTransactionPlanner_def Let_def\<close>)
    then show "wf_selection p" "wp_wallet_count p = n" "wp_workload p = workload" "wp_transaction_index p = offset" by simp_all
  qed
  show ?thesis unfolding wf_planner_def same using sel r assms(3) by simp
qed

lemma CycleIndex_Inr:
  assumes "0 < n" "n < 2 ^ 64"
  shows "CycleIndex v n = Inr (unat v mod n)"
  using assms by (simp add: CycleIndex_def unat_mod_distrib unat_of_nat)

lemma SelectWallets_cycle:
  assumes "wf_planner p" "cycles_all (wt_strategy (wp_workload p))"
  shows "SelectWallets p i = Inr (wp_shuffled_wallets p ! (unat i mod wp_wallet_count p),
    wp_shuffled_wallets p ! (Suc (unat i) mod wp_wallet_count p))"
proof -
  have "(unat i mod wp_wallet_count p + 1) mod wp_wallet_count p = Suc (unat i) mod wp_wallet_count p"
    by (simp add: mod_Suc_eq)
  then show ?thesis
    using assms CycleIndex_Inr [of "wp_wallet_count p" i]
    by (auto simp: SelectWallets_def cycles_all_def wf_planner_def in_types_def Let_def)
qed

lemma SelectWallets_valid:
  assumes wf: "wf_planner p"
  shows "\<exists>s r. SelectWallets p i = Inr (s, r) \<and> s < wp_wallet_count p \<and> r < wp_wallet_count p \<and> s \<noteq> r"
proof (cases "cycles_all (wt_strategy (wp_workload p))")
  case True
  let ?n = "wp_wallet_count p" and ?w = "wp_shuffled_wallets p"
  have n: "2 \<le> ?n" "distinct ?w" "set ?w = {..<?n}"
    using wf True by (auto simp: wf_planner_def wf_selection_def cycles_all_def Let_def)
  then have len: "length ?w = ?n" using distinct_card [OF n(2)] by simp
  define a where "a = unat i mod ?n"
  define b where "b = Suc (unat i) mod ?n"
  have "b = (if Suc a = ?n then 0 else Suc a)" using n(1) by (simp add: a_def b_def mod_Suc)
  moreover have ab: "a < ?n" "b < ?n" using n(1) by (simp_all add: a_def b_def)
  ultimately have "a \<noteq> b" using n(1) by (auto split: if_splits)
  then have "?w ! a \<noteq> ?w ! b" using nth_eq_iff_index_eq [OF n(2)] ab len by simp
  moreover have "?w ! a < ?n" "?w ! b < ?n" using n(3) nth_mem ab len by (metis lessThan_iff)+
  ultimately show ?thesis unfolding SelectWallets_cycle [OF wf True] a_def [symmetric] b_def [symmetric] by blast
next
  case False
  let ?s = "wp_senders p" and ?r = "wp_receivers p"
  have sel: "wt_strategy (wp_workload p) \<in> {kFanout, kHotspot}" "?s \<noteq> []" "?r \<noteq> []"
    "length ?s < 2 ^ 64" "length ?r < 2 ^ 64" "set ?s \<union> set ?r \<subseteq> {..<wp_wallet_count p}" "set ?s \<inter> set ?r = {}"
    using wf False by (auto simp: wf_planner_def wf_selection_def in_types_def Let_def)
  then have c: "CycleIndex v (length ?s) = Inr (unat v mod length ?s)" "CycleIndex v (length ?r) = Inr (unat v mod length ?r)" for v
    using CycleIndex_Inr by simp_all
  have ok: "?s ! (k mod length ?s) \<in> set ?s" "?r ! (k mod length ?r) \<in> set ?r" for k using sel(2,3) by simp_all
  have "\<exists>j k. SelectWallets p i = Inr (?s ! (j mod length ?s), ?r ! (k mod length ?r))"
    using sel(1) c by (auto simp: SelectWallets_def Let_def)
  then show ?thesis using ok sel(6,7) by (metis Un_iff disjoint_iff lessThan_iff subsetD)
qed

definition valid_transfer :: "nat \<Rightarrow> WalletTransactionsWorkload \<Rightarrow> WalletTransactionPlanEntry \<Rightarrow> bool" where
  "valid_transfer n workload entry \<longleftrightarrow>
     pe_sender_index entry < n \<and> pe_receiver_index entry < n \<and> pe_sender_index entry \<noteq> pe_receiver_index entry \<and>
     minimum_satoshis (wt_amount workload) \<le> pe_amount_satoshis entry \<and>
     pe_amount_satoshis entry \<le> maximum_satoshis (wt_amount workload) \<and>
     (pe_interval_before entry = 0 \<or> id_minimum (wt_interval workload) \<le> pe_interval_before entry \<and>
        pe_interval_before entry \<le> id_maximum (wt_interval workload))"

lemma SelectWallets_update [simp]:
  "SelectWallets (p\<lparr>wp_transaction_index := i, wp_rng := g\<rparr>) = SelectWallets p"
  by (rule ext) (simp add: SelectWallets_def Let_def split: WalletTransferStrategy.split)

lemma wf_planner_update [simp]:
  "wf_planner (p\<lparr>wp_transaction_index := i, wp_rng := g\<rparr>) = wf_planner p"
  by (simp add: wf_planner_def wf_selection_def Let_def)

lemma sampled_between:
  assumes "minimum \<le> maximum" "(if fixed then Inr (minimum, g) else SampleInclusive R g minimum maximum) = Inr (v, g')"
  shows "minimum \<le> v \<and> v \<le> maximum"
proof (cases fixed)
  case False
  then show ?thesis using SampleInclusive_range [OF assms(1)] assms(2) by simp
qed (use assms in simp)

lemma SampleInterval_valid:
  assumes "recurrent R" "wf_ranges workload" "in_types n workload"
  shows "\<exists>t g'. SampleInterval R workload i g = Inr (t, g') \<and>
    (t = 0 \<or> id_minimum (wt_interval workload) \<le> t \<and> t \<le> id_maximum (wt_interval workload))"
proof (cases "i = 0")
  case False
  let ?min = "id_minimum (wt_interval workload)" and ?max = "id_maximum (wt_interval workload)"
  have r: "0 \<le> ?min" "?min \<le> ?max" "?max \<le> 9223372036854775807"
    using assms(2,3) by (simp_all add: wf_ranges_def in_types_def)
  have u: "uint (word_of_int ?min :: u64) = ?min" "uint (word_of_int ?max :: u64) = ?max"
    using r by (simp_all add: uint_word_of_int_eq take_bit_int_eq_self)
  then have le: "(word_of_int ?min :: u64) \<le> word_of_int ?max" using r by (simp add: word_le_def)
  obtain v g' where v: "(if id_kind (wt_interval workload) = kFixed then Inr (word_of_int ?min, g)
      else SampleInclusive R g (word_of_int ?min) (word_of_int ?max)) = Inr (v, g')"
    using SampleInclusive_returns [OF assms(1)] by fastforce
  then have "word_of_int ?min \<le> v" "v \<le> word_of_int ?max"
    using sampled_between [OF le v] by simp_all
  then have b: "?min \<le> uint v" "uint v \<le> ?max" using u by (simp_all add: word_le_def)
  then have "\<not> v > max_milliseconds" using r by (simp add: word_less_def max_milliseconds_def)
  then have "SampleInterval R workload i g = Inr (uint v, g')"
    using v False r by (simp add: SampleInterval_def MillisecondsCount_def Let_def)
  then show ?thesis using b by blast
qed (simp add: SampleInterval_def)

lemma Next_valid:
  assumes wf: "wf_planner p" and R: "recurrent R" and i: "wp_transaction_index p \<noteq> max_u64"
  shows "\<exists>entry g. Next R p = (p\<lparr>wp_transaction_index := wp_transaction_index p + 1, wp_rng := g\<rparr>, Inr entry) \<and>
    valid_transfer (wp_wallet_count p) (wp_workload p) entry \<and>
    SelectWallets p (wp_transaction_index p) = Inr (pe_sender_index entry, pe_receiver_index entry)"
proof -
  let ?w = "wp_workload p" and ?i = "wp_transaction_index p"
  let ?min = "minimum_satoshis (wt_amount ?w)" and ?max = "maximum_satoshis (wt_amount ?w)"
  have le: "?min \<le> ?max" and ranges: "wf_ranges ?w" "in_types (wp_wallet_count p) ?w"
    using wf by (simp_all add: wf_planner_def wf_ranges_def)
  obtain s r where sr: "SelectWallets p ?i = Inr (s, r)" "s < wp_wallet_count p" "r < wp_wallet_count p" "s \<noteq> r"
    using SelectWallets_valid [OF wf] by blast
  obtain a g where a: "(if ad_kind (wt_amount ?w) = kFixed then Inr (?min, wp_rng p)
      else SampleInclusive R (wp_rng p) ?min ?max) = Inr (a, g)"
    using SampleInclusive_returns [OF R] by fastforce
  then have ar: "?min \<le> a" "a \<le> ?max" using sampled_between [OF le a] by simp_all
  obtain t g' where t: "SampleInterval R ?w ?i g = Inr (t, g')"
    "t = 0 \<or> id_minimum (wt_interval ?w) \<le> t \<and> t \<le> id_maximum (wt_interval ?w)"
    using SampleInterval_valid [OF R ranges] by blast
  let ?entry = "\<lparr>pe_sender_index = s, pe_receiver_index = r, pe_amount_satoshis = a, pe_interval_before = t\<rparr>"
  have "Next R p = (p\<lparr>wp_transaction_index := ?i + 1, wp_rng := g'\<rparr>, Inr ?entry)"
    using i by (simp add: Next_def Let_def sr(1) a t(1))
  moreover have "valid_transfer (wp_wallet_count p) ?w ?entry"
    using sr ar t(2) by (simp add: valid_transfer_def)
  moreover have "SelectWallets p ?i = Inr (pe_sender_index ?entry, pe_receiver_index ?entry)" using sr(1) by simp
  ultimately show ?thesis by blast
qed

lemma PlanTransactions_valid:
  assumes R: "recurrent R"
  shows "wf_planner p \<Longrightarrow> unat (wp_transaction_index p) + k < 2 ^ 64 \<Longrightarrow>
    \<exists>plan. PlanTransactions R k p = Inr plan \<and> length plan = k \<and>
      (\<forall>i<k. valid_transfer (wp_wallet_count p) (wp_workload p) (plan ! i) \<and>
        SelectWallets p (wp_transaction_index p + word_of_nat i) =
          Inr (pe_sender_index (plan ! i), pe_receiver_index (plan ! i)))"
proof (induction k arbitrary: p)
  case (Suc k)
  have i: "wp_transaction_index p \<noteq> max_u64"
  proof
    assume "wp_transaction_index p = max_u64"
    then show False using Suc.prems(2) by simp
  qed
  obtain entry g where e: "Next R p = (p\<lparr>wp_transaction_index := wp_transaction_index p + 1, wp_rng := g\<rparr>, Inr entry)"
    "valid_transfer (wp_wallet_count p) (wp_workload p) entry"
    "SelectWallets p (wp_transaction_index p) = Inr (pe_sender_index entry, pe_receiver_index entry)"
    using Next_valid [OF Suc.prems(1) R i] by blast
  let ?p = "p\<lparr>wp_transaction_index := wp_transaction_index p + 1, wp_rng := g\<rparr>"
  have "unat (wp_transaction_index ?p) + k < 2 ^ 64" using u64_succ_exact [OF i] Suc.prems(2) by simp
  then obtain plan where plan: "PlanTransactions R k ?p = Inr plan" "length plan = k"
    "\<forall>i<k. valid_transfer (wp_wallet_count p) (wp_workload p) (plan ! i) \<and>
      SelectWallets p (wp_transaction_index p + 1 + word_of_nat i) = Inr (pe_sender_index (plan ! i), pe_receiver_index (plan ! i))"
    using Suc.IH [of ?p] Suc.prems(1) by auto
  have "valid_transfer (wp_wallet_count p) (wp_workload p) ((entry # plan) ! i) \<and>
      SelectWallets p (wp_transaction_index p + word_of_nat i) =
        Inr (pe_sender_index ((entry # plan) ! i), pe_receiver_index ((entry # plan) ! i))" if "i < Suc k" for i
    using that e(2,3) plan(3) by (cases i) (auto simp: add.assoc)
  moreover have "PlanTransactions R (Suc k) p = Inr (entry # plan)" using e(1) plan(1) by simp
  ultimately show ?case using plan(2) by (intro exI [of _ "entry # plan"]) simp
qed simp

text \<open>In a window of \<open>n\<close> consecutive transfers every position of the cycle occurs.\<close>

lemma cycle_window:
  assumes "0 < n"
  shows "(\<lambda>i. (start + i) mod n) ` {..<n} = {..<n :: nat}"
proof
  show "(\<lambda>i. (start + i) mod n) ` {..<n} \<subseteq> {..<n}" using assms by auto
  show "{..<n} \<subseteq> (\<lambda>i. (start + i) mod n) ` {..<n}"
  proof
    fix j assume j: "j \<in> {..<n}"
    let ?i = "(j + n - start mod n) mod n"
    have "(start + ?i) mod n = (start mod n + (j + n - start mod n)) mod n" by (metis mod_add_eq mod_mod_trivial)
    also have "start mod n + (j + n - start mod n) = j + n" using mod_less_divisor [OF assms, of start] by linarith
    finally have "(start + ?i) mod n = j" using j by simp
    then show "j \<in> (\<lambda>i. (start + i) mod n) ` {..<n}" using assms by (intro image_eqI [of _ _ ?i]) simp_all
  qed
qed

lemma shuffled_window:
  assumes "wf_planner p" "cycles_all (wt_strategy (wp_workload p))"
  shows "(\<lambda>i. wp_shuffled_wallets p ! ((start + i) mod wp_wallet_count p)) ` {..<wp_wallet_count p} = {..<wp_wallet_count p}"
proof -
  let ?n = "wp_wallet_count p" and ?w = "wp_shuffled_wallets p"
  have n: "0 < ?n" "distinct ?w" "set ?w = {..<?n}"
    using assms by (auto simp: wf_planner_def wf_selection_def cycles_all_def Let_def)
  then have "length ?w = ?n" using distinct_card [OF n(2)] by simp
  then have "(!) ?w ` {..<?n} = {..<?n}" using n(3) by (metis nth_image take_all order_refl lessThan_atLeast0)
  then have "(!) ?w ` ((\<lambda>i. (start + i) mod ?n) ` {..<?n}) = {..<?n}" unfolding cycle_window [OF n(1)] .
  then show ?thesis by (simp add: image_image)
qed

text \<open>C30. A planner that was constructed plans any number of transfers below the end of the index
  range without an exception. Every transfer leads from one wallet to another one, within the
  ranges of amounts and intervals, and under the round-robin and the random strategy every wallet
  sends exactly once and receives exactly once in any \<open>n\<close> consecutive transfers of \<open>n\<close> wallets.\<close>

theorem planned_transfers:
  assumes new: "new_WalletTransactionPlanner R shuffle n workload offset = Inr planner"
    and lib: "shuffle_permutes shuffle" "recurrent R" and types: "in_types n workload" "unat offset + k < 2 ^ 64"
  shows "\<exists>plan. PlanTransactions R k planner = Inr plan \<and> length plan = k \<and>
    (\<forall>entry\<in>set plan. valid_transfer n workload entry) \<and>
    (cycles_all (wt_strategy workload) \<longrightarrow> (\<forall>start. start + n \<le> k \<longrightarrow>
       pe_sender_index ` set (take n (drop start plan)) = {..<n} \<and>
       pe_receiver_index ` set (take n (drop start plan)) = {..<n}))"
proof -
  have wf: "wf_planner planner" and same: "wp_wallet_count planner = n" "wp_workload planner = workload"
    "wp_transaction_index planner = offset"
    using new_planner_wf [OF new lib(1) types(1)] by simp_all
  obtain plan where plan: "PlanTransactions R k planner = Inr plan" "length plan = k"
    "\<And>i. i < k \<Longrightarrow> valid_transfer n workload (plan ! i)"
    "\<And>i. i < k \<Longrightarrow> SelectWallets planner (offset + word_of_nat i) = Inr (pe_sender_index (plan ! i), pe_receiver_index (plan ! i))"
    using PlanTransactions_valid [OF lib(2) wf, of k] types(2) same by auto
  have "pe_sender_index ` set (take n (drop start plan)) = {..<n} \<and> pe_receiver_index ` set (take n (drop start plan)) = {..<n}"
    if cyc: "cycles_all (wt_strategy workload)" and fits: "start + n \<le> k" for start
  proof -
    have cyc': "cycles_all (wt_strategy (wp_workload planner))" using cyc same by simp
    have "set (take n (drop start plan)) = (\<lambda>i. plan ! (start + i)) ` {..<n}"
      using nth_image [of n "drop start plan"] fits plan(2) by (simp add: atLeast0LessThan)
    moreover have idx: "unat (offset + word_of_nat (start + i)) = unat offset + (start + i)" if "i < n" for i
    proof -
      have lt: "unat offset + (start + i) < 18446744073709551616" using that fits types(2) by simp
      then have "unat (word_of_nat (start + i) :: u64) = start + i" by (simp add: unat_of_nat del: of_nat_add)
      with lt show ?thesis using u64_add_exact [of offset "word_of_nat (start + i)"] by (simp del: of_nat_add)
    qed
    have at: "pe_sender_index (plan ! (start + i)) = wp_shuffled_wallets planner ! ((unat offset + start + i) mod n)"
      "pe_receiver_index (plan ! (start + i)) = wp_shuffled_wallets planner ! ((Suc (unat offset + start) + i) mod n)" if "i < n" for i
      using plan(4) [of "start + i"] that fits idx [OF that]
      unfolding SelectWallets_cycle [OF wf cyc'] same(1) by (simp_all add: add.assoc)
    have "pe_sender_index ` ((\<lambda>i. plan ! (start + i)) ` {..<n}) =
        (\<lambda>i. wp_shuffled_wallets planner ! ((unat offset + start + i) mod n)) ` {..<n}"
      "pe_receiver_index ` ((\<lambda>i. plan ! (start + i)) ` {..<n}) =
        (\<lambda>i. wp_shuffled_wallets planner ! ((Suc (unat offset + start) + i) mod n)) ` {..<n}"
      unfolding image_image by (rule image_cong; simp add: at)+
    ultimately show ?thesis
      using shuffled_window [OF wf cyc', of "unat offset + start"] shuffled_window [OF wf cyc', of "Suc (unat offset + start)"]
      unfolding same(1) by (simp only:)
  qed
  moreover have "\<forall>entry\<in>set plan. valid_transfer n workload entry" using plan(2,3) by (metis in_set_conv_nth)
  ultimately show ?thesis using plan(1,2) by blast
qed

subsection \<open>Batches\<close>

definition wf_load_planner :: "'g WalletTransactionLoadPlanner \<Rightarrow> bool" where
  "wf_load_planner p \<longleftrightarrow> (let n = lp_wallet_count p; workload = lp_workload p in
     2 \<le> n \<and> n < 2 ^ 64 \<and> 0 < minimum_satoshis (wt_amount workload) \<and>
     minimum_satoshis (wt_amount workload) \<le> maximum_satoshis (wt_amount workload) \<and> 0 < wt_fee_satoshis workload \<and>
     distinct (lp_senders p) \<and> set (lp_senders p) \<subseteq> {..<n} \<and>
     (wt_strategy workload = kRandomBruteforce \<and>
        (\<exists>points<10000. wt_retained_balance_basis_points workload = Some points) \<or>
      wt_strategy workload = kEqualFanout \<and> lp_receivers p \<noteq> [] \<and> distinct (lp_receivers p) \<and>
        set (lp_receivers p) \<subseteq> {..<n} \<and> set (lp_senders p) \<inter> set (lp_receivers p) = {} \<and>
        mset (lp_equal_sender_order p) = mset (lp_senders p)))"

lemma RequireDisjoint_Inr: "RequireDisjointWalletSets senders receivers = Inr u \<longleftrightarrow> set senders \<inter> set receivers = {}"
  by (auto simp: RequireDisjointWalletSets_def list_ex_iff)

lemma new_load_planner_wf:
  assumes "new_WalletTransactionLoadPlanner R shuffle n workload offset = Inr p" "shuffle_permutes shuffle" "n < 2 ^ 64"
  shows "wf_load_planner p \<and> lp_wallet_count p = n \<and> lp_workload p = workload"
proof -
  obtain senders receivers where w: "ResolveLoadWallets n workload = Inr (senders, receivers)"
    using assms(1) by (auto simp: new_WalletTransactionLoadPlanner_def Let_def result_simps split: if_splits)
  have guards: "IsTransactionLoadStrategy (wt_strategy workload)" "2 \<le> n" "minimum_satoshis (wt_amount workload) \<noteq> 0"
    "minimum_satoshis (wt_amount workload) \<le> maximum_satoshis (wt_amount workload)" "wt_fee_satoshis workload \<noteq> 0"
    using assms(1) by (auto simp: new_WalletTransactionLoadPlanner_def Let_def split: if_splits)
  define s where "s = (if wt_strategy workload = kEqualFanout
    then shuffle senders (rng_seed R (SeedForSequenceOffset (wt_random_seed workload) offset))
    else (senders, rng_seed R (SeedForSequenceOffset (wt_random_seed workload) offset)))"
  have p: "p = \<lparr>lp_workload = workload, lp_wallet_count = n, lp_senders = senders, lp_receivers = receivers,
      lp_equal_sender_order = fst s, lp_rng = snd s, lp_equal_sender_cursor = 0\<rparr>"
    using assms(1) w by (auto simp: new_WalletTransactionLoadPlanner_def Let_def s_def split_def split: if_splits)
  have order: "mset (fst s) = mset senders" using assms(2) by (simp add: s_def shuffle_permutes_def)
  show ?thesis
  proof (cases "wt_strategy workload = kRandomBruteforce")
    case True
    then have "senders = [0..<n]" "\<exists>points<10000. wt_retained_balance_basis_points workload = Some points"
      using w by (auto simp: ResolveLoadWallets_def split: if_splits option.splits)
    then show ?thesis using True guards assms(3) unfolding p by (auto simp: wf_load_planner_def Let_def word_neq_0_conv)
  next
    case False
    then have e: "wt_strategy workload = kEqualFanout" using guards(1) by (simp add: IsTransactionLoadStrategy_def)
    have r: "ResolveSelectedWallets (wt_sender_wallets workload) n ''sender_wallets'' = Inr senders"
      "ResolveSelectedWallets (wt_receiver_wallets workload) n ''receiver_wallets'' = Inr receivers"
      "receivers \<noteq> []" "set senders \<inter> set receivers = {}"
      using w False by (auto simp: ResolveLoadWallets_def result_simps RequireDisjoint_Inr split: if_splits)
    show ?thesis
      using e guards assms(3) r(3,4) order ResolveSelectedWallets_Inr [OF r(1)] ResolveSelectedWallets_Inr [OF r(2)]
      unfolding p by (simp add: wf_load_planner_def Let_def word_neq_0_conv)
  qed
qed

text \<open>A batch pays out of the balances: what a sender's entries cost, fees included, is what its
  balance loses.\<close>

definition spent :: "u64 \<Rightarrow> WalletTransactionPlanEntry list \<Rightarrow> nat \<Rightarrow> nat" where
  "spent fee batch sender =
     (\<Sum>entry\<leftarrow>filter (\<lambda>entry. pe_sender_index entry = sender) batch. unat (pe_amount_satoshis entry) + unat fee)"

definition pays :: "u64 \<Rightarrow> WalletTransactionPlanEntry list \<Rightarrow> u64 list \<Rightarrow> u64 list \<Rightarrow> bool" where
  "pays fee batch balances balances' \<longleftrightarrow> length balances' = length balances \<and>
     (\<forall>s<length balances. unat (balances ! s) = unat (balances' ! s) + spent fee batch s)"

definition load_entry_ok :: "nat \<Rightarrow> WalletTransactionsWorkload \<Rightarrow> WalletTransactionPlanEntry \<Rightarrow> bool" where
  "load_entry_ok n workload entry \<longleftrightarrow>
     pe_sender_index entry < n \<and> pe_receiver_index entry < n \<and> pe_sender_index entry \<noteq> pe_receiver_index entry \<and>
     minimum_satoshis (wt_amount workload) \<le> pe_amount_satoshis entry \<and>
     pe_amount_satoshis entry \<le> maximum_satoshis (wt_amount workload)"

lemma spent_simps [simp]:
  "spent fee [] s = 0"
  "spent fee (entry # batch) s =
     (if pe_sender_index entry = s then unat (pe_amount_satoshis entry) + unat fee else 0) + spent fee batch s"
  by (simp_all add: spent_def)

lemma spent_none: "s \<notin> pe_sender_index ` set batch \<Longrightarrow> spent fee batch s = 0"
  by (induction batch) auto

text \<open>The payment of one sender under the brute-force strategy.\<close>

lemma bruteforce_payment:
  fixes balance retained fee amount :: u64
  assumes "\<not> (balance < retained \<or> balance - retained \<le> fee)" "amount \<le> balance - retained - fee"
  shows "unat balance = unat (balance - amount - fee) + (unat amount + unat fee)" "retained \<le> balance - amount - fee"
proof -
  have r: "retained \<le> balance" "fee < balance - retained" using assms(1) by auto
  have 1: "unat (balance - retained) = unat balance - unat retained" by (rule u64_sub_exact [OF r(1)])
  have 2: "unat (balance - retained - fee) = unat (balance - retained) - unat fee"
    by (rule u64_sub_exact) (use r(2) in simp)
  have n: "unat retained \<le> unat balance" "unat fee < unat (balance - retained)" "unat amount \<le> unat (balance - retained - fee)"
    using r assms(2) by (simp_all add: word_le_nat_alt word_less_nat_alt)
  have 3: "unat (balance - amount) = unat balance - unat amount"
    by (rule u64_sub_exact) (use n 1 2 in \<open>simp add: word_le_nat_alt\<close>)
  have 4: "unat (balance - amount - fee) = unat (balance - amount) - unat fee"
    by (rule u64_sub_exact) (use n 1 2 3 in \<open>simp add: word_le_nat_alt\<close>)
  show "unat balance = unat (balance - amount - fee) + (unat amount + unat fee)" using n 1 2 3 4 by linarith
  have "unat retained \<le> unat (balance - amount - fee)" using n 1 2 3 4 by linarith
  then show "retained \<le> balance - amount - fee" by (simp add: word_le_nat_alt)
qed

lemma receiver_other:
  fixes sampled sender n :: nat
  assumes "sampled < n - 1" "sender < n"
  shows "(if sender \<le> sampled then sampled + 1 else sampled) < n" "(if sender \<le> sampled then sampled + 1 else sampled) \<noteq> sender"
  using assms by auto

text \<open>What one pass over the senders has done: the entries it added and the balances it left.\<close>

definition bruteforce_pass ::
    "WalletTransactionsWorkload \<Rightarrow> nat \<Rightarrow> nat list \<Rightarrow> u64 list \<Rightarrow> WalletTransactionPlanEntry list \<Rightarrow> u64 list \<Rightarrow> bool" where
  "bruteforce_pass workload n senders balances added balances' \<longleftrightarrow>
     subseq (map pe_sender_index added) senders \<and> list_all (load_entry_ok n workload) added \<and>
     pays (EffectiveWalletTransactionFeeReserveSatoshis workload) added balances balances' \<and>
     (\<forall>entry\<in>set added. RetainedBalance (balances ! pe_sender_index entry)
        (word_of_nat (the (wt_retained_balance_basis_points workload))) \<le> balances' ! pe_sender_index entry)"

lemma bruteforce_pass_Nil: "bruteforce_pass workload n senders balances [] balances"
  by (simp add: bruteforce_pass_def pays_def)

lemma bruteforce_pass_skip:
  "bruteforce_pass workload n senders balances added balances' \<Longrightarrow>
    bruteforce_pass workload n (sender # senders) balances added balances'"
  by (auto simp: bruteforce_pass_def)

lemma bruteforce_pass_Cons:
  assumes rest: "bruteforce_pass workload n senders (balances[sender := b]) added balances'"
    and fresh: "sender \<notin> set senders" and s: "sender < length balances" "pe_sender_index entry = sender"
    and entry: "load_entry_ok n workload entry"
    and b: "unat (balances ! sender) = unat b + (unat (pe_amount_satoshis entry) +
        unat (EffectiveWalletTransactionFeeReserveSatoshis workload))"
      "RetainedBalance (balances ! sender) (word_of_nat (the (wt_retained_balance_basis_points workload))) \<le> b"
  shows "bruteforce_pass workload n (sender # senders) balances (entry # added) balances'"
proof -
  let ?fee = "EffectiveWalletTransactionFeeReserveSatoshis workload"
  have sub: "subseq (map pe_sender_index added) senders"
    and p: "length balances' = length balances" "\<forall>t<length balances. unat (balances[sender := b] ! t) = unat (balances' ! t) + spent ?fee added t"
    and retained: "\<forall>entry\<in>set added. RetainedBalance (balances[sender := b] ! pe_sender_index entry)
        (word_of_nat (the (wt_retained_balance_basis_points workload))) \<le> balances' ! pe_sender_index entry"
    using rest by (auto simp: bruteforce_pass_def pays_def)
  have "set (map pe_sender_index added) \<subseteq> set senders" by (rule subsetI) (erule list_emb_set [OF sub], simp)
  then have none: "sender \<notin> pe_sender_index ` set added" using fresh by auto
  have "unat b = unat (balances' ! sender)" using p(2) s(1) spent_none [OF none] by force
  then have same: "balances' ! sender = b" by (metis word_unat_eq_iff)
  have "pays ?fee (entry # added) balances balances'"
    unfolding pays_def
  proof (intro conjI allI impI)
    fix t assume t: "t < length balances"
    show "unat (balances ! t) = unat (balances' ! t) + spent ?fee (entry # added) t"
      using p(2) t b(1) same spent_none [OF none] s by (cases "t = sender") auto
  qed (simp add: p(1))
  moreover have "\<forall>e\<in>set (entry # added). RetainedBalance (balances ! pe_sender_index e)
      (word_of_nat (the (wt_retained_balance_basis_points workload))) \<le> balances' ! pe_sender_index e"
  proof
    fix e assume e: "e \<in> set (entry # added)"
    show "RetainedBalance (balances ! pe_sender_index e)
        (word_of_nat (the (wt_retained_balance_basis_points workload))) \<le> balances' ! pe_sender_index e"
    proof (cases "e \<in> set added")
      case True
      then have "sender \<noteq> pe_sender_index e" using none by blast
      then have "balances[sender := b] ! pe_sender_index e = balances ! pe_sender_index e" by simp
      then show ?thesis using retained True by metis
    qed (use e b(2) same s(2) in simp)
  qed
  ultimately show ?thesis
    using sub s(2) entry rest by (simp add: bruteforce_pass_def)
qed

lemma BruteforceBatch_pass:
  assumes n: "2 \<le> n" "n < 2 ^ 64" and range: "minimum_satoshis (wt_amount workload) \<le> maximum_satoshis (wt_amount workload)"
  shows "BruteforceBatch R workload n limit senders (balances, g, batch) = Inr (balances', g', batch') \<Longrightarrow>
    distinct senders \<Longrightarrow> set senders \<subseteq> {..<length balances} \<Longrightarrow> set senders \<subseteq> {..<n} \<Longrightarrow> length batch < limit \<Longrightarrow>
    \<exists>added. batch' = batch @ added \<and> length batch' \<le> limit \<and> bruteforce_pass workload n senders balances added balances'"
proof (induction senders arbitrary: balances g batch)
  case Nil
  then show ?case using bruteforce_pass_Nil by auto
next
  case (Cons sender senders)
  let ?fee = "EffectiveWalletTransactionFeeReserveSatoshis workload"
  let ?balance = "balances ! sender"
  let ?retained = "RetainedBalance ?balance (word_of_nat (the (wt_retained_balance_basis_points workload)))"
  let ?max = "min (maximum_satoshis (wt_amount workload)) (?balance - ?retained - ?fee)"
  let ?min = "minimum_satoshis (wt_amount workload)"
  show ?case
  proof (cases "(?balance < ?retained \<or> ?balance - ?retained \<le> ?fee) \<or> ?max < ?min")
    case True
    then have "BruteforceBatch R workload n limit senders (balances, g, batch) = Inr (balances', g', batch')"
      using Cons.prems(1) by (auto simp: Let_def split: if_splits)
    then show ?thesis using Cons.IH [of balances g batch] Cons.prems bruteforce_pass_skip by fastforce
  next
    case False
    then obtain sampled g1 amount g2 where sampled: "SampleIndex R g (n - 1) = Inr (sampled, g1)"
      and amount: "SampleInclusive R g1 ?min ?max = Inr (amount, g2)"
      using Cons.prems(1) by (auto simp: Let_def result_simps split: if_splits)
    let ?receiver = "if sampled \<ge> sender then sampled + 1 else sampled"
    let ?entry = "\<lparr>pe_sender_index = sender, pe_receiver_index = ?receiver, pe_amount_satoshis = amount, pe_interval_before = 0\<rparr>"
    let ?b = "?balance - amount - ?fee"
    have rest: "(if length (batch @ [?entry]) = limit then Inr (balances[sender := ?b], g2, batch @ [?entry])
        else BruteforceBatch R workload n limit senders (balances[sender := ?b], g2, batch @ [?entry])) = Inr (balances', g', batch')"
      using Cons.prems(1) False sampled amount by (simp add: Let_def)
    have "?min \<le> ?max" using False not_le by blast
    then have a: "?min \<le> amount" "amount \<le> maximum_satoshis (wt_amount workload)" "amount \<le> ?balance - ?retained - ?fee"
      using SampleInclusive_range [OF _ amount] by auto
    have "sampled < n - 1" by (rule SampleIndex_less [OF sampled]) (use n in simp)
    note receiver = receiver_other [OF this, of sender]
    have entry: "load_entry_ok n workload ?entry" using a receiver Cons.prems(4) by (simp add: load_entry_ok_def)
    have nf: "\<not> (?balance < ?retained \<or> ?balance - ?retained \<le> ?fee)" using False by blast
    note pay = bruteforce_payment [OF nf a(3)]
    have "\<exists>added. batch' = (batch @ [?entry]) @ added \<and> length batch' \<le> limit \<and>
        bruteforce_pass workload n senders (balances[sender := ?b]) added balances'"
    proof (cases "length (batch @ [?entry]) = limit")
      case True
      then show ?thesis using rest bruteforce_pass_Nil by auto
    next
      case False
      then show ?thesis using rest Cons.IH [of "balances[sender := ?b]" g2 "batch @ [?entry]"] Cons.prems by auto
    qed
    then obtain added where added: "batch' = batch @ ?entry # added" "length batch' \<le> limit"
      "bruteforce_pass workload n senders (balances[sender := ?b]) added balances'" by auto
    have "bruteforce_pass workload n (sender # senders) balances (?entry # added) balances'"
      by (rule bruteforce_pass_Cons [OF added(3) _ _ _ entry]) (use Cons.prems pay in simp_all)
    then show ?thesis using added(1,2) by blast
  qed
qed

lemma SampleIndex_returns: "recurrent R \<Longrightarrow> 0 < n \<Longrightarrow> \<exists>i g'. SampleIndex R g n = Inr (i, g')"
  using SampleInclusive_returns [of R g 0 "word_of_nat (n - 1)"] by (auto simp: SampleIndex_def)

lemma BruteforceBatch_returns:
  assumes "recurrent R" "2 \<le> n"
  shows "\<exists>s. BruteforceBatch R workload n limit senders state = Inr s"
proof (induction senders arbitrary: state)
  case (Cons sender senders)
  obtain balances g batch where state: "state = (balances, g, batch)" by (cases state)
  obtain i g1 where i: "SampleIndex R g (n - 1) = Inr (i, g1)"
    using SampleIndex_returns [OF assms(1), of "n - 1" g] assms(2) by auto
  let ?balance = "balances ! sender"
  let ?retained = "RetainedBalance ?balance (word_of_nat (the (wt_retained_balance_basis_points workload)))"
  let ?max = "min (maximum_satoshis (wt_amount workload))
    (?balance - ?retained - EffectiveWalletTransactionFeeReserveSatoshis workload)"
  obtain v g2 where v: "SampleInclusive R g1 (minimum_satoshis (wt_amount workload)) ?max = Inr (v, g2)"
    using SampleInclusive_returns [OF assms(1)] by blast
  show ?case unfolding state BruteforceBatch.simps Let_def i bind_result.simps case_prod_conv v using Cons.IH by (simp split: if_split)
qed auto

lemma FindEqualSender_returns:
  assumes "0 < unat rc" "order \<noteq> []"
  shows "\<exists>found. FindEqualSender workload tf rc order cursor balances offsets = Inr found \<and>
    (\<forall>position amount. found = Some (position, amount) \<longrightarrow> position < length order \<and>
       tf < balances ! (order ! position) \<and> minimum_satoshis (wt_amount workload) \<le> amount \<and>
       amount \<le> maximum_satoshis (wt_amount workload) \<and>
       unat amount * unat rc + unat tf \<le> unat (balances ! (order ! position)))"
proof (induction offsets)
  case (Cons offset offsets)
  define position where "position = (cursor + offset) mod length order"
  define balance where "balance = balances ! (order ! position)"
  define amount where "amount = min (maximum_satoshis (wt_amount workload)) ((balance - tf) div rc)"
  have eq: "FindEqualSender workload tf rc order cursor balances (offset # offsets) =
      (if balance \<le> tf \<or> amount < minimum_satoshis (wt_amount workload)
       then FindEqualSender workload tf rc order cursor balances offsets
       else if amount > (max_u64 - tf) div rc then Inl (RuntimeError ''equal fan-out amount total overflows uint64'')
       else Inr (Some (position, amount)))"
    by (auto simp: Let_def position_def balance_def amount_def)
  show ?case
  proof (cases "balance \<le> tf \<or> amount < minimum_satoshis (wt_amount workload)")
    case True
    then show ?thesis unfolding eq using Cons.IH by (simp only: if_True)
  next
    case False
    then have tf: "tf \<le> balance" "tf < balance" "minimum_satoshis (wt_amount workload) \<le> amount" by auto
    have budget: "unat (balance - tf) = unat balance - unat tf" by (rule u64_sub_exact [OF tf(1)])
    have le: "unat amount \<le> (unat balance - unat tf) div unat rc"
      using budget by (simp add: amount_def min_def word_le_nat_alt unat_div_distrib split: if_splits)
    then have product: "unat amount * unat rc \<le> unat balance - unat tf"
      using assms(1) by (simp add: less_eq_div_iff_mult_less_eq)
    have "unat balance - unat tf \<le> 18446744073709551615 - unat tf" using u64_lt [of balance] by linarith
    then have "unat amount \<le> (18446744073709551615 - unat tf) div unat rc" using le div_le_mono order_trans by blast
    moreover have "unat (max_u64 - tf) = 18446744073709551615 - unat tf" by (subst u64_sub_exact) simp_all
    ultimately have "\<not> amount > (max_u64 - tf) div rc" by (simp add: word_less_nat_alt unat_div_distrib)
    moreover have "unat tf \<le> unat balance" using tf(1) by (simp add: word_le_nat_alt)
    then have "unat amount * unat rc + unat tf \<le> unat balance" using product by linarith
    moreover have "amount \<le> maximum_satoshis (wt_amount workload)" by (simp add: amount_def)
    moreover have "position < length order" using assms(2) by (simp add: position_def)
    ultimately show ?thesis unfolding eq using False tf by (simp add: balance_def [symmetric])
  qed
qed simp

lemma spent_fanout:
  "spent fee (map (\<lambda>receiver. \<lparr>pe_sender_index = sender, pe_receiver_index = receiver, pe_amount_satoshis = amount,
     pe_interval_before = 0\<rparr>) receivers) s = (if s = sender then length receivers * (unat amount + unat fee) else 0)"
  by (induction receivers) auto

text \<open>What a batch of the equal fan-out strategy looks like.\<close>

definition fanout_batch :: "nat list \<Rightarrow> WalletTransactionPlanEntry list \<Rightarrow> bool" where
  "fanout_batch receivers batch \<longleftrightarrow> map pe_receiver_index batch = receivers \<and>
     (\<exists>sender amount. \<forall>entry\<in>set batch. pe_sender_index entry = sender \<and> pe_amount_satoshis entry = amount)"

lemma EqualFanoutBatch_valid:
  assumes wf: "wf_load_planner p" and e: "wt_strategy (lp_workload p) = kEqualFanout"
    and cover: "set (lp_senders p) \<subseteq> {..<length balances}" "lp_senders p \<noteq> []"
    and fits: "unat (EffectiveWalletTransactionFeeReserveSatoshis (lp_workload p)) * length (lp_receivers p) < 2 ^ 64"
  shows "\<exists>p' balances' found. EqualFanoutBatch p balances = Inr (p', balances', found) \<and> wf_load_planner p' \<and>
    lp_workload p' = lp_workload p \<and> (case found of None \<Rightarrow> balances' = balances
      | Some batch \<Rightarrow> batch \<noteq> [] \<and> list_all (load_entry_ok (lp_wallet_count p) (lp_workload p)) batch \<and>
          pays (EffectiveWalletTransactionFeeReserveSatoshis (lp_workload p)) batch balances balances' \<and>
          fanout_batch (lp_receivers p) batch)"
proof -
  let ?w = "lp_workload p" and ?order = "lp_equal_sender_order p" and ?receivers = "lp_receivers p"
  define fee where "fee = EffectiveWalletTransactionFeeReserveSatoshis ?w"
  define rc where "rc = (word_of_nat (length ?receivers) :: u64)"
  have w: "?receivers \<noteq> []" "distinct ?receivers" "set ?receivers \<subseteq> {..<lp_wallet_count p}"
    "set (lp_senders p) \<subseteq> {..<lp_wallet_count p}" "set (lp_senders p) \<inter> set ?receivers = {}"
    "mset ?order = mset (lp_senders p)" "lp_wallet_count p < 2 ^ 64"
    using wf e by (auto simp: wf_load_planner_def Let_def)
  have "length ?receivers < 2 ^ 64" using resolved_length [OF w(2,3)] w(7) by linarith
  then have rc: "unat rc = length ?receivers" "0 < unat rc" using w(1) by (simp_all add: rc_def unat_of_nat)
  have order: "set ?order = set (lp_senders p)" "?order \<noteq> []"
    using mset_eq_setD [OF w(6)] w(6) cover(2) by auto
  have guard: "\<not> max_u64 div rc < fee"
  proof -
    have "unat fee * unat rc \<le> 18446744073709551615" using fits rc(1) by (simp add: fee_def)
    then have "unat fee \<le> 18446744073709551615 div unat rc" using rc(2) by (simp add: less_eq_div_iff_mult_less_eq)
    then show ?thesis by (simp add: word_less_nat_alt unat_div_distrib)
  qed
  have tf: "unat (fee * rc) = unat fee * length ?receivers"
    using fits rc(1) u64_mult_exact [of fee rc] by (simp add: fee_def)
  obtain found where found: "FindEqualSender ?w (fee * rc) rc ?order (lp_equal_sender_cursor p) balances [0..<length ?order] = Inr found"
    and spec: "\<And>position amount. found = Some (position, amount) \<Longrightarrow> position < length ?order \<and>
       minimum_satoshis (wt_amount ?w) \<le> amount \<and> amount \<le> maximum_satoshis (wt_amount ?w) \<and>
       unat amount * unat rc + unat (fee * rc) \<le> unat (balances ! (?order ! position))"
    using FindEqualSender_returns [OF rc(2) order(2), of ?w "fee * rc" "lp_equal_sender_cursor p" balances "[0..<length ?order]"]
    by blast
  show ?thesis
  proof (cases found)
    case None
    then have "EqualFanoutBatch p balances = Inr (p, balances, None)"
      using guard found by (simp add: EqualFanoutBatch_def Let_def fee_def rc_def)
    then show ?thesis using wf by simp
  next
    case (Some pa)
    obtain position amount where pa: "found = Some (position, amount)" using Some by (cases pa) simp
    note S = spec [OF pa]
    let ?sender = "?order ! position"
    let ?batch = "map (\<lambda>receiver. \<lparr>pe_sender_index = ?sender, pe_receiver_index = receiver, pe_amount_satoshis = amount,
      pe_interval_before = 0\<rparr>) ?receivers"
    let ?b = "balances ! ?sender - fee * rc - amount * rc"
    let ?p = "p\<lparr>lp_equal_sender_cursor := (position + 1) mod length ?order\<rparr>"
    have sender: "?sender \<in> set (lp_senders p)" using S order(1) nth_mem by blast
    have lt: "?sender < length balances" using sender cover(1) by auto
    have product: "unat (amount * rc) = unat amount * length ?receivers"
    proof -
      have "unat amount * unat rc < 2 ^ 64" using S u64_lt [of "balances ! ?sender"] unfolding two_to_64 by linarith
      then show ?thesis using u64_mult_exact [of amount rc] rc(1) by simp
    qed
    have fit: "unat (amount * rc) + unat (fee * rc) \<le> unat (balances ! ?sender)" using S product rc(1) by simp
    have 1: "unat (balances ! ?sender - fee * rc) = unat (balances ! ?sender) - unat (fee * rc)"
      by (rule u64_sub_exact) (use fit in \<open>simp add: word_le_nat_alt\<close>)
    have 2: "unat ?b = unat (balances ! ?sender - fee * rc) - unat (amount * rc)"
      by (rule u64_sub_exact) (unfold word_le_nat_alt, use fit 1 in linarith)
    have "unat (balances ! ?sender) = unat ?b + (unat (amount * rc) + unat (fee * rc))" using fit 1 2 by linarith
    then have total: "unat (balances ! ?sender) = unat ?b + length ?receivers * (unat amount + unat fee)"
      unfolding product tf by (simp add: algebra_simps)
    have "pays fee ?batch balances (balances[?sender := ?b])"
      unfolding pays_def spent_fanout using total lt by (auto simp: nth_list_update)
    moreover have "list_all (load_entry_ok (lp_wallet_count p) ?w) ?batch"
      using S sender w(3,4,5) by (auto simp: list_all_iff load_entry_ok_def)
    moreover have "fanout_batch ?receivers ?batch" by (simp add: fanout_batch_def comp_def)
    moreover have "EqualFanoutBatch p balances = Inr (?p, balances[?sender := ?b], Some ?batch)"
      using guard found pa by (simp add: EqualFanoutBatch_def Let_def fee_def rc_def)
    moreover have "wf_load_planner ?p" using wf by (simp add: wf_load_planner_def)
    ultimately show ?thesis using w(1) unfolding fee_def [symmetric] by (intro exI [of _ ?p] exI [of _ "balances[?sender := ?b]"] exI [of _ "Some ?batch"]) simp
  qed
qed

text \<open>What a batch of the brute-force strategy looks like: one entry per sender at most, and the
  share of the balance that was to be retained is still there.\<close>

definition bruteforce_batch :: "WalletTransactionsWorkload \<Rightarrow> nat \<Rightarrow> u64 list \<Rightarrow> u64 list \<Rightarrow> WalletTransactionPlanEntry list \<Rightarrow> bool" where
  "bruteforce_batch workload limit balances balances' batch \<longleftrightarrow> length batch \<le> limit \<and> distinct (map pe_sender_index batch) \<and>
     (\<forall>entry\<in>set batch. unat (balances ! pe_sender_index entry) * the (wt_retained_balance_basis_points workload)
        \<le> unat (balances' ! pe_sender_index entry) * 10000)"

lemma pays_Nil: "pays fee [] balances balances' \<longleftrightarrow> balances' = balances"
proof
  assume "pays fee [] balances balances'"
  then have "length balances' = length balances" "\<forall>s<length balances. balances' ! s = balances ! s"
    by (auto simp: pays_def word_unat_eq_iff)
  then show "balances' = balances" by (intro nth_equalityI) auto
qed (simp add: pays_def)

lemma bruteforce_pass_batch:
  assumes pass: "bruteforce_pass workload n senders balances batch balances'" and d: "distinct senders" "length batch \<le> limit"
    and points: "wt_retained_balance_basis_points workload = Some points" "points < 10000"
  shows "bruteforce_batch workload limit balances balances' batch"
proof -
  have sub: "subseq (map pe_sender_index batch) senders" using pass by (simp add: bruteforce_pass_def)
  have "unat (balances ! pe_sender_index entry) * points \<le> unat (balances' ! pe_sender_index entry) * 10000"
    if "entry \<in> set batch" for entry
  proof -
    let ?b = "balances ! pe_sender_index entry"
    have le: "RetainedBalance ?b (word_of_nat points) \<le> balances' ! pe_sender_index entry"
      using pass that points(1) by (simp add: bruteforce_pass_def)
    have p: "unat (word_of_nat points :: u64) = points" using points(2) by (simp add: unat_of_nat)
    then have "unat (RetainedBalance ?b (word_of_nat points)) = ceiling_div (unat ?b * points) 10000"
      using RetainedBalance_exact(1) [of "word_of_nat points" ?b] points(2) by simp
    then have "ceiling_div (unat ?b * points) 10000 \<le> unat (balances' ! pe_sender_index entry)"
      using le by (simp add: word_le_nat_alt)
    then show ?thesis by (subst (asm) ceiling_div_le_iff) simp_all
  qed
  moreover have "distinct (map pe_sender_index batch)" using sub d(1) by (auto simp: subseq_conv_nths)
  ultimately show ?thesis using d(2) points(1) by (simp add: bruteforce_batch_def)
qed

text \<open>The planner can serve the ledger: it covers the senders, and the fees of a fan-out fit.\<close>

definition serves :: "'g WalletTransactionLoadPlanner \<Rightarrow> u64 list \<Rightarrow> nat \<Rightarrow> bool" where
  "serves p balances limit \<longleftrightarrow> 0 < limit \<and> set (lp_senders p) \<subseteq> {..<length balances} \<and> lp_senders p \<noteq> [] \<and>
     (wt_strategy (lp_workload p) = kEqualFanout \<longrightarrow>
        unat (EffectiveWalletTransactionFeeReserveSatoshis (lp_workload p)) * length (lp_receivers p) < 2 ^ 64)"

lemma NextBatch_valid:
  assumes wf: "wf_load_planner p" and R: "recurrent R" and serves: "serves p balances limit"
  shows "\<exists>p' balances' found. NextBatch R p balances limit = ((p', balances'), Inr found) \<and>
    wf_load_planner p' \<and> lp_workload p' = lp_workload p \<and>
    (case found of None \<Rightarrow> balances' = balances
     | Some batch \<Rightarrow> batch \<noteq> [] \<and> list_all (load_entry_ok (lp_wallet_count p) (lp_workload p)) batch \<and>
         pays (EffectiveWalletTransactionFeeReserveSatoshis (lp_workload p)) batch balances balances' \<and>
         (if wt_strategy (lp_workload p) = kEqualFanout then fanout_batch (lp_receivers p) batch
          else bruteforce_batch (lp_workload p) limit balances balances' batch))"
proof -
  let ?w = "lp_workload p" and ?n = "lp_wallet_count p"
  have cover: "0 < limit" "\<not> list_ex (\<lambda>sender. length balances \<le> sender) (lp_senders p)"
    using serves by (auto simp: serves_def list_ex_iff)
  have facts: "2 \<le> ?n" "?n < 2 ^ 64" "minimum_satoshis (wt_amount ?w) \<le> maximum_satoshis (wt_amount ?w)"
    "distinct (lp_senders p)" "set (lp_senders p) \<subseteq> {..<?n}" using wf by (auto simp: wf_load_planner_def Let_def)
  show ?thesis
  proof (cases "wt_strategy ?w = kEqualFanout")
    case True
    obtain p' balances' found where "EqualFanoutBatch p balances = Inr (p', balances', found)" and
      "wf_load_planner p' \<and> lp_workload p' = ?w \<and> (case found of None \<Rightarrow> balances' = balances
        | Some batch \<Rightarrow> batch \<noteq> [] \<and> list_all (load_entry_ok ?n ?w) batch \<and>
            pays (EffectiveWalletTransactionFeeReserveSatoshis ?w) batch balances balances' \<and> fanout_batch (lp_receivers p) batch)"
      using EqualFanoutBatch_valid [OF wf True, of balances] serves True unfolding serves_def by blast
    moreover from this(1) have "NextBatch R p balances limit = ((p', balances'), Inr found)"
      using True cover by (simp add: NextBatch_def)
    ultimately show ?thesis using True by (intro exI [of _ p'] exI [of _ balances'] exI [of _ found]) (simp split: option.splits)
  next
    case False
    then have b: "wt_strategy ?w = kRandomBruteforce" and "\<exists>points<10000. wt_retained_balance_basis_points ?w = Some points"
      using wf by (auto simp: wf_load_planner_def Let_def)
    then obtain points where points: "wt_retained_balance_basis_points ?w = Some points" "points < 10000" by blast
    obtain balances' g batch where r: "BruteforceBatch R ?w ?n limit (lp_senders p) (balances, lp_rng p, []) = Inr (balances', g, batch)"
      using BruteforceBatch_returns [OF R facts(1)] by (metis prod_cases3)
    have pass: "length batch \<le> limit" "bruteforce_pass ?w ?n (lp_senders p) balances batch balances'"
      using BruteforceBatch_pass [OF facts(1-3) r facts(4)] serves facts(5) cover(1) by (auto simp: serves_def)
    have "NextBatch R p balances limit = ((p\<lparr>lp_rng := g\<rparr>, balances'), Inr (if batch = [] then None else Some batch))"
      using b cover r by (simp add: NextBatch_def)
    moreover have "wf_load_planner (p\<lparr>lp_rng := g\<rparr>)" using wf by (simp add: wf_load_planner_def)
    moreover have "pays (EffectiveWalletTransactionFeeReserveSatoshis ?w) batch balances balances'"
      "list_all (load_entry_ok ?n ?w) batch" using pass(2) by (simp_all add: bruteforce_pass_def)
    ultimately show ?thesis
      using bruteforce_pass_batch [OF pass(2) facts(4) pass(1) points] False by (auto simp: pays_Nil)
  qed
qed

text \<open>C31. A batch stays within the balances: planning returns, every entry pays from one wallet to
  another within the range of amounts, and each balance loses exactly what the sender's entries
  cost including their fee reserve, without wrap-around. The brute-force strategy respects the
  limit on the batch, uses a sender once and leaves it the retained share; an equal fan-out pays
  every receiver once, the same amount, from one sender. Without a batch the balances stay.\<close>

theorem batch_within_balances:
  assumes wf: "wf_load_planner p" and R: "recurrent R" and serves: "serves p balances limit"
  shows "\<exists>p' balances' found. NextBatch R p balances limit = ((p', balances'), Inr found) \<and>
    wf_load_planner p' \<and> lp_workload p' = lp_workload p \<and>
    (case found of None \<Rightarrow> balances' = balances
     | Some batch \<Rightarrow> batch \<noteq> [] \<and> list_all (load_entry_ok (lp_wallet_count p) (lp_workload p)) batch \<and>
         pays (EffectiveWalletTransactionFeeReserveSatoshis (lp_workload p)) batch balances balances' \<and>
         (if wt_strategy (lp_workload p) = kEqualFanout then fanout_batch (lp_receivers p) batch
          else bruteforce_batch (lp_workload p) limit balances balances' batch))"
  by (rule NextBatch_valid [OF assms])

subsection \<open>Examples\<close>

definition example_shuffle :: "unit shuffle" where
  "example_shuffle xs g = (rev xs, g)"

definition example_workload :: WalletTransactionsWorkload where
  "example_workload = \<lparr>wt_strategy = kRandom, wt_transaction_count = 4, wt_transaction_rate = None, wt_duration = None,
     wt_amount = \<lparr>ad_kind = kFixed, minimum_satoshis = 10, maximum_satoshis = 10\<rparr>,
     wt_interval = \<lparr>id_kind = kFixed, id_minimum = 5, id_maximum = 5\<rparr>, wt_fee_satoshis = 2, wt_fee_reserve_satoshis = 0,
     wt_retained_balance_basis_points = None, wt_random_seed = 7, wt_sender_wallets = [], wt_receiver_wallets = []\<rparr>"

lemma example_shuffle_permutes: "shuffle_permutes example_shuffle"
  by (simp add: shuffle_permutes_def example_shuffle_def)

theorem planned_transfers_witness:
  "\<exists>planner plan. new_WalletTransactionPlanner high_rng example_shuffle 3 example_workload 0 = Inr planner \<and>
     PlanTransactions high_rng 4 planner = Inr plan \<and> length plan = 4 \<and>
     pe_sender_index ` set (take 3 (drop 1 plan)) = {..<3}"
proof -
  have "\<exists>planner. new_WalletTransactionPlanner high_rng example_shuffle 3 example_workload 0 = Inr planner"
    by (simp add: new_WalletTransactionPlanner_def CheckPlannerRanges_def MillisecondsCount_def example_workload_def
        example_shuffle_def Let_def)
  then obtain planner where new: "new_WalletTransactionPlanner high_rng example_shuffle 3 example_workload 0 = Inr planner" ..
  have "in_types 3 example_workload" "cycles_all (wt_strategy example_workload)"
    by (simp_all add: in_types_def cycles_all_def example_workload_def)
  with planned_transfers [OF new example_shuffle_permutes high_rng_recurrent, of 4]
  obtain plan where plan: "PlanTransactions high_rng 4 planner = Inr plan" "length plan = 4"
    "\<forall>start. start + 3 \<le> 4 \<longrightarrow> pe_sender_index ` set (take 3 (drop start plan)) = {..<3}" by auto
  have "pe_sender_index ` set (take 3 (drop 1 plan)) = {..<3}" by (rule mp [OF spec [OF plan(3), of 1]]) simp
  with new plan(1,2) show ?thesis by blast
qed

definition example_fanout :: WalletTransactionsWorkload where
  "example_fanout = example_workload\<lparr>wt_strategy := kEqualFanout, wt_sender_wallets := [1], wt_receiver_wallets := [2, 3]\<rparr>"

theorem batch_within_balances_witness:
  "\<exists>p p' balances' found. new_WalletTransactionLoadPlanner high_rng example_shuffle 3 example_fanout 0 = Inr p \<and>
     NextBatch high_rng p [100, 0, 0] 8 = ((p', balances'), Inr found) \<and> wf_load_planner p'"
proof -
  let ?p = "\<lparr>lp_workload = example_fanout, lp_wallet_count = 3, lp_senders = [0], lp_receivers = [1, 2],
    lp_equal_sender_order = [0], lp_rng = (), lp_equal_sender_cursor = 0\<rparr>"
  have new: "new_WalletTransactionLoadPlanner high_rng example_shuffle 3 example_fanout 0 = Inr ?p"
    by (simp add: new_WalletTransactionLoadPlanner_def IsTransactionLoadStrategy_def ResolveLoadWallets_def
        ResolveSelectedWallets_def ResolveSelectedWallet_def RequireDisjointWalletSets_def example_fanout_def example_workload_def
        example_shuffle_def Let_def)
  have "serves ?p [100, 0, 0] 8"
    by (simp add: serves_def example_fanout_def example_workload_def EffectiveWalletTransactionFeeReserveSatoshis_def)
  moreover have "wf_load_planner ?p" using new_load_planner_wf [OF new example_shuffle_permutes] by simp
  ultimately show ?thesis using batch_within_balances [OF _ high_rng_recurrent, of ?p] new by blast
qed

end
