(* ===== verification/Transaction_Load.thy ===== *)
theory Transaction_Load
  imports Wallet_Plan
begin

text \<open>
  Transaction load generation: the task queue, the schedule of a task, the accounting of outcomes
  and the confirmation of one transaction, from \<open>src/transaction_load.cpp\<close> and
  \<open>include/bbp/simulator/transaction_load.h\<close>. A critical section is one step. The rates of a
  snapshot, which are floating-point quotients for display, are not modelled. A
  \<open>std::chrono::steady_clock::time_point\<close> is its number of nanoseconds.
\<close>

subsection \<open>Tasks\<close>

record WalletTransactionLoadTask =
  tk_transaction_index :: u64
  tk_plan :: WalletTransactionPlanEntry
  tk_scheduled_simulation_elapsed :: "int option"
  tk_scheduled_wall_elapsed :: "int option"
  tk_scheduled_at :: int

definition max_time_point :: int where
  "max_time_point = 9223372036854775807"

definition ApplyTransactionLoadRateSchedule ::
    "u64 \<Rightarrow> u64 \<Rightarrow> int \<Rightarrow> u64 \<Rightarrow> WalletTransactionLoadTask \<Rightarrow> WalletTransactionLoadTask result" where
  "ApplyTransactionLoadRateSchedule rate time_scale rate_epoch zero_based_transaction_index task =
     bind_result (SimulationElapsedBefore rate zero_based_transaction_index) (\<lambda>simulation_elapsed.
     bind_result (WallDuration time_scale simulation_elapsed) (\<lambda>wall_elapsed.
     let maximum_wall_elapsed = (max_time_point - rate_epoch) div 1000000 in
     if wall_elapsed > maximum_wall_elapsed
     then Inl (RuntimeError ''transaction load rate schedule exceeds monotonic clock range'')
     else Inr (task\<lparr>tk_scheduled_simulation_elapsed := Some simulation_elapsed,
       tk_scheduled_wall_elapsed := Some wall_elapsed,
       tk_scheduled_at := rate_epoch + wall_elapsed * 1000000\<rparr>)))"

subsection \<open>The task queue\<close>

record BoundedWalletTransactionQueue =
  lq_capacity :: nat
  lq_tasks :: "WalletTransactionLoadTask list"
  lq_maximum_size :: nat
  lq_closed :: bool
  lq_cancelled :: bool

definition new_BoundedWalletTransactionQueue :: "nat \<Rightarrow> BoundedWalletTransactionQueue result" where
  "new_BoundedWalletTransactionQueue capacity =
     (if capacity = 0
      then Inl (RuntimeError ''transaction load queue capacity must be greater than zero'')
      else Inr \<lparr>lq_capacity = capacity, lq_tasks = [], lq_maximum_size = 0, lq_closed = False, lq_cancelled = False\<rparr>)"

text \<open>\<open>before_publish\<close> is what the callback does: return, or throw.\<close>

definition TryPushBatch ::
    "WalletTransactionLoadTask list \<Rightarrow> unit result \<Rightarrow> BoundedWalletTransactionQueue \<Rightarrow>
     BoundedWalletTransactionQueue \<times> bool result" where
  "TryPushBatch tasks before_publish queue =
     (if lq_closed queue then (queue, Inl (RuntimeError ''transaction load queue is closed''))
      else if length tasks > lq_capacity queue \<or> length (lq_tasks queue) > lq_capacity queue - length tasks
      then (queue, Inr False)
      else case before_publish of
          Inl e \<Rightarrow> (queue, Inl e)
        | Inr _ \<Rightarrow>
          let tasks' = lq_tasks queue @ tasks in
          (queue\<lparr>lq_tasks := tasks', lq_maximum_size := max (lq_maximum_size queue) (length tasks')\<rparr>, Inr True))"

definition TryPush ::
    "WalletTransactionLoadTask \<Rightarrow> BoundedWalletTransactionQueue \<Rightarrow> BoundedWalletTransactionQueue \<times> bool result" where
  "TryPush task queue = TryPushBatch [task] (Inr ()) queue"

text \<open>\<open>None\<close>: the caller waits on the condition variable.\<close>

definition Pop ::
    "bool \<Rightarrow> BoundedWalletTransactionQueue \<Rightarrow> (BoundedWalletTransactionQueue \<times> WalletTransactionLoadTask option) option" where
  "Pop stop_requested queue =
     (if stop_requested \<or> lq_cancelled queue then Some (queue, None)
      else if \<not> (lq_closed queue \<or> lq_tasks queue \<noteq> []) then None
      else Some (case lq_tasks queue of
          [] \<Rightarrow> (queue, None)
        | task # rest \<Rightarrow> (queue\<lparr>lq_tasks := rest\<rparr>, Some task)))"

definition LoadQueue_Close :: "BoundedWalletTransactionQueue \<Rightarrow> BoundedWalletTransactionQueue" where
  "LoadQueue_Close queue = queue\<lparr>lq_closed := True\<rparr>"

definition DropPendingAndClose ::
    "BoundedWalletTransactionQueue \<Rightarrow> BoundedWalletTransactionQueue \<times> WalletTransactionLoadTask list" where
  "DropPendingAndClose queue = (queue\<lparr>lq_closed := True, lq_tasks := []\<rparr>, lq_tasks queue)"

definition LoadQueue_Cancel ::
    "BoundedWalletTransactionQueue \<Rightarrow> BoundedWalletTransactionQueue \<times> WalletTransactionLoadTask list" where
  "LoadQueue_Cancel queue = (queue\<lparr>lq_closed := True, lq_cancelled := True, lq_tasks := []\<rparr>, lq_tasks queue)"

subsection \<open>Accounting\<close>

datatype TransactionLoadOutcome =
  kSubmitted | kRejected | kTimedOut | kBackpressured | kDropped | kCancelled | kFailed

fun TransactionLoadOutcomeName :: "TransactionLoadOutcome \<Rightarrow> string" where
  "TransactionLoadOutcomeName kSubmitted = ''submitted''"
| "TransactionLoadOutcomeName kRejected = ''rejected''"
| "TransactionLoadOutcomeName kTimedOut = ''timed_out''"
| "TransactionLoadOutcomeName kBackpressured = ''backpressured''"
| "TransactionLoadOutcomeName kDropped = ''dropped''"
| "TransactionLoadOutcomeName kCancelled = ''cancelled''"
| "TransactionLoadOutcomeName kFailed = ''failed''"

record TransactionLoadSnapshot =
  ts_revision :: u64
  ts_attempted :: u64
  ts_submitted :: u64
  ts_rejected :: u64
  ts_timed_out :: u64
  ts_backpressured :: u64
  ts_dropped :: u64
  ts_cancelled :: u64
  ts_failed :: u64
  ts_propagated :: u64
  ts_confirmed :: u64
  ts_observation_errors :: u64
  ts_latency_sample_count :: u64
  ts_latency_total_us :: u64
  ts_latency_min_us :: u64
  ts_latency_max_us :: u64
  ts_elapsed_us :: u64

definition EmptySnapshot :: TransactionLoadSnapshot where
  "EmptySnapshot = \<lparr>ts_revision = 0, ts_attempted = 0, ts_submitted = 0, ts_rejected = 0, ts_timed_out = 0,
     ts_backpressured = 0, ts_dropped = 0, ts_cancelled = 0, ts_failed = 0, ts_propagated = 0, ts_confirmed = 0,
     ts_observation_errors = 0, ts_latency_sample_count = 0, ts_latency_total_us = 0, ts_latency_min_us = 0,
     ts_latency_max_us = 0, ts_elapsed_us = 0\<rparr>"

text \<open>A member function is a sequence of steps on the object; the first that throws ends it and
  leaves what the steps before it have done. A count of \<open>std::chrono::microseconds\<close> is a 64-bit word
  read as signed, which the cast to \<open>std::uint64_t\<close> leaves as it is.\<close>

type_synonym i64 = "64 word"

type_synonym 's step = "'s \<Rightarrow> 's \<times> unit result"

fun run_steps :: "'s step list \<Rightarrow> 's step" where
  "run_steps [] s = (s, Inr ())"
| "run_steps (f # fs) s = (case f s of (s', Inl e) \<Rightarrow> (s', Inl e) | (s', Inr _) \<Rightarrow> run_steps fs s')"

definition check_step :: "('s \<Rightarrow> unit result) \<Rightarrow> 's step" where
  "check_step check s = (s, check s)"

definition change_step :: "('s \<Rightarrow> 's) \<Rightarrow> 's step" where
  "change_step change s = (change s, Inr ())"

definition CounterOverflow :: "string \<Rightarrow> exn" where
  "CounterOverflow field = RuntimeError (''transaction load '' @ field @ '' counter overflow'')"

definition Increment ::
    "('s \<Rightarrow> u64) \<Rightarrow> ((u64 \<Rightarrow> u64) \<Rightarrow> 's \<Rightarrow> 's) \<Rightarrow> string \<Rightarrow> 's step" where
  "Increment field update field_name s =
     (if field s = max_u64 then (s, Inl (CounterOverflow field_name))
      else (update (\<lambda>value. value + 1) s, Inr ()))"

definition RequireIncrementable :: "u64 \<Rightarrow> string \<Rightarrow> unit result" where
  "RequireIncrementable value field_name =
     (if value = max_u64 then Inl (CounterOverflow field_name) else Inr ())"

fun outcome_count :: "TransactionLoadOutcome \<Rightarrow> TransactionLoadSnapshot \<Rightarrow> u64" where
  "outcome_count kSubmitted = ts_submitted"
| "outcome_count kRejected = ts_rejected"
| "outcome_count kTimedOut = ts_timed_out"
| "outcome_count kBackpressured = ts_backpressured"
| "outcome_count kDropped = ts_dropped"
| "outcome_count kCancelled = ts_cancelled"
| "outcome_count kFailed = ts_failed"

fun outcome_count_update ::
    "TransactionLoadOutcome \<Rightarrow> (u64 \<Rightarrow> u64) \<Rightarrow> TransactionLoadSnapshot \<Rightarrow> TransactionLoadSnapshot" where
  "outcome_count_update kSubmitted = ts_submitted_update"
| "outcome_count_update kRejected = ts_rejected_update"
| "outcome_count_update kTimedOut = ts_timed_out_update"
| "outcome_count_update kBackpressured = ts_backpressured_update"
| "outcome_count_update kDropped = ts_dropped_update"
| "outcome_count_update kCancelled = ts_cancelled_update"
| "outcome_count_update kFailed = ts_failed_update"

text \<open>The calls return a copy of the counters, which is the new state itself.\<close>

definition CheckOutcome :: "TransactionLoadOutcome \<Rightarrow> u64 \<Rightarrow> TransactionLoadSnapshot \<Rightarrow> unit result" where
  "CheckOutcome outcome latency_us counters =
     bind_result (RequireIncrementable (ts_revision counters) ''revision'') (\<lambda>_.
     bind_result (RequireIncrementable (ts_attempted counters) ''attempted'') (\<lambda>_.
     bind_result (RequireIncrementable (ts_latency_sample_count counters) ''latency sample'') (\<lambda>_.
     bind_result (require (\<not> ts_latency_total_us counters > max_u64 - latency_us)
       (RuntimeError ''transaction load latency total overflow'')) (\<lambda>_.
       RequireIncrementable (outcome_count outcome counters) (TransactionLoadOutcomeName outcome)))))"

definition SampleLatency :: "u64 \<Rightarrow> TransactionLoadSnapshot \<Rightarrow> TransactionLoadSnapshot" where
  "SampleLatency latency_us counters =
     (if ts_latency_sample_count counters = 1
      then counters\<lparr>ts_latency_min_us := latency_us, ts_latency_max_us := latency_us\<rparr>
      else counters\<lparr>ts_latency_min_us := min (ts_latency_min_us counters) latency_us,
        ts_latency_max_us := max (ts_latency_max_us counters) latency_us\<rparr>)"

definition RecordOutcome :: "TransactionLoadOutcome \<Rightarrow> i64 \<Rightarrow> TransactionLoadSnapshot step" where
  "RecordOutcome outcome latency counters =
     (if sint latency < 0 then (counters, Inl (RuntimeError ''transaction load latency must not be negative''))
      else let latency_us = latency in
        run_steps [
          check_step (CheckOutcome outcome latency_us),
          Increment ts_attempted ts_attempted_update ''attempted'',
          Increment (outcome_count outcome) (outcome_count_update outcome) (TransactionLoadOutcomeName outcome),
          change_step (ts_latency_total_us_update (\<lambda>value. value + latency_us)),
          Increment ts_latency_sample_count ts_latency_sample_count_update ''latency sample'',
          change_step (SampleLatency latency_us),
          Increment ts_revision ts_revision_update ''revision''] counters)"

definition RecordPropagated :: "bool \<Rightarrow> TransactionLoadSnapshot step" where
  "RecordPropagated confirmed = run_steps [
     check_step (\<lambda>counters. RequireIncrementable (ts_revision counters) ''revision''),
     check_step (\<lambda>counters. require (ts_propagated counters \<noteq> ts_submitted counters)
       (RuntimeError ''transaction load propagated count exceeds submitted count'')),
     Increment ts_propagated ts_propagated_update ''propagated'',
     (if confirmed then Increment ts_confirmed ts_confirmed_update ''confirmed'' else change_step id),
     Increment ts_revision ts_revision_update ''revision'']"

definition RecordConfirmed :: "TransactionLoadSnapshot step" where
  "RecordConfirmed = run_steps [
     check_step (\<lambda>counters. RequireIncrementable (ts_revision counters) ''revision''),
     check_step (\<lambda>counters. require (ts_confirmed counters \<noteq> ts_propagated counters)
       (RuntimeError ''transaction load confirmed count exceeds propagated count'')),
     Increment ts_confirmed ts_confirmed_update ''confirmed'',
     Increment ts_revision ts_revision_update ''revision'']"

definition RecordObservationError :: "TransactionLoadSnapshot step" where
  "RecordObservationError = run_steps [
     check_step (\<lambda>counters. RequireIncrementable (ts_revision counters) ''revision''),
     Increment ts_observation_errors ts_observation_errors_update ''observation error'',
     Increment ts_revision ts_revision_update ''revision'']"

text \<open>The checked sum of the terminal outcomes.\<close>

fun CheckedTotal :: "u64 \<Rightarrow> u64 list \<Rightarrow> u64 option" where
  "CheckedTotal terminal_total [] = Some terminal_total"
| "CheckedTotal terminal_total (n # counts) =
     (if terminal_total > max_u64 - n then None else CheckedTotal (terminal_total + n) counts)"

definition InvariantsHold :: "TransactionLoadSnapshot \<Rightarrow> bool" where
  "InvariantsHold s =
     (case CheckedTotal 0 [ts_submitted s, ts_rejected s, ts_timed_out s, ts_backpressured s, ts_dropped s,
         ts_cancelled s, ts_failed s] of
        None \<Rightarrow> False
      | Some terminal_total \<Rightarrow> ts_attempted s = terminal_total \<and> ts_confirmed s \<le> ts_propagated s \<and>
          ts_propagated s \<le> ts_submitted s \<and> ts_latency_sample_count s = ts_attempted s)"

definition Snapshot :: "i64 \<Rightarrow> TransactionLoadSnapshot \<Rightarrow> TransactionLoadSnapshot result" where
  "Snapshot elapsed counters =
     (if sint elapsed < 0 then Inl (RuntimeError ''transaction load elapsed time must not be negative'')
      else let snapshot = counters\<lparr>ts_elapsed_us := elapsed\<rparr> in
        if \<not> InvariantsHold snapshot then Inl (RuntimeError ''transaction load accounting invariant failed'')
        else Inr snapshot)"

subsection \<open>Confirmation of one transaction\<close>

type_synonym ObservationKey = "string \<times> string"

record TransactionLoadConfirmation =
  lc_expected_observations :: "ObservationKey set"
  lc_visible_observations :: "ObservationKey set"
  lc_confirmed_observations :: "ObservationKey set"
  lc_propagation_recorded :: bool
  lc_confirmation_recorded :: bool

definition new_TransactionLoadConfirmation :: "ObservationKey list \<Rightarrow> TransactionLoadConfirmation result" where
  "new_TransactionLoadConfirmation expected =
     (if expected = []
      then Inl (RuntimeError ''transaction load confirmation requires an expected observation'')
      else if \<not> distinct expected
      then Inl (RuntimeError ''transaction load confirmation has duplicate expected observations'')
      else if list_ex (\<lambda>observation. fst observation = [] \<or> snd observation = []) expected
      then Inl (RuntimeError ''transaction load confirmation observation key is empty'')
      else Inr \<lparr>lc_expected_observations = set expected, lc_visible_observations = {},
        lc_confirmed_observations = {}, lc_propagation_recorded = False, lc_confirmation_recorded = False\<rparr>)"

text \<open>The confirmation shares the accounting: both are the state of its member functions.\<close>

type_synonym confirmation_state = "TransactionLoadConfirmation \<times> TransactionLoadSnapshot"

definition RecordObservation ::
    "ObservationKey \<Rightarrow> bool \<Rightarrow> confirmation_state \<Rightarrow> confirmation_state \<times> TransactionLoadSnapshot option result" where
  "RecordObservation key confirmed state =
     (let (c, counters) = state in
      if key \<notin> lc_expected_observations c
      then (state, Inl (RuntimeError ''transaction load confirmation received an unexpected observation''))
      else let c = c\<lparr>lc_visible_observations := insert key (lc_visible_observations c),
                 lc_confirmed_observations := (if confirmed then insert key (lc_confirmed_observations c)
                   else lc_confirmed_observations c)\<rparr>;
               all_visible = (card (lc_visible_observations c) = card (lc_expected_observations c));
               all_confirmed = (card (lc_confirmed_observations c) = card (lc_expected_observations c)) in
        if \<not> lc_propagation_recorded c \<and> all_visible
        then (case RecordPropagated all_confirmed counters of
               (counters', Inl e) \<Rightarrow> ((c, counters'), Inl e)
             | (counters', Inr _) \<Rightarrow>
               ((c\<lparr>lc_propagation_recorded := True, lc_confirmation_recorded := all_confirmed\<rparr>, counters'), Inr (Some counters')))
        else if lc_propagation_recorded c \<and> \<not> lc_confirmation_recorded c \<and> all_confirmed
        then (case RecordConfirmed counters of
               (counters', Inl e) \<Rightarrow> ((c, counters'), Inl e)
             | (counters', Inr _) \<Rightarrow> ((c\<lparr>lc_confirmation_recorded := True\<rparr>, counters'), Inr (Some counters')))
        else ((c, counters), Inr None))"

definition Confirmation_RecordPropagated ::
    "bool \<Rightarrow> confirmation_state \<Rightarrow> confirmation_state \<times> TransactionLoadSnapshot result" where
  "Confirmation_RecordPropagated confirmed state =
     (let (c, counters) = state in
      if lc_propagation_recorded c
      then (state, Inl (RuntimeError ''transaction load propagation was recorded more than once''))
      else let all_confirmed = (card (lc_confirmed_observations c) = card (lc_expected_observations c)) in
        case RecordPropagated (confirmed \<or> all_confirmed) counters of
          (counters', Inl e) \<Rightarrow> ((c, counters'), Inl e)
        | (counters', Inr _) \<Rightarrow>
          ((c\<lparr>lc_propagation_recorded := True, lc_confirmation_recorded := confirmed \<or> all_confirmed\<rparr>, counters'), Inr counters'))"

subsection \<open>The counters and the calls they count\<close>

text \<open>An object whose state reflects the record of its successful calls.\<close>

locale recorded_object =
  fixes exec :: "'s \<Rightarrow> 'op \<Rightarrow> 's \<times> 'out"
    and recorded :: "'s \<Rightarrow> 'op \<Rightarrow> 'a list"
    and reflects :: "'a list \<Rightarrow> 's \<Rightarrow> bool"
  assumes exec_reflects: "reflects h s \<Longrightarrow> reflects (h @ recorded s x) (fst (exec s x))"
begin

lemma run_reflects: "reflects h s \<Longrightarrow> reflects (h @ collect exec recorded s xs) (fst (run exec s xs))"
proof (induction xs arbitrary: h s)
  case (Cons x xs)
  then show ?case using Cons.IH [OF exec_reflects [OF Cons.prems, of x]] by (simp add: split_def Let_def)
qed simp

end

datatype accounting_op =
  OutcomeOp TransactionLoadOutcome i64 | PropagatedOp bool | ConfirmedOp | ObservationErrorOp

fun accounting_exec :: "TransactionLoadSnapshot \<Rightarrow> accounting_op \<Rightarrow> TransactionLoadSnapshot \<times> unit result" where
  "accounting_exec counters (OutcomeOp outcome latency) = RecordOutcome outcome latency counters"
| "accounting_exec counters (PropagatedOp confirmed) = RecordPropagated confirmed counters"
| "accounting_exec counters ConfirmedOp = RecordConfirmed counters"
| "accounting_exec counters ObservationErrorOp = RecordObservationError counters"

definition accounting_recorded :: "TransactionLoadSnapshot \<Rightarrow> accounting_op \<Rightarrow> accounting_op list" where
  "accounting_recorded counters op = (if ok (snd (accounting_exec counters op)) then [op] else [])"

fun latencies :: "accounting_op list \<Rightarrow> nat list" where
  "latencies [] = []"
| "latencies (OutcomeOp outcome latency # ops) = unat latency # latencies ops"
| "latencies (_ # ops) = latencies ops"

definition outcome_calls :: "TransactionLoadOutcome \<Rightarrow> accounting_op list \<Rightarrow> nat" where
  "outcome_calls outcome ops = length (filter (\<lambda>op. \<exists>latency. op = OutcomeOp outcome latency) ops)"

definition propagated_calls :: "accounting_op list \<Rightarrow> nat" where
  "propagated_calls ops = length (filter (\<lambda>op. \<exists>confirmed. op = PropagatedOp confirmed) ops)"

definition confirmed_calls :: "accounting_op list \<Rightarrow> nat" where
  "confirmed_calls ops = length (filter (\<lambda>op. op = PropagatedOp True \<or> op = ConfirmedOp) ops)"

definition error_calls :: "accounting_op list \<Rightarrow> nat" where
  "error_calls ops = length (filter (\<lambda>op. op = ObservationErrorOp) ops)"

text \<open>The counters are those of the calls that succeeded.\<close>

definition counts_calls :: "accounting_op list \<Rightarrow> TransactionLoadSnapshot \<Rightarrow> bool" where
  "counts_calls ops s \<longleftrightarrow>
     unat (ts_revision s) = length ops \<and>
     unat (ts_attempted s) = length (latencies ops) \<and>
     (\<forall>outcome. unat (outcome_count outcome s) = outcome_calls outcome ops) \<and>
     unat (ts_propagated s) = propagated_calls ops \<and>
     unat (ts_confirmed s) = confirmed_calls ops \<and>
     unat (ts_observation_errors s) = error_calls ops \<and>
     unat (ts_latency_sample_count s) = length (latencies ops) \<and>
     unat (ts_latency_total_us s) = sum_list (latencies ops) \<and>
     (latencies ops \<noteq> [] \<longrightarrow> unat (ts_latency_min_us s) = Min (set (latencies ops)) \<and>
       unat (ts_latency_max_us s) = Max (set (latencies ops))) \<and>
     confirmed_calls ops \<le> propagated_calls ops \<and> propagated_calls ops \<le> outcome_calls kSubmitted ops"

lemma latencies_append [simp]: "latencies (xs @ ys) = latencies xs @ latencies ys"
  by (induction xs rule: latencies.induct) simp_all

lemmas calls_defs = outcome_calls_def propagated_calls_def confirmed_calls_def error_calls_def

lemma CheckedTotal_sum:
  "CheckedTotal terminal_total counts =
     (if unat terminal_total + sum_list (map unat counts) < 18446744073709551616
      then Some (of_nat (unat terminal_total + sum_list (map unat counts))) else None)"
proof (induction counts arbitrary: terminal_total)
  case (Cons n counts)
  show ?case
  proof (cases "terminal_total > max_u64 - n")
    case True
    then show ?thesis by (simp add: u64_add_guard)
  next
    case False
    then have "unat (terminal_total + n) = unat terminal_total + unat n"
      by (simp add: u64_add_exact u64_add_guard)
    with False Cons.IH [of "terminal_total + n"] show ?thesis by (simp add: add.assoc)
  qed
qed (simp add: u64_lt)

lemma length_latencies:
  "length (latencies ops) = outcome_calls kSubmitted ops + outcome_calls kRejected ops + outcome_calls kTimedOut ops +
     outcome_calls kBackpressured ops + outcome_calls kDropped ops + outcome_calls kCancelled ops + outcome_calls kFailed ops"
proof (induction ops rule: latencies.induct)
  case (2 outcome latency ops)
  then show ?case by (cases outcome) (simp_all add: outcome_calls_def)
qed (simp_all add: outcome_calls_def)

lemma counts_calls_outcome:
  assumes "counts_calls ops s"
  shows "unat (ts_submitted s) = outcome_calls kSubmitted ops" "unat (ts_rejected s) = outcome_calls kRejected ops"
    "unat (ts_timed_out s) = outcome_calls kTimedOut ops" "unat (ts_backpressured s) = outcome_calls kBackpressured ops"
    "unat (ts_dropped s) = outcome_calls kDropped ops" "unat (ts_cancelled s) = outcome_calls kCancelled ops"
    "unat (ts_failed s) = outcome_calls kFailed ops"
  using assms unfolding counts_calls_def by (metis outcome_count.simps)+

lemma counts_calls_InvariantsHold:
  assumes "counts_calls ops s"
  shows "InvariantsHold s"
proof -
  note C = counts_calls_outcome [OF assms]
  let ?counts = "[ts_submitted s, ts_rejected s, ts_timed_out s, ts_backpressured s, ts_dropped s, ts_cancelled s, ts_failed s]"
  have total: "sum_list (map unat ?counts) = unat (ts_attempted s)"
    using assms length_latencies [of ops] by (simp add: C counts_calls_def)
  have "CheckedTotal 0 ?counts = Some (of_nat (unat (ts_attempted s)))"
    unfolding CheckedTotal_sum total using u64_lt [of "ts_attempted s"] by simp
  moreover have "ts_confirmed s \<le> ts_propagated s" "ts_propagated s \<le> ts_submitted s"
    "ts_latency_sample_count s = ts_attempted s"
    using assms C(1) by (simp_all add: counts_calls_def word_le_nat_alt word_unat_eq_iff)
  ultimately show ?thesis by (simp add: InvariantsHold_def)
qed

definition after_outcome :: "TransactionLoadOutcome \<Rightarrow> u64 \<Rightarrow> TransactionLoadSnapshot \<Rightarrow> TransactionLoadSnapshot" where
  "after_outcome outcome latency_us s =
     ts_revision_update (\<lambda>n. n + 1) (SampleLatency latency_us (ts_latency_sample_count_update (\<lambda>n. n + 1)
       (ts_latency_total_us_update (\<lambda>n. n + latency_us) (outcome_count_update outcome (\<lambda>n. n + 1)
         (ts_attempted_update (\<lambda>n. n + 1) s)))))"

lemma outcome_count_update_same [simp]:
  "ts_revision (outcome_count_update outcome f s) = ts_revision s"
  "ts_attempted (outcome_count_update outcome f s) = ts_attempted s"
  "ts_propagated (outcome_count_update outcome f s) = ts_propagated s"
  "ts_confirmed (outcome_count_update outcome f s) = ts_confirmed s"
  "ts_observation_errors (outcome_count_update outcome f s) = ts_observation_errors s"
  "ts_latency_sample_count (outcome_count_update outcome f s) = ts_latency_sample_count s"
  "ts_latency_total_us (outcome_count_update outcome f s) = ts_latency_total_us s"
  "ts_latency_min_us (outcome_count_update outcome f s) = ts_latency_min_us s"
  "ts_latency_max_us (outcome_count_update outcome f s) = ts_latency_max_us s"
  by (cases outcome; simp)+

lemma outcome_count_updates [simp]:
  "outcome_count outcome (outcome_count_update outcome' f s) =
     (if outcome = outcome' then f (outcome_count outcome s) else outcome_count outcome s)"
  by (cases outcome; cases outcome'; simp)

lemma outcome_count_same [simp]:
  "outcome_count outcome (ts_revision_update f s) = outcome_count outcome s"
  "outcome_count outcome (ts_attempted_update f s) = outcome_count outcome s"
  "outcome_count outcome (ts_propagated_update f s) = outcome_count outcome s"
  "outcome_count outcome (ts_confirmed_update f s) = outcome_count outcome s"
  "outcome_count outcome (ts_observation_errors_update f s) = outcome_count outcome s"
  "outcome_count outcome (ts_latency_sample_count_update f s) = outcome_count outcome s"
  "outcome_count outcome (ts_latency_total_us_update f s) = outcome_count outcome s"
  "outcome_count outcome (SampleLatency latency s) = outcome_count outcome s"
  by (cases outcome; simp add: SampleLatency_def)+

lemma SampleLatency_same [simp]:
  "ts_revision (SampleLatency latency s) = ts_revision s"
  "ts_attempted (SampleLatency latency s) = ts_attempted s"
  "ts_propagated (SampleLatency latency s) = ts_propagated s"
  "ts_confirmed (SampleLatency latency s) = ts_confirmed s"
  "ts_observation_errors (SampleLatency latency s) = ts_observation_errors s"
  "ts_latency_sample_count (SampleLatency latency s) = ts_latency_sample_count s"
  "ts_latency_total_us (SampleLatency latency s) = ts_latency_total_us s"
  by (simp_all add: SampleLatency_def)

lemmas step_defs = check_step_def change_step_def Increment_def RequireIncrementable_def

lemma CheckOutcome_ok:
  "CheckOutcome outcome latency_us s = Inr () \<longleftrightarrow>
     ts_revision s \<noteq> max_u64 \<and> ts_attempted s \<noteq> max_u64 \<and> ts_latency_sample_count s \<noteq> max_u64 \<and>
     \<not> ts_latency_total_us s > max_u64 - latency_us \<and> outcome_count outcome s \<noteq> max_u64"
  by (simp add: CheckOutcome_def RequireIncrementable_def require_def)

lemma RecordOutcome_eq:
  "RecordOutcome outcome latency s =
     (if sint latency < 0 then (s, Inl (RuntimeError ''transaction load latency must not be negative''))
      else case CheckOutcome outcome latency s of
          Inl e \<Rightarrow> (s, Inl e)
        | Inr _ \<Rightarrow> (after_outcome outcome latency s, Inr ()))"
proof (cases "CheckOutcome outcome latency s")
  case (Inl e)
  then show ?thesis by (simp add: RecordOutcome_def check_step_def)
next
  case (Inr u)
  then have "ts_revision s \<noteq> max_u64" "ts_attempted s \<noteq> max_u64" "ts_latency_sample_count s \<noteq> max_u64"
    "outcome_count outcome s \<noteq> max_u64"
    using CheckOutcome_ok [of outcome latency s] by simp_all
  with Inr show ?thesis
    by (simp add: RecordOutcome_def step_defs after_outcome_def)
qed

lemma not_max_u64:
  fixes a b c :: u64
  assumes "a \<le> b" "b \<le> c" "b \<noteq> c"
  shows "b \<noteq> max_u64" "a \<noteq> max_u64"
  using assms word_order.extremum_unique by (metis, metis order.trans)

lemma RecordPropagated_eq:
  assumes "ts_confirmed s \<le> ts_propagated s" "ts_propagated s \<le> ts_submitted s"
  shows "RecordPropagated confirmed s =
    (if ts_revision s = max_u64 then (s, Inl (CounterOverflow ''revision''))
     else if ts_propagated s = ts_submitted s
     then (s, Inl (RuntimeError ''transaction load propagated count exceeds submitted count''))
     else (s\<lparr>ts_propagated := ts_propagated s + 1, ts_confirmed := (if confirmed then ts_confirmed s + 1 else ts_confirmed s),
        ts_revision := ts_revision s + 1\<rparr>, Inr ()))"
proof (cases "ts_propagated s = ts_submitted s")
  case False
  note max = not_max_u64 [OF assms False]
  then show ?thesis by (simp add: RecordPropagated_def step_defs require_def False max)
qed (simp add: RecordPropagated_def step_defs require_def)

lemma RecordConfirmed_eq:
  assumes "ts_confirmed s \<le> ts_propagated s"
  shows "RecordConfirmed s =
    (if ts_revision s = max_u64 then (s, Inl (CounterOverflow ''revision''))
     else if ts_confirmed s = ts_propagated s
     then (s, Inl (RuntimeError ''transaction load confirmed count exceeds propagated count''))
     else (s\<lparr>ts_confirmed := ts_confirmed s + 1, ts_revision := ts_revision s + 1\<rparr>, Inr ()))"
proof (cases "ts_confirmed s = ts_propagated s")
  case False
  then have "ts_confirmed s \<noteq> max_u64" by (rule not_max_u64(1) [OF order.refl assms])
  then show ?thesis by (simp add: RecordConfirmed_def step_defs require_def False)
qed (simp add: RecordConfirmed_def step_defs require_def)

lemma RecordObservationError_eq:
  "RecordObservationError s =
    (if ts_revision s = max_u64 then (s, Inl (CounterOverflow ''revision''))
     else if ts_observation_errors s = max_u64 then (s, Inl (CounterOverflow ''observation error''))
     else (s\<lparr>ts_observation_errors := ts_observation_errors s + 1, ts_revision := ts_revision s + 1\<rparr>, Inr ()))"
  by (simp add: RecordObservationError_def step_defs)

lemma counts_calls_order:
  assumes "counts_calls ops s"
  shows "ts_confirmed s \<le> ts_propagated s" "ts_propagated s \<le> ts_submitted s"
  using counts_calls_InvariantsHold [OF assms] by (auto simp: InvariantsHold_def split: option.splits)

lemma min_max_snoc:
  fixes x :: nat
  assumes "xs \<noteq> []"
  shows "Min (set (xs @ [x])) = min (Min (set xs)) x" "Max (set (xs @ [x])) = max (Max (set xs)) x"
  using assms by (simp_all add: min.commute max.commute)

lemma unat_min_max:
  fixes a b :: u64
  shows "unat (min a b) = min (unat a) (unat b)" "unat (max a b) = max (unat a) (unat b)"
  by (simp_all add: min_def max_def word_le_nat_alt)

lemma outcome_counts_calls:
  assumes "counts_calls ops s" "CheckOutcome outcome latency s = Inr ()"
  shows "counts_calls (ops @ [OutcomeOp outcome latency]) (after_outcome outcome latency s)"
proof -
  let ?ops = "ops @ [OutcomeOp outcome latency]" and ?s = "after_outcome outcome latency s"
  note ok = assms(2) [unfolded CheckOutcome_ok]
  note C = assms(1) [unfolded counts_calls_def]
  have counts: "unat (outcome_count other ?s) = outcome_calls other ?ops" for other
    using ok C by (simp add: after_outcome_def outcome_calls_def u64_succ_exact)
  have total: "unat (ts_latency_total_us s + latency) = unat (ts_latency_total_us s) + unat latency"
    using ok by (simp add: u64_add_exact u64_add_guard)
  have "unat (ts_latency_min_us ?s) = Min (set (latencies ?ops)) \<and> unat (ts_latency_max_us ?s) = Max (set (latencies ?ops))"
  proof (cases "latencies ops = []")
    case True
    then have "ts_latency_sample_count s = 0" using C by (simp add: word_unat_eq_iff)
    then show ?thesis using True by (simp add: after_outcome_def SampleLatency_def)
  next
    case False
    then have "ts_latency_sample_count s \<noteq> 0" using C by (metis length_0_conv unat_0)
    then have "ts_latency_sample_count s + 1 \<noteq> 1" by simp
    then have "ts_latency_min_us ?s = min (ts_latency_min_us s) latency" "ts_latency_max_us ?s = max (ts_latency_max_us s) latency"
      by (simp_all add: after_outcome_def SampleLatency_def)
    moreover have "unat (ts_latency_min_us s) = Min (set (latencies ops))" "unat (ts_latency_max_us s) = Max (set (latencies ops))"
      using C False by blast+
    ultimately show ?thesis using min_max_snoc [OF False, of "unat latency"]
      by (simp add: unat_min_max)
  qed
  moreover have "outcome_calls kSubmitted ops \<le> outcome_calls kSubmitted ?ops" by (simp add: outcome_calls_def)
  ultimately show ?thesis
    using ok C counts total
    unfolding counts_calls_def
    by (simp add: after_outcome_def propagated_calls_def confirmed_calls_def error_calls_def u64_succ_exact)
qed

lemma propagated_counts_calls:
  assumes "counts_calls ops s" "ts_revision s \<noteq> max_u64" "ts_propagated s \<noteq> ts_submitted s"
  shows "counts_calls (ops @ [PropagatedOp confirmed])
    (s\<lparr>ts_propagated := ts_propagated s + 1, ts_confirmed := (if confirmed then ts_confirmed s + 1 else ts_confirmed s),
       ts_revision := ts_revision s + 1\<rparr>)"
proof -
  note C = assms(1) [unfolded counts_calls_def]
  note max = not_max_u64 [OF counts_calls_order [OF assms(1)] assms(3)]
  have "propagated_calls ops \<noteq> outcome_calls kSubmitted ops"
    using assms(3) C counts_calls_outcome(1) [OF assms(1)] by (metis word_unat_eq_iff)
  then show ?thesis
    using C assms(2) max unfolding counts_calls_def
    by (simp add: calls_defs u64_succ_exact)
qed

lemma confirmed_counts_calls:
  assumes "counts_calls ops s" "ts_revision s \<noteq> max_u64" "ts_confirmed s \<noteq> ts_propagated s"
  shows "counts_calls (ops @ [ConfirmedOp]) (s\<lparr>ts_confirmed := ts_confirmed s + 1, ts_revision := ts_revision s + 1\<rparr>)"
proof -
  note C = assms(1) [unfolded counts_calls_def]
  note max = not_max_u64(1) [OF order.refl counts_calls_order(1) [OF assms(1)] assms(3)]
  have "confirmed_calls ops \<noteq> propagated_calls ops" using assms(3) C by (metis word_unat_eq_iff)
  then show ?thesis
    using C assms(2) max unfolding counts_calls_def
    by (simp add: calls_defs u64_succ_exact)
qed

lemma error_counts_calls:
  assumes "counts_calls ops s" "ts_revision s \<noteq> max_u64" "ts_observation_errors s \<noteq> max_u64"
  shows "counts_calls (ops @ [ObservationErrorOp])
    (s\<lparr>ts_observation_errors := ts_observation_errors s + 1, ts_revision := ts_revision s + 1\<rparr>)"
  using assms unfolding counts_calls_def
  by (simp add: calls_defs u64_succ_exact)

lemma accounting_exec_cases:
  assumes "counts_calls ops s"
  shows "(\<exists>e. accounting_exec s op = (s, Inl e)) \<or>
    (\<exists>s'. accounting_exec s op = (s', Inr ()) \<and> counts_calls (ops @ [op]) s')"
proof (cases op)
  case (OutcomeOp outcome latency)
  then show ?thesis
    using outcome_counts_calls [OF assms, of outcome latency]
    by (simp add: RecordOutcome_eq split: sum.splits)
next
  case (PropagatedOp confirmed)
  then show ?thesis using propagated_counts_calls [OF assms, of confirmed]
    by (simp only: accounting_exec.simps RecordPropagated_eq [OF counts_calls_order [OF assms]]) simp
next
  case ConfirmedOp
  then show ?thesis using confirmed_counts_calls [OF assms]
    by (simp add: RecordConfirmed_eq [OF counts_calls_order(1) [OF assms]])
next
  case ObservationErrorOp
  then show ?thesis using error_counts_calls [OF assms]
    by (simp add: RecordObservationError_eq)
qed

interpretation accounting: recorded_object accounting_exec accounting_recorded counts_calls
proof
  fix ops s op
  assume "counts_calls ops s"
  from accounting_exec_cases [OF this, of op] this
  show "counts_calls (ops @ accounting_recorded s op) (fst (accounting_exec s op))"
    by (auto simp: accounting_recorded_def)
qed

lemma counts_calls_empty: "counts_calls [] EmptySnapshot"
proof -
  have "outcome_count outcome EmptySnapshot = 0" for outcome by (cases outcome) (simp_all add: EmptySnapshot_def)
  then show ?thesis by (simp add: counts_calls_def calls_defs) (simp add: EmptySnapshot_def)
qed

lemma accounting_reached:
  "counts_calls (collect accounting_exec accounting_recorded EmptySnapshot ops)
     (fst (run accounting_exec EmptySnapshot ops))"
  using accounting.run_reflects [OF counts_calls_empty, of ops] by simp

lemma counts_calls_elapsed: "counts_calls ops (s\<lparr>ts_elapsed_us := n\<rparr>) \<longleftrightarrow> counts_calls ops s"
proof -
  have "outcome_count outcome (s\<lparr>ts_elapsed_us := n\<rparr>) = outcome_count outcome s" for outcome by (cases outcome) simp_all
  then show ?thesis by (simp add: counts_calls_def)
qed

text \<open>C32. Whatever calls are made, in whatever order and whether or not they throw, the accounting counts
  exactly the calls that succeeded: the revision, the attempts, each outcome, the propagations, the
  confirmations and the observation errors, and the sample count, total, minimum and maximum of the
  latencies; and a snapshot then never fails its own consistency check.\<close>

theorem accounting_exact:
  "counts_calls (collect accounting_exec accounting_recorded EmptySnapshot ops)
     (fst (run accounting_exec EmptySnapshot ops)) \<and>
   Snapshot elapsed (fst (run accounting_exec EmptySnapshot ops)) =
     (if sint elapsed < 0 then Inl (RuntimeError ''transaction load elapsed time must not be negative'')
      else Inr ((fst (run accounting_exec EmptySnapshot ops))\<lparr>ts_elapsed_us := elapsed\<rparr>))"
  using accounting_reached [of ops] counts_calls_InvariantsHold [OF counts_calls_elapsed [THEN iffD2, OF accounting_reached]]
  by (simp add: Snapshot_def)

text \<open>C33. A call that throws leaves every counter as it was, although the code changes several counters
  one after the other and each change has its own overflow check.\<close>

theorem throwing_call_changes_nothing:
  assumes "accounting_exec (fst (run accounting_exec EmptySnapshot ops)) op = (s', Inl e)"
  shows "s' = fst (run accounting_exec EmptySnapshot ops)"
  using accounting_exec_cases [OF accounting_reached, of ops op] assms by auto

theorem throwing_call_changes_nothing_witness:
  "let s = fst (run accounting_exec EmptySnapshot [OutcomeOp kSubmitted 7, PropagatedOp True]) in
     accounting_exec s (PropagatedOp False) =
       (s, Inl (RuntimeError ''transaction load propagated count exceeds submitted count''))"
proof -
  let ?ops = "[OutcomeOp kSubmitted 7, PropagatedOp True]"
  let ?s = "fst (run accounting_exec EmptySnapshot ?ops)"
  have "snd (accounting_exec ?s (PropagatedOp False)) =
      Inl (RuntimeError ''transaction load propagated count exceeds submitted count'')" by code_simp
  then have e: "accounting_exec ?s (PropagatedOp False) =
      (fst (accounting_exec ?s (PropagatedOp False)), Inl (RuntimeError ''transaction load propagated count exceeds submitted count''))"
    by (metis prod.collapse)
  show ?thesis unfolding Let_def using throwing_call_changes_nothing [OF e] e by simp
qed

subsection \<open>One transaction is counted once\<close>

text \<open>The calls on one confirmation, and those other threads make on the accounting it shares.\<close>

datatype confirmation_op =
  ObservationOp ObservationKey bool | DirectPropagatedOp bool | OtherOp accounting_op

fun confirmation_exec :: "confirmation_state \<Rightarrow> confirmation_op \<Rightarrow> confirmation_state \<times> unit result" where
  "confirmation_exec state (ObservationOp key confirmed) =
     map_prod id (map_sum id (\<lambda>_. ())) (RecordObservation key confirmed state)"
| "confirmation_exec state (DirectPropagatedOp confirmed) =
     map_prod id (map_sum id (\<lambda>_. ())) (Confirmation_RecordPropagated confirmed state)"
| "confirmation_exec (c, counters) (OtherOp op) = map_prod (Pair c) id (accounting_exec counters op)"

text \<open>The calls of the confirmation: each with whether it succeeded and what it added to the two counters.\<close>

type_synonym counted_call = "confirmation_op \<times> bool \<times> nat \<times> nat"

definition confirmation_counted :: "confirmation_state \<Rightarrow> confirmation_op \<Rightarrow> counted_call list" where
  "confirmation_counted state op =
     (case op of OtherOp _ \<Rightarrow> []
      | _ \<Rightarrow> let counters = snd state; (state', out) = confirmation_exec state op; counters' = snd state' in
          [(op, ok out, unat (ts_propagated counters') - unat (ts_propagated counters),
            unat (ts_confirmed counters') - unat (ts_confirmed counters))])"

definition added_propagated :: "counted_call list \<Rightarrow> nat" where
  "added_propagated h = sum_list (map (\<lambda>(op, success, propagated, confirmed). propagated) h)"

definition added_confirmed :: "counted_call list \<Rightarrow> nat" where
  "added_confirmed h = sum_list (map (\<lambda>(op, success, propagated, confirmed). confirmed) h)"

definition observed_keys :: "counted_call list \<Rightarrow> ObservationKey set" where
  "observed_keys h = {key. \<exists>confirmed. ObservationOp key confirmed \<in> fst ` set h}"

definition confirmed_keys :: "counted_call list \<Rightarrow> ObservationKey set" where
  "confirmed_keys h = {key. ObservationOp key True \<in> fst ` set h}"

text \<open>
  What a successful call has to add, given the calls before it. An observation adds the propagation when it completes
  the expected keys, with the confirmation if they are all confirmed, and adds the confirmation on its own if the
  propagation was counted earlier. A direct report adds the propagation, and the confirmation if the caller says so or if all
  expected keys are confirmed.
\<close>

fun due_counts :: "ObservationKey set \<Rightarrow> counted_call list \<Rightarrow> confirmation_op \<Rightarrow> nat \<times> nat" where
  "due_counts expected h (ObservationOp key confirmed) =
     (let visible = insert key (observed_keys h);
          all_confirmed = (expected \<subseteq> (if confirmed then insert key (confirmed_keys h) else confirmed_keys h)) in
      if added_propagated h = 0 then (if expected \<subseteq> visible then (1, of_bool all_confirmed) else (0, 0))
      else (0, of_bool (added_confirmed h = 0 \<and> all_confirmed)))"
| "due_counts expected h (DirectPropagatedOp confirmed) = (1, of_bool (confirmed \<or> expected \<subseteq> confirmed_keys h))"
| "due_counts expected h (OtherOp _) = (0, 0)"

declare due_counts.simps [simp del]

definition counted_as_due :: "ObservationKey set \<Rightarrow> counted_call list \<Rightarrow> bool" where
  "counted_as_due expected h \<longleftrightarrow> (\<forall>i<length h. case h ! i of (op, success, counts) \<Rightarrow>
     counts = (if success then due_counts expected (take i h) op else (0, 0)))"

definition confirms_once :: "counted_call list \<Rightarrow> TransactionLoadConfirmation \<Rightarrow> bool" where
  "confirms_once h c \<longleftrightarrow>
     added_propagated h = of_bool (lc_propagation_recorded c) \<and>
     added_confirmed h = of_bool (lc_confirmation_recorded c) \<and>
     (lc_confirmation_recorded c \<longrightarrow> lc_propagation_recorded c) \<and>
     lc_visible_observations c = observed_keys h \<inter> lc_expected_observations c \<and>
     lc_confirmed_observations c = confirmed_keys h \<inter> lc_expected_observations c \<and>
     counted_as_due (lc_expected_observations c) h"

definition confirmation_reflects :: "counted_call list \<Rightarrow> confirmation_state \<Rightarrow> bool" where
  "confirmation_reflects h state \<longleftrightarrow>
     finite (lc_expected_observations (fst state)) \<and> confirms_once h (fst state) \<and> (\<exists>ops. counts_calls ops (snd state))"

lemma counts_calls_pending:
  assumes "counts_calls ops s"
  shows "unat (ts_propagated s) = propagated_calls ops" "unat (ts_confirmed s) = confirmed_calls ops"
  using assms unfolding counts_calls_def by blast+

lemma RecordPropagated_counts:
  assumes "counts_calls ops s"
  shows "(\<exists>e. RecordPropagated confirmed s = (s, Inl e)) \<or>
    (\<exists>s'. RecordPropagated confirmed s = (s', Inr ()) \<and> counts_calls (ops @ [PropagatedOp confirmed]) s' \<and>
       unat (ts_propagated s') = unat (ts_propagated s) + 1 \<and>
       unat (ts_confirmed s') = unat (ts_confirmed s) + of_bool confirmed)"
proof -
  have "unat (ts_propagated s') = unat (ts_propagated s) + 1"
    "unat (ts_confirmed s') = unat (ts_confirmed s) + of_bool confirmed"
    if "counts_calls (ops @ [PropagatedOp confirmed]) s'" for s'
    using counts_calls_pending [OF that] counts_calls_pending [OF assms]
    by (simp_all add: propagated_calls_def confirmed_calls_def)
  then show ?thesis using accounting_exec_cases [OF assms, of "PropagatedOp confirmed"]
    unfolding accounting_exec.simps by blast
qed

lemma RecordConfirmed_counts:
  assumes "counts_calls ops s"
  shows "(\<exists>e. RecordConfirmed s = (s, Inl e)) \<or>
    (\<exists>s'. RecordConfirmed s = (s', Inr ()) \<and> counts_calls (ops @ [ConfirmedOp]) s' \<and>
       unat (ts_propagated s') = unat (ts_propagated s) \<and> unat (ts_confirmed s') = unat (ts_confirmed s) + 1)"
proof -
  have "unat (ts_propagated s') = unat (ts_propagated s)" "unat (ts_confirmed s') = unat (ts_confirmed s) + 1"
    if "counts_calls (ops @ [ConfirmedOp]) s'" for s'
    using counts_calls_pending [OF that] counts_calls_pending [OF assms]
    by (simp_all add: propagated_calls_def confirmed_calls_def)
  then show ?thesis using accounting_exec_cases [OF assms, of ConfirmedOp]
    unfolding accounting_exec.simps by blast
qed

lemma added_snoc [simp]:
  "added_propagated (h @ [(op, success, p, q)]) = added_propagated h + p"
  "added_confirmed (h @ [(op, success, p, q)]) = added_confirmed h + q"
  by (simp_all add: added_propagated_def added_confirmed_def)

lemma observed_snoc [simp]:
  "observed_keys (h @ [(ObservationOp key confirmed, x)]) = insert key (observed_keys h)"
  "confirmed_keys (h @ [(ObservationOp key confirmed, x)]) =
     (if confirmed then insert key (confirmed_keys h) else confirmed_keys h)"
  "observed_keys (h @ [(DirectPropagatedOp confirmed, x)]) = observed_keys h"
  "confirmed_keys (h @ [(DirectPropagatedOp confirmed, x)]) = confirmed_keys h"
  by (auto simp: observed_keys_def confirmed_keys_def)

lemma counted_as_due_snoc [simp]:
  "counted_as_due expected (h @ [(op, success, counts)]) \<longleftrightarrow>
     counted_as_due expected h \<and> counts = (if success then due_counts expected h op else (0, 0))"
  by (auto simp: counted_as_due_def All_less_Suc nth_append split_def)

lemma card_full: "finite B \<Longrightarrow> card (A \<inter> B) = card B \<longleftrightarrow> B \<subseteq> A"
  by (metis Int_commute card_subset_eq inf.absorb_iff1 inf_le1 order_refl)

text \<open>The confirmation once an expected observation is entered, before the counters are told.\<close>

definition with_observation :: "ObservationKey \<Rightarrow> bool \<Rightarrow> TransactionLoadConfirmation \<Rightarrow> TransactionLoadConfirmation" where
  "with_observation key confirmed c =
     c\<lparr>lc_visible_observations := insert key (lc_visible_observations c),
       lc_confirmed_observations := (if confirmed then insert key (lc_confirmed_observations c)
         else lc_confirmed_observations c)\<rparr>"

text \<open>
  The state of the confirmation against the calls before the current one: what a call that adds nothing, a call that
  counts the propagation and a call that counts the confirmation leave.
\<close>

lemma unexpected_once:
  assumes "confirms_once h c" "key \<notin> lc_expected_observations c"
  shows "confirms_once (h @ [(ObservationOp key confirmed, False, 0, 0)]) c"
  using assms unfolding confirms_once_def by (simp add: Int_insert_left)

lemma failed_once:
  assumes "confirms_once h c" "key \<in> lc_expected_observations c"
  shows "confirms_once (h @ [(ObservationOp key confirmed, False, 0, 0)]) (with_observation key confirmed c)"
  using assms unfolding confirms_once_def with_observation_def by (simp add: Int_insert_left)

lemma with_observation_keys:
  assumes "confirms_once h c" "key \<in> lc_expected_observations c"
  shows "lc_visible_observations (with_observation key confirmed c) = insert key (observed_keys h) \<inter> lc_expected_observations c"
    "lc_confirmed_observations (with_observation key confirmed c) =
      (if confirmed then insert key (confirmed_keys h) else confirmed_keys h) \<inter> lc_expected_observations c"
  using assms by (simp_all add: confirms_once_def with_observation_def Int_insert_left)

lemma observed_once:
  assumes once: "confirms_once h c" and key: "key \<in> lc_expected_observations c"
    and due: "due_counts (lc_expected_observations c) h (ObservationOp key confirmed) = (p, q)"
  shows "confirms_once (h @ [(ObservationOp key confirmed, True, p, q)])
    ((with_observation key confirmed c)\<lparr>lc_propagation_recorded := lc_propagation_recorded c \<or> p = 1,
       lc_confirmation_recorded := lc_confirmation_recorded c \<or> q = 1\<rparr>)"
  using once due with_observation_keys [OF once key, of confirmed]
  by (auto simp: confirms_once_def with_observation_def due_counts.simps Let_def split: if_splits)

lemma direct_propagated_once:
  assumes "confirms_once h c" "\<not> lc_propagation_recorded c"
    and "all_confirmed \<longleftrightarrow> confirmed \<or> lc_expected_observations c \<subseteq> confirmed_keys h"
  shows "confirms_once (h @ [(DirectPropagatedOp confirmed, True, 1, of_bool all_confirmed)])
    (c\<lparr>lc_propagation_recorded := True, lc_confirmation_recorded := all_confirmed\<rparr>)"
  using assms unfolding confirms_once_def by (simp add: due_counts.simps)

lemma direct_failed_once:
  assumes "confirms_once h c"
  shows "confirms_once (h @ [(DirectPropagatedOp confirmed, False, 0, 0)]) c"
  using assms unfolding confirms_once_def by simp

lemma RecordObservation_eq:
  "RecordObservation key confirmed (c, counters) =
     (if key \<notin> lc_expected_observations c
      then ((c, counters), Inl (RuntimeError ''transaction load confirmation received an unexpected observation''))
      else let c' = with_observation key confirmed c;
               all_confirmed = (card (lc_confirmed_observations c') = card (lc_expected_observations c')) in
        if \<not> lc_propagation_recorded c' \<and> card (lc_visible_observations c') = card (lc_expected_observations c')
        then (case RecordPropagated all_confirmed counters of
               (counters', Inl e) \<Rightarrow> ((c', counters'), Inl e)
             | (counters', Inr _) \<Rightarrow>
               ((c'\<lparr>lc_propagation_recorded := True, lc_confirmation_recorded := all_confirmed\<rparr>, counters'), Inr (Some counters')))
        else if lc_propagation_recorded c' \<and> \<not> lc_confirmation_recorded c' \<and> all_confirmed
        then (case RecordConfirmed counters of
               (counters', Inl e) \<Rightarrow> ((c', counters'), Inl e)
             | (counters', Inr _) \<Rightarrow> ((c'\<lparr>lc_confirmation_recorded := True\<rparr>, counters'), Inr (Some counters')))
        else ((c', counters), Inr None))"
  unfolding RecordObservation_def with_observation_def Let_def by simp

lemma with_observation_same [simp]:
  "lc_expected_observations (with_observation key confirmed c) = lc_expected_observations c"
  "lc_propagation_recorded (with_observation key confirmed c) = lc_propagation_recorded c"
  "lc_confirmation_recorded (with_observation key confirmed c) = lc_confirmation_recorded c"
  by (simp_all add: with_observation_def)

text \<open>What a call of the confirmation itself leaves, against the counters before it.\<close>

definition own_call :: "counted_call list \<Rightarrow> confirmation_op \<Rightarrow> TransactionLoadSnapshot \<Rightarrow> bool \<Rightarrow> confirmation_state \<Rightarrow> bool" where
  "own_call h op s success state \<longleftrightarrow> finite (lc_expected_observations (fst state)) \<and> (\<exists>ops. counts_calls ops (snd state)) \<and>
     confirms_once (h @ [(op, success, unat (ts_propagated (snd state)) - unat (ts_propagated s),
       unat (ts_confirmed (snd state)) - unat (ts_confirmed s))]) (fst state)"

lemma observation_propagates:
  assumes fin: "finite (lc_expected_observations c)" and counts: "counts_calls ops s" and once: "confirms_once h c"
    and key: "key \<in> lc_expected_observations c" and new: "\<not> lc_propagation_recorded c"
    and due: "due_counts (lc_expected_observations c) h (ObservationOp key confirmed) = (1, of_bool all)"
    and result: "r = (case RecordPropagated all s of (s', Inl e) \<Rightarrow> ((with_observation key confirmed c, s'), Inl e)
       | (s', Inr _) \<Rightarrow> (((with_observation key confirmed c)\<lparr>lc_propagation_recorded := True, lc_confirmation_recorded := all\<rparr>, s'), Inr (Some s')))"
  shows "own_call h (ObservationOp key confirmed) s (ok (snd r)) (fst r)"
proof -
  have "\<not> lc_confirmation_recorded c" using once new by (auto simp: confirms_once_def)
  then have after: "confirms_once (h @ [(ObservationOp key confirmed, True, 1, of_bool all)])
      ((with_observation key confirmed c)\<lparr>lc_propagation_recorded := True, lc_confirmation_recorded := all\<rparr>)"
    using observed_once [OF once key due] by (cases all) simp_all
  from RecordPropagated_counts [OF counts, of all] consider e where "RecordPropagated all s = (s, Inl e)"
    | s1 where "RecordPropagated all s = (s1, Inr ())" "counts_calls (ops @ [PropagatedOp all]) s1"
      "unat (ts_propagated s1) = unat (ts_propagated s) + 1" "unat (ts_confirmed s1) = unat (ts_confirmed s) + of_bool all"
    by blast
  then show ?thesis
  proof cases
    case 1
    then show ?thesis using fin counts failed_once [OF once key] by (auto simp: own_call_def result)
  next
    case 2
    then show ?thesis using fin after by (auto simp: own_call_def result)
  qed
qed

lemma observation_confirms:
  assumes fin: "finite (lc_expected_observations c)" and counts: "counts_calls ops s" and once: "confirms_once h c"
    and key: "key \<in> lc_expected_observations c" and c: "lc_propagation_recorded c"
    and due: "due_counts (lc_expected_observations c) h (ObservationOp key confirmed) = (0, 1)"
    and result: "r = (case RecordConfirmed s of (s', Inl e) \<Rightarrow> ((with_observation key confirmed c, s'), Inl e)
       | (s', Inr _) \<Rightarrow> (((with_observation key confirmed c)\<lparr>lc_confirmation_recorded := True\<rparr>, s'), Inr (Some s')))"
  shows "own_call h (ObservationOp key confirmed) s (ok (snd r)) (fst r)"
proof -
  have same: "(with_observation key confirmed c)\<lparr>lc_propagation_recorded := True, lc_confirmation_recorded := True\<rparr>
      = (with_observation key confirmed c)\<lparr>lc_confirmation_recorded := True\<rparr>"
    using c by (intro TransactionLoadConfirmation.equality) simp_all
  have after: "confirms_once (h @ [(ObservationOp key confirmed, True, 0, 1)])
      ((with_observation key confirmed c)\<lparr>lc_confirmation_recorded := True\<rparr>)"
    unfolding same [symmetric] using observed_once [OF once key due] c by simp
  from RecordConfirmed_counts [OF counts] consider e where "RecordConfirmed s = (s, Inl e)"
    | s1 where "RecordConfirmed s = (s1, Inr ())" "counts_calls (ops @ [ConfirmedOp]) s1"
      "unat (ts_propagated s1) = unat (ts_propagated s)" "unat (ts_confirmed s1) = unat (ts_confirmed s) + 1"
    by blast
  then show ?thesis
  proof cases
    case 1
    then show ?thesis using fin counts failed_once [OF once key] by (auto simp: own_call_def result)
  next
    case 2
    then show ?thesis using fin after by (auto simp: own_call_def result)
  qed
qed

lemma observation_reflects:
  assumes fin: "finite (lc_expected_observations c)" and once: "confirms_once h c" and counts: "counts_calls ops s"
  shows "own_call h (ObservationOp key confirmed) s (ok (snd (RecordObservation key confirmed (c, s))))
    (fst (RecordObservation key confirmed (c, s)))"
proof (cases "key \<in> lc_expected_observations c")
  case False
  then show ?thesis using unexpected_once [OF once False] fin counts
    by (auto simp: RecordObservation_eq own_call_def)
next
  case True
  let ?c = "with_observation key confirmed c" and ?E = "lc_expected_observations c"
  define visible where "visible = (?E \<subseteq> insert key (observed_keys h))"
  define all where "all = (?E \<subseteq> (if confirmed then insert key (confirmed_keys h) else confirmed_keys h))"
  have cards: "card (lc_visible_observations ?c) = card ?E \<longleftrightarrow> visible" "card (lc_confirmed_observations ?c) = card ?E \<longleftrightarrow> all"
    unfolding with_observation_keys [OF once True] visible_def all_def
    by (simp_all only: card_full [OF fin])
  have due: "due_counts ?E h (ObservationOp key confirmed) =
      (if \<not> lc_propagation_recorded c then (if visible then (1, of_bool all) else (0, 0))
       else (0, of_bool (\<not> lc_confirmation_recorded c \<and> all)))"
    using once by (simp add: confirms_once_def visible_def all_def due_counts.simps Let_def)
  note eq = RecordObservation_eq [of key confirmed c s, unfolded Let_def with_observation_same cards]
  consider "\<not> lc_propagation_recorded c" visible | "lc_propagation_recorded c" "\<not> lc_confirmation_recorded c" all
    | "\<not> lc_propagation_recorded c" "\<not> visible" | "lc_propagation_recorded c" "lc_confirmation_recorded c \<or> \<not> all" by blast
  then show ?thesis
  proof cases
    case 1
    then show ?thesis using True by (intro observation_propagates [OF fin counts once True, where all = all]) (simp_all add: due eq)
  next
    case 2
    then show ?thesis using True by (intro observation_confirms [OF fin counts once True]) (simp_all add: due eq)
  next
    case 3
    then show ?thesis using True observed_once [OF once True, of confirmed 0 0] fin counts
      by (auto simp: due eq own_call_def with_observation_def confirms_once_def)
  next
    case 4
    then show ?thesis using True observed_once [OF once True, of confirmed 0 0] fin counts
      by (auto simp: due eq own_call_def with_observation_def confirms_once_def)
  qed
qed

lemma direct_reflects:
  assumes fin: "finite (lc_expected_observations c)" and once: "confirms_once h c" and counts: "counts_calls ops s"
  shows "own_call h (DirectPropagatedOp confirmed) s (ok (snd (Confirmation_RecordPropagated confirmed (c, s))))
    (fst (Confirmation_RecordPropagated confirmed (c, s)))"
proof (cases "lc_propagation_recorded c")
  case True
  then show ?thesis using direct_failed_once [OF once, of confirmed] fin counts
    by (auto simp: Confirmation_RecordPropagated_def own_call_def)
next
  case False
  let ?all = "confirmed \<or> card (lc_confirmed_observations c) = card (lc_expected_observations c)"
  have "?all \<longleftrightarrow> confirmed \<or> lc_expected_observations c \<subseteq> confirmed_keys h"
    using once card_full [OF fin] by (simp add: confirms_once_def)
  note once1 = direct_propagated_once [OF once False this]
  from RecordPropagated_counts [OF counts, of ?all] show ?thesis
    using fin counts direct_failed_once [OF once, of confirmed] once1
    by (elim disjE exE conjE) (auto simp: Confirmation_RecordPropagated_def own_call_def Let_def False)
qed

lemma ok_map_sum [simp]: "ok (map_sum id f r) = ok r"
  by (cases r) simp_all

interpretation confirmation: recorded_object confirmation_exec confirmation_counted confirmation_reflects
proof
  fix h state op
  assume *: "confirmation_reflects h state"
  obtain c s ops where state: "state = (c, s)" and fin: "finite (lc_expected_observations c)"
    and once: "confirms_once h c" and counts: "counts_calls ops s"
    using * by (cases state) (auto simp: confirmation_reflects_def)
  show "confirmation_reflects (h @ confirmation_counted state op) (fst (confirmation_exec state op))"
  proof (cases op)
    case (ObservationOp key confirmed)
    show ?thesis using observation_reflects [OF fin once counts, of key confirmed]
      by (simp add: confirmation_reflects_def confirmation_counted_def own_call_def ObservationOp state Let_def split_def)
  next
    case (DirectPropagatedOp confirmed)
    show ?thesis using direct_reflects [OF fin once counts, of confirmed]
      by (simp add: confirmation_reflects_def confirmation_counted_def own_call_def DirectPropagatedOp state Let_def split_def)
  next
    case (OtherOp other)
    have "\<exists>ops. counts_calls ops (fst (accounting_exec s other))"
      using accounting_exec_cases [OF counts, of other] counts by auto
    then show ?thesis using fin once
      by (simp add: confirmation_reflects_def confirmation_counted_def OtherOp state)
  qed
qed

lemma new_confirmation_once:
  assumes "new_TransactionLoadConfirmation expected = Inr c"
  shows "finite (lc_expected_observations c)" "confirms_once [] c"
  using assms
  by (auto simp: new_TransactionLoadConfirmation_def confirms_once_def added_propagated_def added_confirmed_def
      observed_keys_def confirmed_keys_def counted_as_due_def split: if_splits)

text \<open>C34. A confirmation and the accounting it shares with other threads: in every interleaving of its own
  calls with calls of others on the accounting, and whichever of them throw, each of its successful calls adds exactly what
  is due after the calls before it, and a call that throws adds nothing. An observation counts the propagation when it
  completes the expected keys, and the confirmation when they are all confirmed and the propagation is counted; a direct report
  counts the propagation whatever was observed, and the confirmation if its caller says so or all expected keys are
  confirmed. All calls together count at most one propagation and at most one confirmation, none without the propagation, and
  the object records which were counted and which expected keys were observed.\<close>

theorem confirmation_counted_once:
  assumes "new_TransactionLoadConfirmation expected = Inr c"
    and "counters = fst (run accounting_exec EmptySnapshot before)"
  shows "confirms_once (collect confirmation_exec confirmation_counted (c, counters) ops)
    (fst (fst (run confirmation_exec (c, counters) ops)))"
proof -
  have "confirmation_reflects [] (c, counters)"
    using new_confirmation_once [OF assms(1)] accounting_reached [of before] assms(2)
    by (auto simp: confirmation_reflects_def)
  then show ?thesis using confirmation.run_reflects [of "[]" "(c, counters)" ops]
    by (simp add: confirmation_reflects_def)
qed

definition example_keys :: "ObservationKey list" where
  "example_keys = [(''t'', ''n1''), (''t'', ''n2'')]"

theorem confirmation_counted_once_witness:
  "\<exists>c. new_TransactionLoadConfirmation example_keys = Inr c \<and>
     confirms_once
       (collect confirmation_exec confirmation_counted (c, fst (run accounting_exec EmptySnapshot [OutcomeOp kSubmitted 7]))
          [ObservationOp (''t'', ''n1'') True, ObservationOp (''t'', ''n2'') False, ObservationOp (''t'', ''n2'') True])
       (fst (fst (run confirmation_exec (c, fst (run accounting_exec EmptySnapshot [OutcomeOp kSubmitted 7]))
          [ObservationOp (''t'', ''n1'') True, ObservationOp (''t'', ''n2'') False, ObservationOp (''t'', ''n2'') True])))"
proof -
  obtain c where "new_TransactionLoadConfirmation example_keys = Inr c"
    by (simp add: new_TransactionLoadConfirmation_def example_keys_def)
  from this confirmation_counted_once [OF this refl] show ?thesis by blast
qed

subsection \<open>The queue of tasks\<close>

datatype load_queue_op =
  LoadPushOp "WalletTransactionLoadTask list" "unit result" | LoadPopOp bool | LoadCloseOp | LoadDropOp | LoadCancelOp

datatype load_queue_out =
  LoadPushed "bool result" | LoadPopped "WalletTransactionLoadTask option" | LoadBlocked | LoadClosed
  | LoadDropped "WalletTransactionLoadTask list"

fun load_queue_exec ::
    "BoundedWalletTransactionQueue \<Rightarrow> load_queue_op \<Rightarrow> BoundedWalletTransactionQueue \<times> load_queue_out" where
  "load_queue_exec q (LoadPushOp tasks before_publish) = map_prod id LoadPushed (TryPushBatch tasks before_publish q)"
| "load_queue_exec q (LoadPopOp stop_requested) =
     (case Pop stop_requested q of None \<Rightarrow> (q, LoadBlocked) | Some r \<Rightarrow> map_prod id LoadPopped r)"
| "load_queue_exec q LoadCloseOp = (LoadQueue_Close q, LoadClosed)"
| "load_queue_exec q LoadDropOp = map_prod id LoadDropped (DropPendingAndClose q)"
| "load_queue_exec q LoadCancelOp = map_prod id LoadDropped (LoadQueue_Cancel q)"

text \<open>A batch that reports success enters whole; what is popped or dropped goes to the caller.\<close>

fun load_queue_entered :: "BoundedWalletTransactionQueue \<Rightarrow> load_queue_op \<Rightarrow> WalletTransactionLoadTask list" where
  "load_queue_entered q (LoadPushOp tasks before_publish) =
     (if snd (TryPushBatch tasks before_publish q) = Inr True then tasks else [])"
| "load_queue_entered q _ = []"

fun load_out_tasks :: "load_queue_out \<Rightarrow> WalletTransactionLoadTask list" where
  "load_out_tasks (LoadPopped (Some task)) = [task]"
| "load_out_tasks (LoadDropped tasks) = tasks"
| "load_out_tasks _ = []"

definition load_queue_left :: "BoundedWalletTransactionQueue \<Rightarrow> load_queue_op \<Rightarrow> WalletTransactionLoadTask list" where
  "load_queue_left q op = load_out_tasks (snd (load_queue_exec q op))"

definition load_queue_inv :: "nat \<Rightarrow> BoundedWalletTransactionQueue \<Rightarrow> bool" where
  "load_queue_inv capacity q \<longleftrightarrow>
     lq_capacity q = capacity \<and> length (lq_tasks q) \<le> lq_maximum_size q \<and> lq_maximum_size q \<le> lq_capacity q \<and>
     (lq_cancelled q \<longrightarrow> lq_closed q \<and> lq_tasks q = [])"

lemma TryPushBatch_cases:
  obtains (published) "\<not> lq_closed q" "length (lq_tasks q) + length tasks \<le> lq_capacity q"
      "TryPushBatch tasks before_publish q =
        (q\<lparr>lq_tasks := lq_tasks q @ tasks, lq_maximum_size := max (lq_maximum_size q) (length (lq_tasks q) + length tasks)\<rparr>, Inr True)"
    | (refused) r where "TryPushBatch tasks before_publish q = (q, r)" "r \<noteq> Inr True"
  unfolding TryPushBatch_def
  by (cases "lq_closed q"; cases "length tasks > lq_capacity q \<or> length (lq_tasks q) > lq_capacity q - length tasks";
      cases before_publish) (auto simp: Let_def)

lemma load_queue_exec_inv: "load_queue_inv capacity q \<Longrightarrow> load_queue_inv capacity (fst (load_queue_exec q op))"
proof (cases op)
  case (LoadPushOp tasks before_publish)
  assume "load_queue_inv capacity q"
  then show ?thesis using LoadPushOp
    by (cases rule: TryPushBatch_cases [of q tasks before_publish]) (auto simp: load_queue_inv_def)
next
  case (LoadPopOp stop_requested)
  assume "load_queue_inv capacity q"
  then show ?thesis using LoadPopOp
    by (auto simp: Pop_def load_queue_inv_def split: list.splits)
qed (auto simp: load_queue_inv_def LoadQueue_Close_def DropPendingAndClose_def LoadQueue_Cancel_def)

interpretation lq: fifo_object load_queue_exec "load_queue_inv capacity" lq_tasks load_queue_entered load_queue_left
proof
  fix q op
  assume "load_queue_inv capacity q"
  then show "load_queue_inv capacity (fst (load_queue_exec q op))" by (rule load_queue_exec_inv)
next
  fix q op
  show "lq_tasks q @ load_queue_entered q op = load_queue_left q op @ lq_tasks (fst (load_queue_exec q op))"
  proof (cases op)
    case (LoadPushOp tasks before_publish)
    then show ?thesis
      by (cases rule: TryPushBatch_cases [of q tasks before_publish]) (simp_all add: load_queue_left_def)
  next
    case (LoadPopOp stop_requested)
    then show ?thesis
      by (auto simp: Pop_def load_queue_left_def split: list.splits)
  qed (simp_all add: load_queue_left_def LoadQueue_Close_def DropPendingAndClose_def LoadQueue_Cancel_def)
qed

text \<open>C35. The bounded queue of load tasks, in every sequence of pushes, pops, closes, drops and cancels: the
  tasks that entered, in order, are those handed out, in order, followed by those still queued, so none is
  lost, repeated or overtaken and a batch enters whole or not at all; the queue never holds more than its
  capacity and reports its largest size; and a cancelled queue is closed and empty.\<close>

theorem load_queue_in_order:
  assumes "new_BoundedWalletTransactionQueue capacity = Inr q"
  shows "collect load_queue_exec load_queue_entered q ops =
      collect load_queue_exec load_queue_left q ops @ lq_tasks (fst (run load_queue_exec q ops)) \<and>
    load_queue_inv capacity (fst (run load_queue_exec q ops))"
proof -
  have q: "load_queue_inv capacity q" "lq_tasks q = []"
    using assms by (auto simp: new_BoundedWalletTransactionQueue_def load_queue_inv_def split: if_splits)
  then show ?thesis using lq.run_fifo [OF q(1), of ops] lq.run_inv [OF q(1), of ops] by simp
qed

definition example_task :: WalletTransactionLoadTask where
  "example_task = \<lparr>tk_transaction_index = 1, tk_plan = \<lparr>pe_sender_index = 0, pe_receiver_index = 1, pe_amount_satoshis = 5, pe_interval_before = 0\<rparr>,
     tk_scheduled_simulation_elapsed = None, tk_scheduled_wall_elapsed = None, tk_scheduled_at = 0\<rparr>"

theorem load_queue_in_order_witness:
  "\<exists>q. new_BoundedWalletTransactionQueue 2 = Inr q \<and>
     collect load_queue_exec load_queue_entered q [LoadPushOp [example_task, example_task] (Inr ()), LoadPopOp False, LoadCancelOp] =
       [example_task, example_task] \<and>
     load_queue_inv 2 (fst (run load_queue_exec q [LoadPushOp [example_task, example_task] (Inr ()), LoadPopOp False, LoadCancelOp]))"
proof -
  let ?q = "\<lparr>lq_capacity = 2, lq_tasks = [], lq_maximum_size = 0, lq_closed = False, lq_cancelled = False\<rparr>"
  have q: "new_BoundedWalletTransactionQueue 2 = Inr ?q" by (simp add: new_BoundedWalletTransactionQueue_def)
  then show ?thesis
    using load_queue_in_order [OF q, of "[LoadPushOp [example_task, example_task] (Inr ()), LoadPopOp False, LoadCancelOp]"]
    by (intro exI [of _ ?q]) (simp add: TryPushBatch_def)
qed

subsection \<open>The schedule of a task\<close>

lemma ceiling_div_mono: "a \<le> b \<Longrightarrow> ceiling_div a m \<le> ceiling_div b m"
  by (simp add: ceiling_div_def div_le_mono)

lemma ApplyTransactionLoadRateSchedule_ok:
  assumes "0 < rate" "rate \<le> kMaximumTransactionRateUnits" "0 < time_scale" "time_scale \<le> kMaximumScaleUnits"
    and "ApplyTransactionLoadRateSchedule rate time_scale rate_epoch i task = Inr task'"
  shows "tk_scheduled_at task' = rate_epoch +
      int (ceiling_div (ceiling_div (unat i * 1000000000) (unat rate) * 1000000) (unat time_scale)) * 1000000"
    "rate_epoch \<le> tk_scheduled_at task'" "tk_scheduled_at task' \<le> max_time_point"
proof -
  obtain t w where t: "SimulationElapsedBefore rate i = Inr t" and w: "WallDuration time_scale t = Inr w"
    and le: "w \<le> (max_time_point - rate_epoch) div 1000000"
    and at: "tk_scheduled_at task' = rate_epoch + w * 1000000"
    using assms(5)
    by (auto simp: ApplyTransactionLoadRateSchedule_def Let_def result_simps not_less split: if_splits)
  have t': "t = int (ceiling_div (unat i * 1000000000) (unat rate))" "t \<le> 9223372036854775807"
    using t SimulationElapsedBefore_exact [OF assms(1,2), of i] by (auto simp: Let_def split: if_splits)
  then have "w = int (ceiling_div (nat t * 1000000) (unat time_scale))"
    using w WallDuration_exact [OF assms(3,4), of t] by (auto simp: Let_def split: if_splits)
  then show "tk_scheduled_at task' = rate_epoch +
      int (ceiling_div (ceiling_div (unat i * 1000000000) (unat rate) * 1000000) (unat time_scale)) * 1000000"
    and "rate_epoch \<le> tk_scheduled_at task'"
    using at t'(1) by simp_all
  show "tk_scheduled_at task' \<le> max_time_point" using at le by linarith
qed

text \<open>Every task that is scheduled is due between the epoch and the end of the clock's range, at the
  exact quotient rounded up to a millisecond at each of the two conversions, and tasks are due in the order
  of their indexes.\<close>

theorem tasks_due_in_order:
  assumes "0 < rate" "rate \<le> kMaximumTransactionRateUnits" "0 < time_scale" "time_scale \<le> kMaximumScaleUnits"
    and "ApplyTransactionLoadRateSchedule rate time_scale rate_epoch i task = Inr task'"
    and "ApplyTransactionLoadRateSchedule rate time_scale rate_epoch j later = Inr later'" "i \<le> j"
  shows "rate_epoch \<le> tk_scheduled_at task' \<and> tk_scheduled_at task' \<le> tk_scheduled_at later' \<and>
    tk_scheduled_at later' \<le> max_time_point \<and>
    tk_scheduled_at task' = rate_epoch +
      int (ceiling_div (ceiling_div (unat i * 10 ^ 9) (unat rate) * 10 ^ 6) (unat time_scale)) * 10 ^ 6"
proof -
  note first = ApplyTransactionLoadRateSchedule_ok [OF assms(1-5)]
  note second = ApplyTransactionLoadRateSchedule_ok [OF assms(1-4,6)]
  have "unat i \<le> unat j" using assms(7) by (simp add: word_le_nat_alt)
  then have "ceiling_div (ceiling_div (unat i * 1000000000) (unat rate) * 1000000) (unat time_scale) \<le>
      ceiling_div (ceiling_div (unat j * 1000000000) (unat rate) * 1000000) (unat time_scale)"
    by (intro ceiling_div_mono mult_le_mono1)
  then show ?thesis using first second by simp
qed

theorem tasks_due_in_order_witness:
  "map_sum id tk_scheduled_at (ApplyTransactionLoadRateSchedule 3000000 1000000 5 1 example_task) = Inr 334000005 \<and>
   map_sum id tk_scheduled_at (ApplyTransactionLoadRateSchedule 3000000 1000000 5 2 example_task) = Inr 667000005"
proof -
  have range: "(0 :: u64) < 3000000" "(3000000 :: u64) \<le> kMaximumTransactionRateUnits"
    "(0 :: u64) < 1000000" "(1000000 :: u64) \<le> kMaximumScaleUnits"
    by (simp_all add: kMaximumTransactionRateUnits_def kTransactionRateUnitsPerOne_def kMaximumScaleUnits_def kScaleUnitsPerOne_def)
  have run: "ApplyTransactionLoadRateSchedule 3000000 1000000 5 1 example_task =
      Inr (example_task\<lparr>tk_scheduled_simulation_elapsed := Some 334, tk_scheduled_wall_elapsed := Some 334, tk_scheduled_at := 334000005\<rparr>)"
    "ApplyTransactionLoadRateSchedule 3000000 1000000 5 2 example_task =
      Inr (example_task\<lparr>tk_scheduled_simulation_elapsed := Some 667, tk_scheduled_wall_elapsed := Some 667, tk_scheduled_at := 667000005\<rparr>)"
    by (simp_all add: ApplyTransactionLoadRateSchedule_def SimulationElapsedBefore_def WallDuration_def ScaleMilliseconds_def
        max_milliseconds_def kMillisecondsTimesRateUnits_def kTransactionRateUnitsPerOne_def kScaleUnitsPerOne_def
        max_time_point_def Let_def)
  have "(1 :: u64) \<le> 2" by simp
  from tasks_due_in_order [OF range run this] run show ?thesis by simp
qed

end
