(* ===== verification/Balance_Ledger.thy ===== *)
theory Balance_Ledger
  imports Transaction_Load
begin

text \<open>
  The balance ledger of a transaction load, \<open>TransactionLoadBalanceReservations\<close> in
  \<open>src/transaction_load.cpp\<close>: a batch that a planner proposes is reserved against the balances
  of its senders before it is queued, and each reservation is settled once. The admission callback
  and the settlement callback are arguments: what they return or throw. \<open>std::map\<close> is a list sorted
  by its keys; a critical section is one step.
\<close>

subsection \<open>The ledger\<close>

record Reservation =
  rs_sender_index :: nat
  rs_amount_satoshis :: u64

record TransactionLoadBalanceReservations =
  lg_fee_reserve_satoshis :: u64
  lg_maximum_reservations :: nat
  lg_available_balances :: "u64 list"
  lg_reserved_by_sender :: "u64 list"
  lg_outstanding_by_sender :: "nat list"
  lg_reservations :: "(u64 \<times> Reservation) list"
  lg_maximum_size :: nat
  lg_balance_revision :: u64

record TransactionLoadBatchAdmission =
  ba_plans :: "WalletTransactionPlanEntry list"
  ba_admitted :: bool
  ba_balance_revision :: u64

definition new_TransactionLoadBalanceReservations ::
    "u64 list \<Rightarrow> u64 \<Rightarrow> nat \<Rightarrow> TransactionLoadBalanceReservations result" where
  "new_TransactionLoadBalanceReservations available_balances fee_reserve_satoshis maximum_reservations =
     (if available_balances = []
      then Inl (RuntimeError ''transaction load balance ledger requires a wallet'')
      else if fee_reserve_satoshis = 0
      then Inl (RuntimeError ''transaction load balance ledger requires a fee reserve'')
      else if maximum_reservations = 0
      then Inl (RuntimeError ''transaction load balance ledger requires a positive bound'')
      else Inr \<lparr>lg_fee_reserve_satoshis = fee_reserve_satoshis, lg_maximum_reservations = maximum_reservations,
        lg_available_balances = available_balances,
        lg_reserved_by_sender = replicate (length available_balances) 0,
        lg_outstanding_by_sender = replicate (length available_balances) 0,
        lg_reservations = [], lg_maximum_size = 0, lg_balance_revision = 0\<rparr>)"

text \<open>\<open>std::map::erase\<close> and \<open>std::map::merge\<close>, which leaves behind what the target has already.\<close>

definition smap_erase :: "'k \<Rightarrow> ('k \<times> 'v) list \<Rightarrow> ('k \<times> 'v) list" where
  "smap_erase k m = filter (\<lambda>p. fst p \<noteq> k) m"

definition smap_merge :: "('k :: linorder \<times> 'v) list \<Rightarrow> ('k \<times> 'v) list \<Rightarrow> ('k \<times> 'v) list \<times> ('k \<times> 'v) list" where
  "smap_merge staged m =
     (fold (\<lambda>(k, v) m. smap_insert k v m) (filter (\<lambda>p. map_of m (fst p) = None) staged) m,
      filter (\<lambda>p. map_of m (fst p) \<noteq> None) staged)"

fun RollBackReservations ::
    "u64 list \<Rightarrow> TransactionLoadBalanceReservations \<Rightarrow> TransactionLoadBalanceReservations \<times> unit result" where
  "RollBackReservations [] ledger = (ledger, Inr ())"
| "RollBackReservations (transaction_index # transaction_indexes) ledger =
     (case map_of (lg_reservations ledger) transaction_index of
        None \<Rightarrow> (ledger, Inl (RuntimeError ''transaction load admission rollback lost a reservation''))
      | Some reservation \<Rightarrow>
        let sender = rs_sender_index reservation; amount = rs_amount_satoshis reservation in
        if sender \<ge> length (lg_reserved_by_sender ledger) then (ledger, Inl (OutOfRange ''vector::at''))
        else if lg_reserved_by_sender ledger ! sender < amount
        then (ledger, Inl (RuntimeError ''transaction load admission rollback underflows reservations''))
        else if lg_available_balances ledger ! sender > max_u64 - amount
        then (ledger, Inl (RuntimeError ''transaction load admission rollback overflows balance''))
        else let ledger = ledger\<lparr>lg_reserved_by_sender :=
                   (lg_reserved_by_sender ledger)[sender := lg_reserved_by_sender ledger ! sender - amount]\<rparr> in
          if lg_outstanding_by_sender ledger ! sender = 0
          then (ledger, Inl (RuntimeError ''transaction load admission rollback underflows sender count''))
          else RollBackReservations transaction_indexes (ledger\<lparr>
            lg_outstanding_by_sender :=
              (lg_outstanding_by_sender ledger)[sender := lg_outstanding_by_sender ledger ! sender - 1],
            lg_available_balances :=
              (lg_available_balances ledger)[sender := lg_available_balances ledger ! sender + amount],
            lg_reservations := smap_erase transaction_index (lg_reservations ledger)\<rparr>))"

subsection \<open>Planning and reserving\<close>

text \<open>The reservations of a batch while they are checked: the expected balances and reserved totals,
  the staged reservations and their indexes.\<close>

type_synonym staging = "u64 list \<times> u64 list \<times> (u64 \<times> Reservation) list \<times> u64 list"

definition StageReservation ::
    "TransactionLoadBalanceReservations \<Rightarrow> u64 \<Rightarrow> nat \<times> WalletTransactionPlanEntry \<Rightarrow> staging \<Rightarrow> staging result" where
  "StageReservation ledger first_transaction_index = (\<lambda>(offset, entry) (expected_balances, expected_reserved, staged, transaction_indexes).
     let sender = pe_sender_index entry; fee = lg_fee_reserve_satoshis ledger in
     if word_of_nat offset > max_u64 - first_transaction_index
     then Inl (RuntimeError ''transaction load reservation transaction index overflows uint64'')
     else let transaction_index = first_transaction_index + word_of_nat offset in
       if map_of (lg_reservations ledger) transaction_index \<noteq> None
       then Inl (RuntimeError ''transaction load reservation transaction index is duplicated'')
       else if sender \<ge> length expected_balances
       then Inl (RuntimeError ''transaction load reservation sender is outside the balance ledger'')
       else if lg_outstanding_by_sender ledger ! sender \<noteq> 0
       then Inl (RuntimeError ''transaction load planner reused a busy sender'')
       else if pe_amount_satoshis entry > max_u64 - fee
       then Inl (RuntimeError ''transaction load reservation amount plus fee overflows uint64'')
       else let reserved_amount = pe_amount_satoshis entry + fee in
         if expected_balances ! sender < reserved_amount
         then Inl (RuntimeError ''transaction load reservation exceeds the available balance'')
         else if expected_reserved ! sender > max_u64 - reserved_amount
         then Inl (RuntimeError ''transaction load outstanding reservation total overflows uint64'')
         else Inr (expected_balances[sender := expected_balances ! sender - reserved_amount],
           expected_reserved[sender := expected_reserved ! sender + reserved_amount],
           smap_insert transaction_index \<lparr>rs_sender_index = sender, rs_amount_satoshis = reserved_amount\<rparr> staged,
           transaction_indexes @ [transaction_index]))"

text \<open>The balances shown to the planner, in which a busy sender has nothing, and the comparison of
  what the planner took with what was staged.\<close>

definition SetBusy :: "TransactionLoadBalanceReservations \<Rightarrow> (nat \<Rightarrow> u64) \<Rightarrow> u64 list \<Rightarrow> u64 list" where
  "SetBusy ledger balance planned_balances =
     fold (\<lambda>sender planned. if lg_outstanding_by_sender ledger ! sender \<noteq> 0
         then planned[sender := balance sender] else planned)
       [0..<length (lg_outstanding_by_sender ledger)] planned_balances"

definition IdleBalances :: "TransactionLoadBalanceReservations \<Rightarrow> u64 list" where
  "IdleBalances ledger = SetBusy ledger (\<lambda>_. 0) (lg_available_balances ledger)"

definition RestoreBusy :: "TransactionLoadBalanceReservations \<Rightarrow> u64 list \<Rightarrow> u64 list \<Rightarrow> u64 list" where
  "RestoreBusy ledger expected_balances planned_balances =
     SetBusy ledger (\<lambda>sender. expected_balances ! sender) planned_balances"

definition ReserveStaged ::
    "staging \<Rightarrow> TransactionLoadBalanceReservations \<Rightarrow> TransactionLoadBalanceReservations \<times> unit result" where
  "ReserveStaged = (\<lambda>(expected_balances, expected_reserved, staged, transaction_indexes) ledger.
     let (merged, left_over) = smap_merge staged (lg_reservations ledger);
         ledger = ledger\<lparr>lg_available_balances := expected_balances, lg_reserved_by_sender := expected_reserved,
           lg_outstanding_by_sender :=
             fold (\<lambda>(i, r) outstanding. outstanding[rs_sender_index r := outstanding ! rs_sender_index r + 1]) staged
               (lg_outstanding_by_sender ledger),
           lg_reservations := merged\<rparr> in
     if left_over \<noteq> []
     then (ledger, Inl (RuntimeError ''transaction load reservation staging contains a duplicate''))
     else (ledger\<lparr>lg_maximum_size := max (lg_maximum_size ledger) (length merged)\<rparr>, Inr ()))"

text \<open>The checks on a planned batch: what to reserve.\<close>

definition StageBatch ::
    "TransactionLoadBalanceReservations \<Rightarrow> u64 \<Rightarrow> u64 \<Rightarrow> u64 list \<Rightarrow> WalletTransactionPlanEntry list \<Rightarrow> staging result" where
  "StageBatch ledger first_transaction_index remaining_attempts planned_balances planned =
     (if planned = [] \<or> length planned > unat remaining_attempts
      then Inl (RuntimeError ''transaction load planner returned an invalid batch size'')
      else if length (lg_reservations ledger) > lg_maximum_reservations ledger \<or>
          length planned > lg_maximum_reservations ledger - length (lg_reservations ledger)
      then Inl (RuntimeError ''transaction load reservation bound would be exceeded'')
      else bind_result (fold_result (StageReservation ledger first_transaction_index) (enumerate 0 planned)
          (lg_available_balances ledger, lg_reserved_by_sender ledger, [], [])) (\<lambda>staging.
        if fst staging \<noteq> RestoreBusy ledger (fst staging) planned_balances
        then Inl (RuntimeError ''transaction load planner balance delta does not match reservations'')
        else Inr staging))"

text \<open>Admission of a reserved batch: a refusal and an exception both undo the reservations.\<close>

definition AdmitBatch ::
    "(WalletTransactionPlanEntry list \<Rightarrow> bool result) \<Rightarrow> WalletTransactionPlanEntry list \<Rightarrow> u64 list \<Rightarrow>
     TransactionLoadBalanceReservations \<Rightarrow> TransactionLoadBalanceReservations \<times> TransactionLoadBatchAdmission result" where
  "AdmitBatch admit_batch planned transaction_indexes ledger =
     (let admission = \<lparr>ba_plans = planned, ba_admitted = True, ba_balance_revision = lg_balance_revision ledger\<rparr> in
      case admit_batch planned of
        Inl e \<Rightarrow> (case RollBackReservations transaction_indexes ledger of
            (ledger, Inl rollback) \<Rightarrow> (ledger, Inl rollback)
          | (ledger, Inr _) \<Rightarrow> (ledger, Inl e))
      | Inr True \<Rightarrow> (ledger, Inr admission)
      | Inr False \<Rightarrow> (case RollBackReservations transaction_indexes ledger of
            (ledger, Inl rollback) \<Rightarrow> (ledger, Inl rollback)
          | (ledger, Inr _) \<Rightarrow> (ledger, Inr (admission\<lparr>ba_admitted := False\<rparr>))))"

definition PlanAndReserve ::
    "'g rng \<Rightarrow> 'g WalletTransactionLoadPlanner \<Rightarrow> u64 \<Rightarrow> u64 \<Rightarrow> (WalletTransactionPlanEntry list \<Rightarrow> bool result) \<Rightarrow>
     TransactionLoadBalanceReservations \<Rightarrow>
     ('g WalletTransactionLoadPlanner \<times> TransactionLoadBalanceReservations) \<times> TransactionLoadBatchAdmission result" where
  "PlanAndReserve R planner first_transaction_index remaining_attempts admit_batch ledger =
     (if first_transaction_index = 0 \<or> remaining_attempts = 0
      then ((planner, ledger), Inl (RuntimeError ''transaction load balance ledger requires a valid attempt range''))
      else let ((planner, planned_balances), planned) =
             NextBatch R planner (IdleBalances ledger) (unat remaining_attempts) in
        case planned of
          Inl e \<Rightarrow> ((planner, ledger), Inl e)
        | Inr None \<Rightarrow> ((planner, ledger),
            Inr \<lparr>ba_plans = [], ba_admitted = False, ba_balance_revision = lg_balance_revision ledger\<rparr>)
        | Inr (Some plans) \<Rightarrow>
          (case StageBatch ledger first_transaction_index remaining_attempts planned_balances plans of
             Inl e \<Rightarrow> ((planner, ledger), Inl e)
           | Inr staging \<Rightarrow>
             (case ReserveStaged staging ledger of
                (ledger, Inl e) \<Rightarrow> ((planner, ledger), Inl e)
              | (ledger, Inr _) \<Rightarrow>
                let (ledger, admission) = AdmitBatch admit_batch plans (snd (snd (snd staging))) ledger in
                ((planner, ledger), admission))))"

subsection \<open>Settling and refreshing\<close>

text \<open>\<open>on_settled\<close> is called with the amount of the reservation; it may throw. The balance that a
  settlement leaves available, and the message when the actual balance is too low.\<close>

definition SettledBalance ::
    "u64 \<Rightarrow> u64 \<Rightarrow> u64 \<Rightarrow> u64 option \<Rightarrow> bool \<Rightarrow> (u64 \<times> string) result" where
  "SettledBalance available remaining_reserved amount actual_available_balance release_if_balance_unavailable =
     (case actual_available_balance of
        Some actual \<Rightarrow>
          if actual < remaining_reserved
          then Inr (0, ''transaction load actual balance is below outstanding reservations'')
          else Inr (actual - remaining_reserved, [])
      | None \<Rightarrow>
          if release_if_balance_unavailable
          then if available > max_u64 - amount
            then Inl (RuntimeError ''transaction load released reservation overflows balance'')
            else Inr (available + amount, [])
          else Inr (available, []))"

definition Settle ::
    "u64 \<Rightarrow> u64 option \<Rightarrow> bool \<Rightarrow> (u64 \<Rightarrow> unit result) \<Rightarrow> TransactionLoadBalanceReservations \<Rightarrow>
     TransactionLoadBalanceReservations \<times> unit result" where
  "Settle transaction_index actual_available_balance release_if_balance_unavailable on_settled ledger =
     (case map_of (lg_reservations ledger) transaction_index of
        None \<Rightarrow> (ledger, Inl (RuntimeError ''transaction load reservation was settled more than once''))
      | Some reservation \<Rightarrow>
        let sender = rs_sender_index reservation; amount = rs_amount_satoshis reservation in
        if sender \<ge> length (lg_reserved_by_sender ledger) then (ledger, Inl (OutOfRange ''vector::at''))
        else if lg_reserved_by_sender ledger ! sender < amount
        then (ledger, Inl (RuntimeError ''transaction load outstanding reservation total underflows''))
        else let remaining_reserved = lg_reserved_by_sender ledger ! sender - amount in
          if lg_outstanding_by_sender ledger ! sender = 0
          then (ledger, Inl (RuntimeError ''transaction load sender reservation count underflows''))
          else case SettledBalance (lg_available_balances ledger ! sender) remaining_reserved amount
              actual_available_balance release_if_balance_unavailable of
            Inl e \<Rightarrow> (ledger, Inl e)
          | Inr (available, reconciliation_error) \<Rightarrow>
            if lg_balance_revision ledger = max_u64
            then (ledger, Inl (RuntimeError ''transaction load balance revision overflows uint64''))
            else (ledger\<lparr>lg_available_balances := (lg_available_balances ledger)[sender := available],
                lg_reserved_by_sender := (lg_reserved_by_sender ledger)[sender := remaining_reserved],
                lg_outstanding_by_sender :=
                  (lg_outstanding_by_sender ledger)[sender := lg_outstanding_by_sender ledger ! sender - 1],
                lg_reservations := smap_erase transaction_index (lg_reservations ledger),
                lg_balance_revision := lg_balance_revision ledger + 1\<rparr>,
              bind_result (on_settled amount) (\<lambda>_.
                require (reconciliation_error = []) (RuntimeError reconciliation_error))))"

text \<open>\<open>None\<close>: the caller waits for a settlement or a refresh; \<open>stop_requested\<close> ends the wait.\<close>

definition WaitForResolution ::
    "u64 \<Rightarrow> bool \<Rightarrow> TransactionLoadBalanceReservations \<Rightarrow> bool option" where
  "WaitForResolution observed_revision stop_requested ledger =
     (if lg_reservations ledger = [] \<or> lg_balance_revision ledger \<noteq> observed_revision \<or> stop_requested
      then Some (lg_balance_revision ledger \<noteq> observed_revision)
      else None)"

definition RefreshAvailableBalances ::
    "u64 list \<Rightarrow> TransactionLoadBalanceReservations \<Rightarrow> TransactionLoadBalanceReservations \<times> bool result" where
  "RefreshAvailableBalances available_balances ledger =
     (if lg_reservations ledger \<noteq> []
      then (ledger, Inl (RuntimeError ''transaction load balances cannot refresh with outstanding work''))
      else if length available_balances \<noteq> length (lg_available_balances ledger)
      then (ledger, Inl (RuntimeError ''transaction load balance refresh has an invalid wallet count''))
      else let changed = (available_balances \<noteq> lg_available_balances ledger);
               ledger = ledger\<lparr>lg_available_balances := available_balances\<rparr> in
        if lg_balance_revision ledger = max_u64
        then (ledger, Inl (RuntimeError ''transaction load balance revision overflows uint64''))
        else (ledger\<lparr>lg_balance_revision := lg_balance_revision ledger + 1\<rparr>, Inr changed))"

subsection \<open>Well-formed ledgers\<close>

definition tally :: "(Reservation \<Rightarrow> nat) \<Rightarrow> (u64 \<times> Reservation) list \<Rightarrow> nat" where
  "tally weight reservations = sum_list (map (\<lambda>p. weight (snd p)) reservations)"

definition amount_of :: "nat \<Rightarrow> Reservation \<Rightarrow> nat" where
  "amount_of sender r = (if rs_sender_index r = sender then unat (rs_amount_satoshis r) else 0)"

definition one_of :: "nat \<Rightarrow> Reservation \<Rightarrow> nat" where
  "one_of sender r = (if rs_sender_index r = sender then 1 else 0)"

definition wf_ledger :: "TransactionLoadBalanceReservations \<Rightarrow> bool" where
  "wf_ledger l \<longleftrightarrow>
     lg_fee_reserve_satoshis l \<noteq> 0 \<and>
     length (lg_reserved_by_sender l) = length (lg_available_balances l) \<and>
     length (lg_outstanding_by_sender l) = length (lg_available_balances l) \<and>
     sorted_keys (lg_reservations l) \<and>
     list_all (\<lambda>p. rs_sender_index (snd p) < length (lg_available_balances l)) (lg_reservations l) \<and>
     list_all (\<lambda>sender. unat (lg_reserved_by_sender l ! sender) = tally (amount_of sender) (lg_reservations l) \<and>
         lg_outstanding_by_sender l ! sender = tally (one_of sender) (lg_reservations l) \<and>
         unat (lg_available_balances l ! sender) + unat (lg_reserved_by_sender l ! sender) < 2 ^ 64)
       [0..<length (lg_available_balances l)] \<and>
     length (lg_reservations l) \<le> lg_maximum_size l \<and> lg_maximum_size l \<le> lg_maximum_reservations l"

definition funds :: "TransactionLoadBalanceReservations \<Rightarrow> nat \<Rightarrow> nat" where
  "funds l sender = unat (lg_available_balances l ! sender) + unat (lg_reserved_by_sender l ! sender)"

lemma tally_simps [simp]:
  "tally weight [] = 0"
  "tally weight (p # m) = weight (snd p) + tally weight m"
  "tally weight (m @ m') = tally weight m + tally weight m'"
  by (simp_all add: tally_def)

lemma tally_insert:
  assumes "map_of m k = None"
  shows "tally weight (smap_insert k r m) = weight r + tally weight m" "length (smap_insert k r m) = Suc (length m)"
  using assms by (induction k r m rule: smap_insert.induct) (auto split: if_splits)

lemma smap_erase_fresh: "map_of m k = None \<Longrightarrow> smap_erase k m = m"
  by (auto simp: smap_erase_def map_of_eq_None_iff filter_id_conv)

lemma tally_erase:
  assumes "sorted_keys m" "map_of m k = Some r"
  shows "tally weight m = weight r + tally weight (smap_erase k m) \<and> length m = Suc (length (smap_erase k m))"
  using assms
proof (induction m)
  case (Cons p m)
  show ?case
  proof (cases "fst p = k")
    case True
    then have "map_of m k = None" using Cons.prems(1) by (auto simp: map_of_eq_None_iff)
    from smap_erase_fresh [OF this] True Cons.prems(2) show ?thesis by (cases p) (simp add: smap_erase_def)
  next
    case False
    then have "map_of m k = Some r" using Cons.prems(2) by (cases p) (simp split: if_splits)
    with Cons.IH Cons.prems(1) False show ?thesis by (simp add: smap_erase_def)
  qed
qed simp

lemma sorted_keys_filter: "sorted_keys m \<Longrightarrow> sorted_keys (filter P m)"
  by (induction m) auto

lemma sorted_keys_erase [simp]: "sorted_keys m \<Longrightarrow> sorted_keys (smap_erase k m)"
  unfolding smap_erase_def by (rule sorted_keys_filter)

lemma map_of_erase [simp]: "map_of (smap_erase k m) i = (if i = k then None else map_of m i)"
  by (induction m) (auto simp: smap_erase_def)

lemma wf_ledgerD:
  assumes "wf_ledger l"
  shows "length (lg_reserved_by_sender l) = length (lg_available_balances l)"
    "length (lg_outstanding_by_sender l) = length (lg_available_balances l)" "sorted_keys (lg_reservations l)"
    "length (lg_reservations l) \<le> lg_maximum_size l" "lg_maximum_size l \<le> lg_maximum_reservations l"
    "lg_fee_reserve_satoshis l \<noteq> 0"
    "\<And>i r. map_of (lg_reservations l) i = Some r \<Longrightarrow> rs_sender_index r < length (lg_available_balances l)"
    "\<And>s. s < length (lg_available_balances l) \<Longrightarrow> unat (lg_reserved_by_sender l ! s) = tally (amount_of s) (lg_reservations l)"
    "\<And>s. s < length (lg_available_balances l) \<Longrightarrow> lg_outstanding_by_sender l ! s = tally (one_of s) (lg_reservations l)"
    "\<And>s. s < length (lg_available_balances l) \<Longrightarrow> funds l s < 2 ^ 64"
proof -
  note wf = assms [unfolded wf_ledger_def list_all_iff set_upt]
  show "rs_sender_index r < length (lg_available_balances l)" if "map_of (lg_reservations l) i = Some r" for i r
    using wf map_of_SomeD [OF that] by force
  have "s \<in> {0..<length (lg_available_balances l)}" if "s < length (lg_available_balances l)" for s using that by simp
  then show "unat (lg_reserved_by_sender l ! s) = tally (amount_of s) (lg_reservations l)"
    "lg_outstanding_by_sender l ! s = tally (one_of s) (lg_reservations l)" "funds l s < 2 ^ 64"
    if "s < length (lg_available_balances l)" for s using wf that unfolding funds_def by blast+
qed (use assms in \<open>simp_all add: wf_ledger_def\<close>)

text \<open>Taking one reservation out of a well-formed ledger, whatever becomes of its amount.\<close>

definition without :: "u64 \<Rightarrow> u64 \<Rightarrow> TransactionLoadBalanceReservations \<Rightarrow> TransactionLoadBalanceReservations" where
  "without i available l = (case map_of (lg_reservations l) i of None \<Rightarrow> l
     | Some r \<Rightarrow> let s = rs_sender_index r in
       l\<lparr>lg_reserved_by_sender := (lg_reserved_by_sender l)[s := lg_reserved_by_sender l ! s - rs_amount_satoshis r],
         lg_outstanding_by_sender := (lg_outstanding_by_sender l)[s := lg_outstanding_by_sender l ! s - 1],
         lg_available_balances := (lg_available_balances l)[s := available],
         lg_reservations := smap_erase i (lg_reservations l)\<rparr>)"

lemma reservation_covered:
  assumes "wf_ledger l" "map_of (lg_reservations l) i = Some r"
  shows "rs_sender_index r < length (lg_available_balances l)"
    "rs_amount_satoshis r \<le> lg_reserved_by_sender l ! rs_sender_index r"
    "\<not> lg_available_balances l ! rs_sender_index r > max_u64 - rs_amount_satoshis r"
    "0 < lg_outstanding_by_sender l ! rs_sender_index r"
proof -
  let ?s = "rs_sender_index r"
  show s: "?s < length (lg_available_balances l)" by (rule wf_ledgerD(7) [OF assms])
  have "unat (lg_reserved_by_sender l ! ?s) = unat (rs_amount_satoshis r) + tally (amount_of ?s) (smap_erase i (lg_reservations l))"
    using wf_ledgerD(8) [OF assms(1) s] tally_erase [OF wf_ledgerD(3) [OF assms(1)] assms(2), of "amount_of ?s"]
    by (simp add: amount_of_def)
  then show le: "rs_amount_satoshis r \<le> lg_reserved_by_sender l ! ?s" by (simp add: word_le_nat_alt)
  show "\<not> lg_available_balances l ! ?s > max_u64 - rs_amount_satoshis r"
    using wf_ledgerD(10) [OF assms(1) s] le unfolding funds_def u64_add_guard word_le_nat_alt two_to_64 by linarith
  show "0 < lg_outstanding_by_sender l ! ?s"
    using wf_ledgerD(9) [OF assms(1) s] tally_erase [OF wf_ledgerD(3) [OF assms(1)] assms(2), of "one_of ?s"]
    by (simp add: one_of_def)
qed

lemma wf_ledgerI:
  assumes "lg_fee_reserve_satoshis l \<noteq> 0" "length (lg_reserved_by_sender l) = length (lg_available_balances l)"
    "length (lg_outstanding_by_sender l) = length (lg_available_balances l)" "sorted_keys (lg_reservations l)"
    "\<And>i r. (i, r) \<in> set (lg_reservations l) \<Longrightarrow> rs_sender_index r < length (lg_available_balances l)"
    "\<And>s. s < length (lg_available_balances l) \<Longrightarrow> unat (lg_reserved_by_sender l ! s) = tally (amount_of s) (lg_reservations l) \<and>
         lg_outstanding_by_sender l ! s = tally (one_of s) (lg_reservations l) \<and> funds l s < 2 ^ 64"
    "length (lg_reservations l) \<le> lg_maximum_size l" "lg_maximum_size l \<le> lg_maximum_reservations l"
  shows "wf_ledger l"
proof -
  have "\<forall>s\<in>{0..<length (lg_available_balances l)}. unat (lg_reserved_by_sender l ! s) = tally (amount_of s) (lg_reservations l) \<and>
      lg_outstanding_by_sender l ! s = tally (one_of s) (lg_reservations l) \<and>
      unat (lg_available_balances l ! s) + unat (lg_reserved_by_sender l ! s) < 2 ^ 64"
    using assms(6) unfolding funds_def by (intro ballI) (unfold atLeastLessThan_iff, blast)
  moreover have "\<forall>p\<in>set (lg_reservations l). rs_sender_index (snd p) < length (lg_available_balances l)"
    using assms(5) by force
  ultimately show ?thesis using assms(1-4,7,8) unfolding wf_ledger_def list_all_iff set_upt by blast
qed

lemma without_same [simp]:
  "lg_fee_reserve_satoshis (without i available l) = lg_fee_reserve_satoshis l"
  "lg_maximum_reservations (without i available l) = lg_maximum_reservations l"
  "lg_maximum_size (without i available l) = lg_maximum_size l"
  "lg_balance_revision (without i available l) = lg_balance_revision l"
  "length (lg_available_balances (without i available l)) = length (lg_available_balances l)"
  by (simp_all add: without_def Let_def split: option.splits)

lemma without_sender:
  assumes "wf_ledger l" "map_of (lg_reservations l) i = Some r" "s < length (lg_available_balances l)"
  shows "lg_available_balances (without i available l) ! s =
      (if s = rs_sender_index r then available else lg_available_balances l ! s)"
    "unat (lg_reserved_by_sender (without i available l) ! s) = unat (lg_reserved_by_sender l ! s) - amount_of s r"
    "lg_outstanding_by_sender (without i available l) ! s = lg_outstanding_by_sender l ! s - one_of s r"
  using assms(2,3) wf_ledgerD(1,2) [OF assms(1)] u64_sub_exact [OF reservation_covered(2) [OF assms(1,2)]]
  by (cases "rs_sender_index r = s"; force simp: without_def Let_def nth_list_update amount_of_def one_of_def)+

lemma without_wf:
  assumes wf: "wf_ledger l" and i: "map_of (lg_reservations l) i = Some r"
    and fits: "unat available + (unat (lg_reserved_by_sender l ! rs_sender_index r) - unat (rs_amount_satoshis r)) < 2 ^ 64"
  shows "wf_ledger (without i available l)"
proof (rule wf_ledgerI)
  have m: "lg_reservations (without i available l) = smap_erase i (lg_reservations l)" by (simp add: without_def i Let_def)
  show "sorted_keys (lg_reservations (without i available l))" using wf_ledgerD(3) [OF wf] by (simp add: m)
  show "rs_sender_index r' < length (lg_available_balances (without i available l))"
    if "(j, r') \<in> set (lg_reservations (without i available l))" for j r'
  proof -
    have "(j, r') \<in> set (lg_reservations l)" using that unfolding m smap_erase_def by simp
    then have "map_of (lg_reservations l) j = Some r'" using sorted_keys_distinct [OF wf_ledgerD(3) [OF wf]] by simp
    from wf_ledgerD(7) [OF wf this] show ?thesis by simp
  qed
  show "length (lg_reservations (without i available l)) \<le> lg_maximum_size (without i available l)"
    using wf_ledgerD(3,4) [OF wf] tally_erase [OF _ i] unfolding m by simp
  fix s assume "s < length (lg_available_balances (without i available l))"
  then have s: "s < length (lg_available_balances l)" by simp
  have "tally weight (lg_reservations (without i available l)) = tally weight (lg_reservations l) - weight r" for weight
    unfolding m using tally_erase [OF wf_ledgerD(3) [OF wf] i, of weight] by simp
  moreover have "funds (without i available l) s < 2 ^ 64"
  proof (cases "s = rs_sender_index r")
    case True
    then show ?thesis using fits unfolding funds_def without_sender [OF wf i s] by (simp add: amount_of_def)
  next
    case False
    then show ?thesis using wf_ledgerD(10) [OF wf s] unfolding funds_def without_sender [OF wf i s] by (simp add: amount_of_def)
  qed
  ultimately show "unat (lg_reserved_by_sender (without i available l) ! s) = tally (amount_of s) (lg_reservations (without i available l)) \<and>
      lg_outstanding_by_sender (without i available l) ! s = tally (one_of s) (lg_reservations (without i available l)) \<and>
      funds (without i available l) s < 2 ^ 64"
    unfolding without_sender [OF wf i s] using wf_ledgerD(8,9) [OF wf s] by simp
qed (use wf_ledgerD [OF wf] i in \<open>simp_all add: without_def Let_def\<close>)

text \<open>Releasing a reservation: the amount goes back to the sender.\<close>

definition released :: "u64 \<Rightarrow> TransactionLoadBalanceReservations \<Rightarrow> TransactionLoadBalanceReservations" where
  "released i l = (case map_of (lg_reservations l) i of None \<Rightarrow> l
     | Some r \<Rightarrow> without i (lg_available_balances l ! rs_sender_index r + rs_amount_satoshis r) l)"

lemma released_wf:
  assumes wf: "wf_ledger l" and i: "map_of (lg_reservations l) i = Some r"
  shows "wf_ledger (released i l)"
    "\<And>s. s < length (lg_available_balances l) \<Longrightarrow> funds (released i l) s = funds l s"
proof -
  let ?s = "rs_sender_index r"
  note C = reservation_covered [OF wf i]
  have sum: "unat (lg_available_balances l ! ?s + rs_amount_satoshis r) = unat (lg_available_balances l ! ?s) + unat (rs_amount_satoshis r)"
    using C(3) by (intro u64_add_exact) (simp add: u64_add_guard)
  have le: "unat (rs_amount_satoshis r) \<le> unat (lg_reserved_by_sender l ! ?s)" using C(2) by (simp add: word_le_nat_alt)
  show "wf_ledger (released i l)"
    unfolding released_def i option.case
    by (rule without_wf [OF wf i]) (use sum le wf_ledgerD(10) [OF wf C(1)] in \<open>simp add: funds_def\<close>)
  show "funds (released i l) s = funds l s" if "s < length (lg_available_balances l)" for s
    unfolding released_def i option.case funds_def without_sender [OF wf i that]
    using sum le by (cases "s = rs_sender_index r") (simp_all add: amount_of_def)
qed

lemma released_same [simp]:
  "lg_fee_reserve_satoshis (released i l) = lg_fee_reserve_satoshis l"
  "lg_maximum_reservations (released i l) = lg_maximum_reservations l"
  "lg_maximum_size (released i l) = lg_maximum_size l"
  "lg_balance_revision (released i l) = lg_balance_revision l"
  "length (lg_available_balances (released i l)) = length (lg_available_balances l)"
  "lg_reservations (released i l) = smap_erase i (lg_reservations l)"
  by (simp_all add: released_def without_def smap_erase_fresh Let_def split: option.splits)

lemma RollBack_step:
  assumes wf: "wf_ledger l" and i: "map_of (lg_reservations l) i = Some r"
  shows "RollBackReservations (i # indexes) l = RollBackReservations indexes (released i l)"
proof -
  let ?s = "rs_sender_index r" and ?a = "rs_amount_satoshis r"
  have "\<not> length (lg_reserved_by_sender l) \<le> ?s" "\<not> lg_reserved_by_sender l ! ?s < ?a"
    "\<not> max_u64 - ?a < lg_available_balances l ! ?s" "lg_outstanding_by_sender l ! ?s \<noteq> 0"
    using reservation_covered [OF wf i] wf_ledgerD(1,2) [OF wf] by (simp_all add: not_less)
  then show ?thesis
    unfolding released_def without_def i option.case RollBackReservations.simps Let_def
    by (simp only: if_False simp_thms) simp
qed

lemma RollBack_releases:
  assumes "wf_ledger l" "distinct indexes" "\<forall>i\<in>set indexes. map_of (lg_reservations l) i \<noteq> None"
  shows "\<exists>l'. RollBackReservations indexes l = (l', Inr ()) \<and> wf_ledger l' \<and>
    lg_reservations l' = filter (\<lambda>p. fst p \<notin> set indexes) (lg_reservations l) \<and>
    length (lg_available_balances l') = length (lg_available_balances l) \<and>
    (\<forall>s<length (lg_available_balances l). funds l' s = funds l s) \<and>
    lg_fee_reserve_satoshis l' = lg_fee_reserve_satoshis l \<and> lg_maximum_reservations l' = lg_maximum_reservations l \<and>
    lg_maximum_size l' = lg_maximum_size l \<and> lg_balance_revision l' = lg_balance_revision l"
  using assms
proof (induction indexes arbitrary: l)
  case (Cons i indexes)
  obtain r where i: "map_of (lg_reservations l) i = Some r" using Cons.prems(3) by auto
  note R = released_wf [OF Cons.prems(1) i]
  have rest: "distinct indexes" "\<forall>j\<in>set indexes. map_of (lg_reservations (released i l)) j \<noteq> None"
    using Cons.prems(2,3) by auto
  have erased: "filter (\<lambda>p. fst p \<notin> set indexes) (smap_erase i m) = filter (\<lambda>p. fst p \<notin> set (i # indexes)) m" for m :: "(u64 \<times> Reservation) list"
    by (simp add: smap_erase_def conj_commute)
  show ?case
    unfolding RollBack_step [OF Cons.prems(1) i]
    using Cons.IH [OF R(1) rest] R(2) erased by (simp only: released_same) auto
qed simp

text \<open>The reservations and the funds determine a well-formed ledger.\<close>

lemma ledger_determined:
  assumes wf: "wf_ledger l" "wf_ledger l'"
    and same: "lg_reservations l' = lg_reservations l" "length (lg_available_balances l') = length (lg_available_balances l)"
      "\<forall>s<length (lg_available_balances l). funds l' s = funds l s"
  shows "lg_available_balances l' = lg_available_balances l" "lg_reserved_by_sender l' = lg_reserved_by_sender l"
    "lg_outstanding_by_sender l' = lg_outstanding_by_sender l"
proof -
  have s: "lg_reserved_by_sender l' ! s = lg_reserved_by_sender l ! s" "lg_outstanding_by_sender l' ! s = lg_outstanding_by_sender l ! s"
    "lg_available_balances l' ! s = lg_available_balances l ! s"
    if "s < length (lg_available_balances l)" for s
  proof -
    have s': "s < length (lg_available_balances l')" using that same(2) by simp
    show r: "lg_reserved_by_sender l' ! s = lg_reserved_by_sender l ! s"
      using wf_ledgerD(8) [OF wf(1) that] wf_ledgerD(8) [OF wf(2) s'] same(1) by (simp add: word_unat_eq_iff)
    show "lg_outstanding_by_sender l' ! s = lg_outstanding_by_sender l ! s"
      using wf_ledgerD(9) [OF wf(1) that] wf_ledgerD(9) [OF wf(2) s'] same(1) by simp
    have "funds l' s = funds l s" using same(3) that by blast
    then show "lg_available_balances l' ! s = lg_available_balances l ! s"
      unfolding funds_def r by (simp add: word_unat_eq_iff)
  qed
  note W = wf_ledgerD(1,2) [OF wf(1)] wf_ledgerD(1,2) [OF wf(2)]
  show "lg_available_balances l' = lg_available_balances l" by (rule nth_equalityI) (use s same(2) in simp_all)
  show "lg_reserved_by_sender l' = lg_reserved_by_sender l" by (rule nth_equalityI) (use s same(2) W in simp_all)
  show "lg_outstanding_by_sender l' = lg_outstanding_by_sender l" by (rule nth_equalityI) (use s same(2) W in simp_all)
qed

subsection \<open>Settling\<close>

lemma SettledBalance_fits:
  assumes wf: "wf_ledger l" and i: "map_of (lg_reservations l) i = Some r"
    and s: "s = rs_sender_index r" and a: "a = rs_amount_satoshis r"
  shows "\<exists>available message. SettledBalance (lg_available_balances l ! s) (lg_reserved_by_sender l ! s - a) a actual release =
      Inr (available, message) \<and> unat available + (unat (lg_reserved_by_sender l ! s) - unat a) < 2 ^ 64 \<and>
      (actual = None \<and> release \<longrightarrow> available = lg_available_balances l ! s + a)"
proof -
  note C = reservation_covered [OF wf i, folded s a]
  let ?available = "lg_available_balances l ! s" and ?rest = "lg_reserved_by_sender l ! s - a"
  have rest: "unat ?rest = unat (lg_reserved_by_sender l ! s) - unat a" by (rule u64_sub_exact [OF C(2)])
  have le: "unat a \<le> unat (lg_reserved_by_sender l ! s)" using C(2) by (simp add: word_le_nat_alt)
  have funds: "unat ?available + unat (lg_reserved_by_sender l ! s) < 18446744073709551616"
    using wf_ledgerD(10) [OF wf C(1)] unfolding funds_def by simp
  show ?thesis
  proof (cases actual)
    case (Some balance)
    show ?thesis
    proof (cases "balance < ?rest")
      case True
      then show ?thesis using Some u64_lt [of ?rest] unfolding rest by (simp add: SettledBalance_def)
    next
      case False
      then have "unat (balance - ?rest) = unat balance - unat ?rest" "unat ?rest \<le> unat balance"
        by (simp_all add: u64_sub_exact not_less word_le_nat_alt)
      then show ?thesis using Some False rest u64_lt [of balance] by (simp add: SettledBalance_def)
    qed
  next
    case None
    have sum: "unat (?available + a) = unat ?available + unat a" using C(3) by (intro u64_add_exact) (simp add: u64_add_guard)
    show ?thesis
    proof (cases release)
      case True
      then show ?thesis using None sum le funds C(3) by (simp add: SettledBalance_def)
    next
      case False
      then show ?thesis using None funds by (simp add: SettledBalance_def)
    qed
  qed
qed

lemma Settle_eq:
  assumes wf: "wf_ledger l" and i: "map_of (lg_reservations l) i = Some r"
    and settled: "SettledBalance (lg_available_balances l ! rs_sender_index r)
      (lg_reserved_by_sender l ! rs_sender_index r - rs_amount_satoshis r) (rs_amount_satoshis r) actual release = Inr (available, message)"
  shows "Settle i actual release on_settled l =
    (if lg_balance_revision l = max_u64 then (l, Inl (RuntimeError ''transaction load balance revision overflows uint64''))
     else ((without i available l)\<lparr>lg_balance_revision := lg_balance_revision l + 1\<rparr>,
       bind_result (on_settled (rs_amount_satoshis r)) (\<lambda>_. require (message = []) (RuntimeError message))))"
proof -
  let ?s = "rs_sender_index r" and ?a = "rs_amount_satoshis r"
  have "\<not> length (lg_reserved_by_sender l) \<le> ?s" "\<not> lg_reserved_by_sender l ! ?s < ?a" "lg_outstanding_by_sender l ! ?s \<noteq> 0"
    using reservation_covered [OF wf i] wf_ledgerD(1,2) [OF wf] by (simp_all add: not_less)
  then show ?thesis
    unfolding Settle_def without_def i option.case Let_def settled
    by (simp only: if_False simp_thms) simp
qed

lemma wf_ledger_revision [simp]: "wf_ledger (l\<lparr>lg_balance_revision := v\<rparr>) \<longleftrightarrow> wf_ledger l"
  by (simp add: wf_ledger_def)

lemma Settle_wf:
  assumes wf: "wf_ledger l"
  shows "wf_ledger (fst (Settle i actual release on_settled l))"
proof (cases "map_of (lg_reservations l) i")
  case None
  then show ?thesis using wf by (simp add: Settle_def)
next
  case (Some r)
  obtain available message where s: "SettledBalance (lg_available_balances l ! rs_sender_index r)
      (lg_reserved_by_sender l ! rs_sender_index r - rs_amount_satoshis r) (rs_amount_satoshis r) actual release = Inr (available, message)"
    and fits: "unat available + (unat (lg_reserved_by_sender l ! rs_sender_index r) - unat (rs_amount_satoshis r)) < 2 ^ 64"
    using SettledBalance_fits [OF wf Some refl refl, of actual release] by blast
  show ?thesis unfolding Settle_eq [OF wf Some s] using wf without_wf [OF wf Some fits] by simp
qed

lemma Refresh_wf:
  assumes wf: "wf_ledger l"
  shows "wf_ledger (fst (RefreshAvailableBalances balances l))"
proof (cases "lg_reservations l \<noteq> [] \<or> length balances \<noteq> length (lg_available_balances l)")
  case True
  then show ?thesis using wf by (auto simp: RefreshAvailableBalances_def)
next
  case False
  have "wf_ledger (l\<lparr>lg_available_balances := balances\<rparr>)"
  proof (rule wf_ledgerI)
    fix s assume "s < length (lg_available_balances (l\<lparr>lg_available_balances := balances\<rparr>))"
    then have "s < length (lg_available_balances l)" using False by simp
    from wf_ledgerD(8,9) [OF wf this] False u64_lt [of "balances ! s"]
    show "unat (lg_reserved_by_sender (l\<lparr>lg_available_balances := balances\<rparr>) ! s) =
        tally (amount_of s) (lg_reservations (l\<lparr>lg_available_balances := balances\<rparr>)) \<and>
      lg_outstanding_by_sender (l\<lparr>lg_available_balances := balances\<rparr>) ! s =
        tally (one_of s) (lg_reservations (l\<lparr>lg_available_balances := balances\<rparr>)) \<and>
      funds (l\<lparr>lg_available_balances := balances\<rparr>) s < 2 ^ 64"
      by (simp add: funds_def)
  qed (use wf_ledgerD(1-6) [OF wf] False in simp_all)
  then show ?thesis using False by (simp add: RefreshAvailableBalances_def Let_def)
qed

subsection \<open>Staging a batch\<close>

definition reservation_of :: "u64 \<Rightarrow> WalletTransactionPlanEntry \<Rightarrow> Reservation" where
  "reservation_of fee entry = \<lparr>rs_sender_index = pe_sender_index entry, rs_amount_satoshis = pe_amount_satoshis entry + fee\<rparr>"

definition staged_from :: "u64 \<Rightarrow> u64 \<Rightarrow> nat \<Rightarrow> WalletTransactionPlanEntry list \<Rightarrow> (u64 \<times> Reservation) list" where
  "staged_from fee first_index k planned =
     map (\<lambda>(offset, entry). (first_index + word_of_nat offset, reservation_of fee entry)) (enumerate k planned)"

definition staging_inv :: "TransactionLoadBalanceReservations \<Rightarrow> staging \<Rightarrow> bool" where
  "staging_inv l = (\<lambda>(balances, reserved, staged, indexes).
     length balances = length (lg_available_balances l) \<and> length reserved = length (lg_available_balances l) \<and>
     indexes = map fst staged \<and> sorted_keys staged \<and>
     (\<forall>(i, r)\<in>set staged. map_of (lg_reservations l) i = None \<and> rs_sender_index r < length (lg_available_balances l)) \<and>
     (\<forall>s<length (lg_available_balances l).
        unat (balances ! s) + tally (amount_of s) staged = unat (lg_available_balances l ! s) \<and>
        unat (reserved ! s) = unat (lg_reserved_by_sender l ! s) + tally (amount_of s) staged))"

lemma smap_insert_last: "\<forall>p\<in>set m. fst p < k \<Longrightarrow> smap_insert k v m = m @ [(k, v)]"
  by (induction k v m rule: smap_insert.induct) auto

lemma sorted_keys_snoc: "sorted_keys m \<Longrightarrow> \<forall>p\<in>set m. fst p < k \<Longrightarrow> sorted_keys (m @ [(k, v)])"
  by (induction m) auto

lemma StageReservation_ok:
  assumes step: "StageReservation l first_index (k, entry) (balances, reserved, staged, indexes) = Inr staging'"
    and inv: "staging_inv l (balances, reserved, staged, indexes)"
    and before: "\<forall>p\<in>set staged. unat (fst p) < unat first_index + k" and k: "k < 2 ^ 64"
  shows "\<exists>balances' reserved'. staging' = (balances', reserved',
      staged @ [(first_index + word_of_nat k, reservation_of (lg_fee_reserve_satoshis l) entry)],
      indexes @ [first_index + word_of_nat k])" "staging_inv l staging'"
    "unat (first_index + word_of_nat k) = unat first_index + k"
proof -
  let ?fee = "lg_fee_reserve_satoshis l" and ?s = "pe_sender_index entry" and ?i = "first_index + word_of_nat k :: u64"
  let ?a = "pe_amount_satoshis entry + lg_fee_reserve_satoshis l"
  let ?b = "balances[?s := balances ! ?s - ?a]" and ?r = "reserved[?s := reserved ! ?s + ?a]"
  have g: "\<not> word_of_nat k > max_u64 - first_index" "map_of (lg_reservations l) ?i = None" "?s < length balances"
    "?a \<le> balances ! ?s" "\<not> reserved ! ?s > max_u64 - ?a"
    and st: "staging' = (?b, ?r, smap_insert ?i (reservation_of ?fee entry) staged, indexes @ [?i])"
    using step by (auto simp: StageReservation_def reservation_of_def Let_def not_less not_le split: if_splits)
  have "unat (word_of_nat k :: u64) = k" using k by (simp add: unat_of_nat)
  then show i: "unat ?i = unat first_index + k" using g(1) u64_add_exact [of first_index "word_of_nat k"]
    by (simp add: u64_add_guard add.commute)
  have last: "\<forall>p\<in>set staged. fst p < ?i" using before i by (simp add: word_less_nat_alt)
  note st' = st [unfolded smap_insert_last [OF last]]
  then show "\<exists>balances' reserved'. staging' = (balances', reserved', staged @ [(?i, reservation_of ?fee entry)], indexes @ [?i])" by blast
  have sub: "unat (balances ! ?s - ?a) = unat (balances ! ?s) - unat ?a" by (rule u64_sub_exact [OF g(4)])
  have le: "unat ?a \<le> unat (balances ! ?s)" using g(4) by (simp add: word_le_nat_alt)
  have add: "unat (reserved ! ?s + ?a) = unat (reserved ! ?s) + unat ?a" using g(5) by (intro u64_add_exact) (simp add: u64_add_guard)
  have lens: "length balances = length (lg_available_balances l)" "length reserved = length (lg_available_balances l)"
    and each: "\<And>s. s < length (lg_available_balances l) \<Longrightarrow>
        unat (balances ! s) + tally (amount_of s) staged = unat (lg_available_balances l ! s) \<and>
        unat (reserved ! s) = unat (lg_reserved_by_sender l ! s) + tally (amount_of s) staged"
    using inv by (simp_all add: staging_inv_def)
  have "unat (?b ! s) + (tally (amount_of s) staged + amount_of s (reservation_of ?fee entry)) = unat (lg_available_balances l ! s) \<and>
      unat (?r ! s) = unat (lg_reserved_by_sender l ! s) + (tally (amount_of s) staged + amount_of s (reservation_of ?fee entry))"
    if "s < length (lg_available_balances l)" for s
    using each [OF that] that lens sub add le by (cases "s = ?s") (simp_all add: amount_of_def reservation_of_def)
  moreover have "sorted_keys (staged @ [(?i, reservation_of ?fee entry)])"
    using inv last by (intro sorted_keys_snoc) (simp_all add: staging_inv_def)
  moreover have "indexes = map fst staged" "\<forall>(i, r)\<in>set staged. map_of (lg_reservations l) i = None \<and> rs_sender_index r < length (lg_available_balances l)"
    using inv by (simp_all add: staging_inv_def)
  ultimately show "staging_inv l staging'"
    unfolding st' staging_inv_def using g(2,3) lens by (simp add: reservation_of_def)
qed

lemma Stage_all:
  assumes "fold_result (StageReservation l first_index) (enumerate k planned) (balances, reserved, staged, indexes) = Inr staging'"
    and "staging_inv l (balances, reserved, staged, indexes)"
    and "\<forall>p\<in>set staged. unat (fst p) < unat first_index + k" and "k + length planned \<le> 2 ^ 64"
  shows "staging_inv l staging' \<and> fst (snd (snd staging')) = staged @ staged_from (lg_fee_reserve_satoshis l) first_index k planned"
  using assms
proof (induction planned arbitrary: k balances reserved staged indexes)
  case (Cons entry planned)
  obtain staging1 where step: "StageReservation l first_index (k, entry) (balances, reserved, staged, indexes) = Inr staging1"
    and rest: "fold_result (StageReservation l first_index) (enumerate (Suc k) planned) staging1 = Inr staging'"
    using Cons.prems(1) by (auto simp: result_simps)
  have k: "k < 2 ^ 64" using Cons.prems(4) by simp
  note S = StageReservation_ok [OF step Cons.prems(2,3) k]
  obtain balances1 reserved1 where 1: "staging1 = (balances1, reserved1,
      staged @ [(first_index + word_of_nat k, reservation_of (lg_fee_reserve_satoshis l) entry)], indexes @ [first_index + word_of_nat k])"
    using S(1) by blast
  have "\<forall>p\<in>set (staged @ [(first_index + word_of_nat k, reservation_of (lg_fee_reserve_satoshis l) entry)]).
      unat (fst p) < unat first_index + Suc k"
    using Cons.prems(3) S(3) by auto
  from Cons.IH [OF rest [unfolded 1] S(2) [unfolded 1] this] Cons.prems(4)
  show ?case by (simp add: staged_from_def)
qed (auto simp: staged_from_def)

subsection \<open>Reserving a batch\<close>

definition insert_all :: "(u64 \<times> Reservation) list \<Rightarrow> (u64 \<times> Reservation) list \<Rightarrow> (u64 \<times> Reservation) list" where
  "insert_all staged m = fold (\<lambda>(k, v) m. smap_insert k v m) staged m"

lemma insert_all_facts:
  assumes "sorted_keys m" "distinct (map fst staged)" "\<forall>k\<in>fst ` set staged. map_of m k = None"
  shows "sorted_keys (insert_all staged m) \<and> (\<forall>weight. tally weight (insert_all staged m) = tally weight m + tally weight staged) \<and>
    length (insert_all staged m) = length m + length staged \<and> set (insert_all staged m) \<subseteq> set m \<union> set staged \<and>
    (\<forall>k\<in>fst ` set staged. map_of (insert_all staged m) k \<noteq> None) \<and>
    (\<forall>k. k \<notin> fst ` set staged \<longrightarrow> map_of (insert_all staged m) k = map_of m k)"
  using assms
proof (induction staged arbitrary: m)
  case (Cons p staged)
  obtain k v where p: "p = (k, v)" by (cases p)
  have fresh: "map_of m k = None" using Cons.prems(3) p by simp
  have "\<forall>j\<in>fst ` set staged. map_of (smap_insert k v m) j = None" using Cons.prems(2,3) p by auto
  note IH = Cons.IH [OF sorted_keys_smap_insert [OF Cons.prems(1)] _ this]
  have "distinct (map fst staged)" using Cons.prems(2) by simp
  note IH = IH [OF this]
  then have IH: "sorted_keys (insert_all staged (smap_insert k v m))"
    "\<And>weight. tally weight (insert_all staged (smap_insert k v m)) = tally weight (smap_insert k v m) + tally weight staged"
    "length (insert_all staged (smap_insert k v m)) = length (smap_insert k v m) + length staged"
    "set (insert_all staged (smap_insert k v m)) \<subseteq> set (smap_insert k v m) \<union> set staged"
    "\<And>j. j \<in> fst ` set staged \<Longrightarrow> map_of (insert_all staged (smap_insert k v m)) j \<noteq> None"
    "\<And>j. j \<notin> fst ` set staged \<Longrightarrow> map_of (insert_all staged (smap_insert k v m)) j = map_of (smap_insert k v m) j"
    by blast+
  have eq: "insert_all (p # staged) m = insert_all staged (smap_insert k v m)" by (simp add: insert_all_def p)
  have k: "k \<notin> fst ` set staged" using Cons.prems(2) p by simp
  show ?case
    unfolding eq using IH(1-4) tally_insert [OF fresh, where r = v] set_smap_insert [of k v m] IH(5) IH(6) k
    by (auto simp: p)
qed (simp add: insert_all_def)

lemma filter_smap_insert:
  assumes "k \<in> K" "map_of m k = None"
  shows "filter (\<lambda>p. fst p \<notin> K) (smap_insert k v m) = filter (\<lambda>p. fst p \<notin> K) m"
  using assms by (induction k v m rule: smap_insert.induct) (auto split: if_splits)

lemma insert_all_undone:
  assumes "distinct (map fst staged)" "\<forall>k\<in>fst ` set staged. map_of m k = None" "fst ` set staged \<subseteq> K"
  shows "filter (\<lambda>p. fst p \<notin> K) (insert_all staged m) = filter (\<lambda>p. fst p \<notin> K) m"
  using assms
proof (induction staged arbitrary: m)
  case (Cons p staged)
  obtain k v where p: "p = (k, v)" by (cases p)
  have "\<forall>j\<in>fst ` set staged. map_of (smap_insert k v m) j = None" using Cons.prems(1,2) p by auto
  from Cons.IH [OF _ this] Cons.prems p filter_smap_insert [of k K m v] show ?case by (simp add: insert_all_def)
qed (simp add: insert_all_def)

lemma outstanding_all:
  assumes "\<forall>(i, r)\<in>set staged. rs_sender_index r < length outstanding"
  shows "length (fold (\<lambda>(i, r) outstanding. outstanding[rs_sender_index r := outstanding ! rs_sender_index r + 1]) staged outstanding) =
      length outstanding \<and>
    (\<forall>s<length outstanding. fold (\<lambda>(i, r) outstanding. outstanding[rs_sender_index r := outstanding ! rs_sender_index r + 1]) staged outstanding ! s =
      outstanding ! s + tally (one_of s) staged)"
  using assms
proof (induction staged arbitrary: outstanding)
  case (Cons p staged)
  obtain i r where p: "p = (i, r)" by (cases p)
  let ?o = "outstanding[rs_sender_index r := outstanding ! rs_sender_index r + 1]"
  have "\<forall>(i, r)\<in>set staged. rs_sender_index r < length ?o" using Cons.prems by auto
  note IH = Cons.IH [OF this]
  have "?o ! s = outstanding ! s + one_of s r" if "s < length outstanding" for s
    using that by (simp add: nth_list_update one_of_def)
  then show ?case using IH by (simp add: p)
qed simp

lemma ReserveStaged_wf:
  assumes wf: "wf_ledger l" and inv: "staging_inv l (balances, reserved, staged, indexes)"
    and bound: "length (lg_reservations l) + length staged \<le> lg_maximum_reservations l"
  shows "\<exists>l'. ReserveStaged (balances, reserved, staged, indexes) l = (l', Inr ()) \<and> wf_ledger l' \<and>
    lg_reservations l' = insert_all staged (lg_reservations l) \<and> lg_available_balances l' = balances \<and>
    (\<forall>s<length (lg_available_balances l). funds l' s = funds l s) \<and>
    lg_fee_reserve_satoshis l' = lg_fee_reserve_satoshis l \<and> lg_maximum_reservations l' = lg_maximum_reservations l \<and>
    lg_balance_revision l' = lg_balance_revision l"
proof -
  let ?m = "lg_reservations l" and ?n = "length (lg_available_balances l)"
  let ?o = "fold (\<lambda>(i, r) outstanding. outstanding[rs_sender_index r := outstanding ! rs_sender_index r + 1]) staged (lg_outstanding_by_sender l)"
  have I: "length balances = ?n" "length reserved = ?n" "sorted_keys staged"
    "\<forall>(i, r)\<in>set staged. map_of ?m i = None \<and> rs_sender_index r < ?n"
    "\<And>s. s < ?n \<Longrightarrow> unat (balances ! s) + tally (amount_of s) staged = unat (lg_available_balances l ! s)"
    "\<And>s. s < ?n \<Longrightarrow> unat (reserved ! s) = unat (lg_reserved_by_sender l ! s) + tally (amount_of s) staged"
    using inv by (simp_all add: staging_inv_def)
  have fresh: "\<forall>k\<in>fst ` set staged. map_of ?m k = None" using I(4) by auto
  note A = insert_all_facts [OF wf_ledgerD(3) [OF wf] sorted_keys_distinct [OF I(3)] fresh]
  have "filter (\<lambda>p. map_of ?m (fst p) = None) staged = staged" "filter (\<lambda>p. map_of ?m (fst p) \<noteq> None) staged = []"
    using fresh by (simp_all add: filter_empty_conv)
  then have merge: "smap_merge staged ?m = (insert_all staged ?m, [])" by (simp add: smap_merge_def insert_all_def)
  define l' where "l' = l\<lparr>lg_available_balances := balances, lg_reserved_by_sender := reserved,
    lg_outstanding_by_sender := ?o, lg_reservations := insert_all staged ?m,
    lg_maximum_size := max (lg_maximum_size l) (length (insert_all staged ?m))\<rparr>"
  have r: "ReserveStaged (balances, reserved, staged, indexes) l = (l', Inr ())"
    by (simp add: ReserveStaged_def merge l'_def)
  have senders: "\<forall>(i, r)\<in>set staged. rs_sender_index r < length (lg_outstanding_by_sender l)"
    using I(4) wf_ledgerD(2) [OF wf] by auto
  note O = outstanding_all [OF senders]
  have funds: "funds l' s = funds l s" if "s < ?n" for s
    using I(5,6) [OF that] by (simp add: funds_def l'_def)
  have "wf_ledger l'"
  proof (rule wf_ledgerI)
    show "rs_sender_index r < length (lg_available_balances l')" if "(i, r) \<in> set (lg_reservations l')" for i r
    proof -
      have "(i, r) \<in> set ?m \<or> (i, r) \<in> set staged" using that A by (auto simp: l'_def)
      then show ?thesis using I(1,4) wf_ledgerD(7) [OF wf] sorted_keys_distinct [OF wf_ledgerD(3) [OF wf]]
        by (auto simp: l'_def)
    qed
    fix s assume "s < length (lg_available_balances l')"
    then have s: "s < ?n" using I(1) by (simp add: l'_def)
    show "unat (lg_reserved_by_sender l' ! s) = tally (amount_of s) (lg_reservations l') \<and>
        lg_outstanding_by_sender l' ! s = tally (one_of s) (lg_reservations l') \<and> funds l' s < 2 ^ 64"
      using wf_ledgerD(8,9,10) [OF wf s] I(6) [OF s] O A s wf_ledgerD(2) [OF wf] unfolding funds [OF s] by (simp add: l'_def)
  qed (use wf_ledgerD(1-6) [OF wf] I(1,2) O A bound in \<open>simp_all add: l'_def\<close>)
  then show ?thesis using r funds by (intro exI [of _ l']) (simp add: l'_def)
qed

lemma staging_inv_start:
  "wf_ledger l \<Longrightarrow> staging_inv l (lg_available_balances l, lg_reserved_by_sender l, [], [])"
  using wf_ledgerD(1) by (simp add: staging_inv_def)

lemma StageBatch_ok:
  assumes "StageBatch l first_index remaining planned_balances planned = Inr staging"
  shows "length planned \<le> unat remaining" "length (lg_reservations l) + length planned \<le> lg_maximum_reservations l"
    "fold_result (StageReservation l first_index) (enumerate 0 planned)
       (lg_available_balances l, lg_reserved_by_sender l, [], []) = Inr staging"
  using assms by (auto simp: StageBatch_def result_simps split: if_splits)

lemma batch_reserved:
  assumes wf: "wf_ledger l" and stage: "StageBatch l first_index remaining planned_balances planned = Inr staging"
  shows "\<exists>l'. ReserveStaged staging l = (l', Inr ()) \<and> wf_ledger l' \<and>
    lg_reservations l' = insert_all (staged_from (lg_fee_reserve_satoshis l) first_index 0 planned) (lg_reservations l) \<and>
    (\<forall>s<length (lg_available_balances l). funds l' s = funds l s) \<and>
    lg_balance_revision l' = lg_balance_revision l \<and>
    RollBackReservations (snd (snd (snd staging))) l' = (l\<lparr>lg_maximum_size := lg_maximum_size l'\<rparr>, Inr ()) \<and>
    wf_ledger (l\<lparr>lg_maximum_size := lg_maximum_size l'\<rparr>)"
proof -
  let ?staged = "staged_from (lg_fee_reserve_satoshis l) first_index 0 planned"
  note S = StageBatch_ok [OF stage]
  have "0 + length planned \<le> 2 ^ 64" using S(1) u64_lt [of remaining] unfolding two_to_64 by linarith
  from Stage_all [OF S(3) staging_inv_start [OF wf] _ this] have inv: "staging_inv l staging" and st: "fst (snd (snd staging)) = ?staged" by simp_all
  obtain balances reserved where stg: "staging = (balances, reserved, ?staged, map fst ?staged)"
    using inv st by (cases staging) (auto simp: staging_inv_def)
  note inv = inv [unfolded stg]
  have "length (lg_reservations l) + length ?staged \<le> lg_maximum_reservations l" using S(2) by (simp add: staged_from_def)
  from ReserveStaged_wf [OF wf inv this] obtain l' where l': "ReserveStaged staging l = (l', Inr ())" "wf_ledger l'"
    "lg_reservations l' = insert_all ?staged (lg_reservations l)" "lg_available_balances l' = balances"
    "\<forall>s<length (lg_available_balances l). funds l' s = funds l s" "lg_fee_reserve_satoshis l' = lg_fee_reserve_satoshis l"
    "lg_maximum_reservations l' = lg_maximum_reservations l" "lg_balance_revision l' = lg_balance_revision l"
    unfolding stg by blast
  have I: "sorted_keys ?staged" "\<forall>k\<in>fst ` set ?staged. map_of (lg_reservations l) k = None" "length balances = length (lg_available_balances l)"
    using inv by (auto simp: staging_inv_def)
  note d = sorted_keys_distinct [OF I(1)]
  note A = insert_all_facts [OF wf_ledgerD(3) [OF wf] d I(2)]
  have "\<forall>i\<in>set (map fst ?staged). map_of (lg_reservations l') i \<noteq> None" unfolding l'(3) using A by simp
  from RollBack_releases [OF l'(2) d this] obtain l'' where l'': "RollBackReservations (map fst ?staged) l' = (l'', Inr ())" "wf_ledger l''"
    "lg_reservations l'' = filter (\<lambda>p. fst p \<notin> set (map fst ?staged)) (insert_all ?staged (lg_reservations l))"
    "length (lg_available_balances l'') = length (lg_available_balances l')"
    "\<forall>s<length (lg_available_balances l'). funds l'' s = funds l' s"
    "lg_fee_reserve_satoshis l'' = lg_fee_reserve_satoshis l'" "lg_maximum_reservations l'' = lg_maximum_reservations l'"
    "lg_maximum_size l'' = lg_maximum_size l'" "lg_balance_revision l'' = lg_balance_revision l'"
    unfolding l'(3) by blast
  have "lg_reservations l'' = filter (\<lambda>p. fst p \<notin> fst ` set ?staged) (lg_reservations l)"
    unfolding l''(3) set_map by (rule insert_all_undone [OF d I(2) order.refl])
  then have same: "lg_reservations l'' = lg_reservations l"
    using I(2) by (force simp: filter_id_conv map_of_eq_None_iff)
  have len: "length (lg_available_balances l') = length (lg_available_balances l)" unfolding l'(4) by (rule I(3))
  have "l'' = l\<lparr>lg_maximum_size := lg_maximum_size l'\<rparr>"
    using ledger_determined [OF wf l''(2) same] l''(4-9) l'(5-8) same len by simp
  then show ?thesis using l' l''(1,2) unfolding stg by simp
qed

lemma AdmitBatch_eq:
  assumes "RollBackReservations indexes l1 = (l, Inr ())"
  shows "AdmitBatch admit plans indexes l1 =
    (case admit plans of
       Inl e \<Rightarrow> (l, Inl e)
     | Inr admitted \<Rightarrow> (if admitted then l1 else l,
         Inr \<lparr>ba_plans = plans, ba_admitted = admitted, ba_balance_revision = lg_balance_revision l1\<rparr>))"
  unfolding AdmitBatch_def Let_def assms by (auto split: sum.split bool.split)

text \<open>What a call to plan and reserve does to a well-formed ledger.\<close>

lemma PlanAndReserve_cases:
  assumes wf: "wf_ledger l" and plan: "PlanAndReserve R p first_index remaining admit l = ((p', l'), r)"
  obtains (refused) "l' = l\<lparr>lg_maximum_size := lg_maximum_size l'\<rparr>" "wf_ledger l'" "\<And>admission. r = Inr admission \<Longrightarrow> \<not> ba_admitted admission"
    | (admitted) admission where "r = Inr admission" "ba_admitted admission" "wf_ledger l'"
proof -
  obtain p1 balances planned where next_batch: "NextBatch R p (IdleBalances l) (unat remaining) = ((p1, balances), planned)"
    by (metis prod.exhaust)
  show thesis
  proof (cases "first_index = 0 \<or> remaining = 0 \<or> (\<forall>plans. planned \<noteq> Inr (Some plans))")
    case True
    then show thesis using refused plan wf next_batch
      by (auto simp: PlanAndReserve_def split: if_splits sum.splits option.splits)
  next
    case False
    then obtain plans where plans: "planned = Inr (Some plans)" by blast
    show thesis
    proof (cases "StageBatch l first_index remaining balances plans")
      case (Inl e)
      then have "l' = l" "r = Inl e" using plan next_batch False plans by (auto simp: PlanAndReserve_def)
      then show thesis using refused wf by simp
    next
      case (Inr staging)
      from batch_reserved [OF wf Inr] obtain l1 where l1: "ReserveStaged staging l = (l1, Inr ())" "wf_ledger l1"
        "RollBackReservations (snd (snd (snd staging))) l1 = (l\<lparr>lg_maximum_size := lg_maximum_size l1\<rparr>, Inr ())"
        and undone: "wf_ledger (l\<lparr>lg_maximum_size := lg_maximum_size l1\<rparr>)" by blast
      have outcome: "((p', l'), r) = (let (l2, admission) = AdmitBatch admit plans (snd (snd (snd staging))) l1 in ((p1, l2), admission))"
        using plan next_batch False plans Inr l1(1) by (simp add: PlanAndReserve_def)
      show thesis
      proof (cases "admit plans = Inr True")
        case True
        then show thesis using admitted outcome l1(2) by (simp add: AdmitBatch_eq [OF l1(3)])
      next
        case False
        then have "l' = l\<lparr>lg_maximum_size := lg_maximum_size l1\<rparr>" "\<And>admission. r = Inr admission \<Longrightarrow> \<not> ba_admitted admission"
          using outcome by (cases "admit plans"; auto simp: AdmitBatch_eq [OF l1(3)])+
        then show thesis using refused undone by simp
      qed
    qed
  qed
qed

subsection \<open>The ledger as an object\<close>

datatype 'g ledger_op =
    PlanOp "'g rng" "'g WalletTransactionLoadPlanner" u64 u64 "WalletTransactionPlanEntry list \<Rightarrow> bool result"
  | SettleOp u64 "u64 option" bool "u64 \<Rightarrow> unit result"
  | RefreshOp "u64 list"

fun ledger_exec :: "TransactionLoadBalanceReservations \<Rightarrow> 'g ledger_op \<Rightarrow> TransactionLoadBalanceReservations \<times> bool" where
  "ledger_exec l (PlanOp R planner first_transaction_index remaining_attempts admit_batch) =
     map_prod snd ok (PlanAndReserve R planner first_transaction_index remaining_attempts admit_batch l)"
| "ledger_exec l (SettleOp transaction_index actual release on_settled) =
     map_prod id ok (Settle transaction_index actual release on_settled l)"
| "ledger_exec l (RefreshOp balances) = map_prod id ok (RefreshAvailableBalances balances l)"

lemma PlanAndReserve_wf:
  assumes "wf_ledger l"
  shows "wf_ledger (snd (fst (PlanAndReserve R p first_index remaining admit l)))"
proof -
  obtain p' l' r where plan: "PlanAndReserve R p first_index remaining admit l = ((p', l'), r)" by (metis prod.exhaust)
  from assms plan show ?thesis by (cases rule: PlanAndReserve_cases) (simp_all add: plan)
qed

interpretation ledger_object: guarded_object ledger_exec wf_ledger
proof
  fix l :: TransactionLoadBalanceReservations and op :: "'a ledger_op"
  assume "wf_ledger l"
  then show "wf_ledger (fst (ledger_exec l op))"
    by (cases op) (simp_all add: PlanAndReserve_wf Settle_wf Refresh_wf)
qed

lemma new_ledger_wf:
  assumes "new_TransactionLoadBalanceReservations balances fee maximum = Inr l"
  shows "wf_ledger l"
proof -
  have l: "l = \<lparr>lg_fee_reserve_satoshis = fee, lg_maximum_reservations = maximum, lg_available_balances = balances,
      lg_reserved_by_sender = replicate (length balances) 0, lg_outstanding_by_sender = replicate (length balances) 0,
      lg_reservations = [], lg_maximum_size = 0, lg_balance_revision = 0\<rparr>" "fee \<noteq> 0"
    using assms by (auto simp: new_TransactionLoadBalanceReservations_def split: if_splits)
  show ?thesis by (rule wf_ledgerI) (use l(2) u64_lt in \<open>simp_all add: l(1) funds_def\<close>)
qed

text \<open>C36. Every ledger that the operations can reach is well formed: one balance, one reserved total and one
  count per wallet; the reservations sorted by index, each of a wallet of the ledger; the reserved total
  of a wallet is the sum of its reservations and its count is their number; its available and reserved
  amounts together fit in 64 bits; and there are never more reservations than the recorded maximum, nor
  is that above the bound. This holds for every planner, every admission callback and every settlement,
  whether or not they throw.\<close>

theorem ledger_well_formed:
  assumes "new_TransactionLoadBalanceReservations balances fee maximum = Inr l"
  shows "wf_ledger (fst (run ledger_exec l ops))"
  by (rule ledger_object.run_inv [OF new_ledger_wf [OF assms]])

text \<open>C37. A batch that is not admitted leaves no trace: when planning and reserving throws, at any check
  or in the admission callback, when no batch was planned, or when the callback refuses the batch, every
  field of the ledger is what it was, except the recorded maximum size.\<close>

theorem refused_batch_restores:
  assumes "new_TransactionLoadBalanceReservations balances fee maximum = Inr l0"
    and "l = fst (run ledger_exec l0 ops)"
    and "PlanAndReserve R p first_index remaining admit l = ((p', l'), r)"
    and "\<And>admission. r = Inr admission \<Longrightarrow> \<not> ba_admitted admission"
  shows "l' = l\<lparr>lg_maximum_size := lg_maximum_size l'\<rparr>"
proof -
  have "wf_ledger l" unfolding assms(2) by (rule ledger_object.run_inv [OF new_ledger_wf [OF assms(1)]])
  then show ?thesis using assms(3) by (cases rule: PlanAndReserve_cases) (use assms(4) in auto)
qed

definition example_planner :: "unit WalletTransactionLoadPlanner" where
  "example_planner = \<lparr>lp_workload = example_fanout, lp_wallet_count = 3, lp_senders = [0], lp_receivers = [1, 2],
     lp_equal_sender_order = [0], lp_rng = (), lp_equal_sender_cursor = 0\<rparr>"

definition example_ledger :: TransactionLoadBalanceReservations where
  "example_ledger = \<lparr>lg_fee_reserve_satoshis = 2, lg_maximum_reservations = 4, lg_available_balances = [100, 0, 0],
     lg_reserved_by_sender = [0, 0, 0], lg_outstanding_by_sender = [0, 0, 0], lg_reservations = [],
     lg_maximum_size = 0, lg_balance_revision = 0\<rparr>"

lemma example_ledger_new: "new_TransactionLoadBalanceReservations [100, 0, 0] 2 4 = Inr example_ledger"
  by (simp add: new_TransactionLoadBalanceReservations_def example_ledger_def numeral_3_eq_3)

theorem ledger_well_formed_witness:
  "new_TransactionLoadBalanceReservations [100, 0, 0] 2 4 = Inr example_ledger \<and>
   wf_ledger (fst (run ledger_exec example_ledger
     [PlanOp high_rng example_planner 1 2 (\<lambda>_. Inr True), SettleOp 1 (Some 80) False (\<lambda>_. Inr ())]))"
  using ledger_well_formed [OF example_ledger_new] example_ledger_new by blast

theorem refused_batch_restores_witness:
  "snd (fst (PlanAndReserve high_rng example_planner 1 2 (\<lambda>_. Inr False) example_ledger)) = example_ledger\<lparr>lg_maximum_size := 2\<rparr> \<and>
   map_sum id (\<lambda>admission. (length (ba_plans admission), ba_admitted admission))
     (snd (PlanAndReserve high_rng example_planner 1 2 (\<lambda>_. Inr False) example_ledger)) = Inr (2, False)"
proof -
  let ?call = "PlanAndReserve high_rng example_planner 1 2 (\<lambda>_. Inr False) example_ledger"
  have call: "map_sum id (\<lambda>admission. (length (ba_plans admission), ba_admitted admission)) (snd ?call) = Inr (2, False)"
    "lg_maximum_size (snd (fst ?call)) = 2" by code_simp+
  have split: "?call = ((fst (fst ?call), snd (fst ?call)), snd ?call)" by simp
  have "\<And>admission. snd ?call = Inr admission \<Longrightarrow> \<not> ba_admitted admission" using call(1) by auto
  from refused_batch_restores [OF example_ledger_new _ split this, of "[]"] show ?thesis using call by simp
qed

subsection \<open>Planning against the ledger\<close>

lemma SetBusy_upt:
  assumes "k \<le> length balances"
  shows "length (fold (\<lambda>sender planned. if outstanding ! sender \<noteq> (0 :: nat) then planned[sender := f sender] else planned) [0..<k] balances) =
      length balances \<and>
    (\<forall>s<length balances. fold (\<lambda>sender planned. if outstanding ! sender \<noteq> 0 then planned[sender := f sender] else planned) [0..<k] balances ! s =
      (if s < k \<and> outstanding ! s \<noteq> 0 then f s else balances ! s))"
  using assms by (induction k) (auto simp: nth_list_update less_Suc_eq)

lemma SetBusy_nth:
  assumes "length (lg_outstanding_by_sender l) = length balances"
  shows "length (SetBusy l f balances) = length balances"
    "s < length balances \<Longrightarrow> SetBusy l f balances ! s = (if lg_outstanding_by_sender l ! s \<noteq> 0 then f s else balances ! s)"
  using SetBusy_upt [of "length balances" balances "lg_outstanding_by_sender l" f] assms by (simp_all add: SetBusy_def)

lemma spent_sender:
  "entry \<in> set batch \<Longrightarrow> unat (pe_amount_satoshis entry) + unat fee \<le> spent fee batch (pe_sender_index entry)"
  by (induction batch) auto

text \<open>A batch that the available balances can pay, by idle senders, is staged without an exception.\<close>

lemma Stage_returns:
  assumes wf: "wf_ledger l"
  shows "staging_inv l (balances, reserved, staged, indexes) \<Longrightarrow>
    (\<forall>p\<in>set staged. unat (fst p) < unat first_index + k) \<Longrightarrow>
    (\<forall>entry\<in>set planned. pe_sender_index entry < length (lg_available_balances l) \<and>
       lg_outstanding_by_sender l ! pe_sender_index entry = 0) \<Longrightarrow>
    (\<forall>s<length (lg_available_balances l). tally (amount_of s) staged + spent (lg_fee_reserve_satoshis l) planned s
       \<le> unat (lg_available_balances l ! s)) \<Longrightarrow>
    unat first_index + k + length planned \<le> 2 ^ 64 \<Longrightarrow>
    (\<forall>i\<in>fst ` set (lg_reservations l). i < first_index) \<Longrightarrow>
    \<exists>staging'. fold_result (StageReservation l first_index) (enumerate k planned) (balances, reserved, staged, indexes) = Inr staging'"
proof (induction planned arbitrary: k balances reserved staged indexes)
  case (Cons entry planned)
  let ?s = "pe_sender_index entry" and ?fee = "lg_fee_reserve_satoshis l" and ?n = "length (lg_available_balances l)"
  let ?a = "pe_amount_satoshis entry + lg_fee_reserve_satoshis l" and ?i = "first_index + word_of_nat k :: u64"
  have s: "?s < ?n" "lg_outstanding_by_sender l ! ?s = 0" using Cons.prems(3) by simp_all
  have I: "length balances = ?n" "unat (balances ! ?s) + tally (amount_of ?s) staged = unat (lg_available_balances l ! ?s)"
    "unat (reserved ! ?s) = unat (lg_reserved_by_sender l ! ?s) + tally (amount_of ?s) staged"
    using Cons.prems(1) s(1) by (simp_all add: staging_inv_def)
  have cost: "tally (amount_of ?s) staged + (unat (pe_amount_satoshis entry) + unat ?fee + spent ?fee planned ?s)
      \<le> unat (lg_available_balances l ! ?s)" using Cons.prems(4) s(1) by auto
  have fits: "unat (pe_amount_satoshis entry) + unat ?fee < 18446744073709551616"
    using cost u64_lt [of "lg_available_balances l ! ?s"] by linarith
  then have a: "unat ?a = unat (pe_amount_satoshis entry) + unat ?fee" by (simp add: u64_add_exact)
  have k: "unat (word_of_nat k :: u64) = k" "unat (word_of_nat k :: u64) + unat first_index < 18446744073709551616"
    using Cons.prems(5) by (simp_all add: unat_of_nat)
  then have i: "unat ?i = unat first_index + k" by (subst u64_add_exact) simp_all
  have g: "\<not> word_of_nat k > max_u64 - first_index" "\<not> pe_amount_satoshis entry > max_u64 - ?fee"
    using k(2) fits by (simp_all add: u64_add_guard)
  have "first_index \<le> ?i" using i by (simp add: word_le_nat_alt)
  then have "?i \<notin> fst ` set (lg_reservations l)" using Cons.prems(6) leD by blast
  then have fresh: "map_of (lg_reservations l) ?i = None" by (simp add: map_of_eq_None_iff)
  have b: "\<not> balances ! ?s < ?a" using cost a I(2) by (simp add: not_less word_le_nat_alt)
  have "unat (reserved ! ?s) + unat ?a \<le> funds l ?s" using cost a I(3) by (simp add: funds_def)
  then have r: "\<not> reserved ! ?s > max_u64 - ?a"
    using wf_ledgerD(10) [OF wf s(1)] by (simp add: u64_add_guard)
  obtain staging1 where step: "StageReservation l first_index (k, entry) (balances, reserved, staged, indexes) = Inr staging1"
    using g s fresh b r I(1) by (simp add: StageReservation_def Let_def)
  have k64: "k < 2 ^ 64" using Cons.prems(5) by simp
  note S = StageReservation_ok [OF step Cons.prems(1,2) k64]
  obtain balances1 reserved1 where 1: "staging1 = (balances1, reserved1,
      staged @ [(?i, reservation_of ?fee entry)], indexes @ [?i])" using S(1) by blast
  have "\<exists>staging'. fold_result (StageReservation l first_index) (enumerate (Suc k) planned) staging1 = Inr staging'"
    unfolding 1
  proof (rule Cons.IH)
    show "staging_inv l (balances1, reserved1, staged @ [(?i, reservation_of ?fee entry)], indexes @ [?i])"
      using S(2) unfolding 1 .
    show "\<forall>p\<in>set (staged @ [(?i, reservation_of ?fee entry)]). unat (fst p) < unat first_index + Suc k"
      using Cons.prems(2) i by auto
    have "amount_of s (reservation_of ?fee entry) = (if ?s = s then unat (pe_amount_satoshis entry) + unat ?fee else 0)" for s
      using a by (simp add: amount_of_def reservation_of_def)
    then show "\<forall>s<?n. tally (amount_of s) (staged @ [(?i, reservation_of ?fee entry)]) + spent ?fee planned s
        \<le> unat (lg_available_balances l ! s)"
      using Cons.prems(4) by (simp add: add.assoc)
  qed (use Cons.prems in simp_all)
  then show ?case using step by simp
qed simp

lemma tally_staged:
  assumes "\<forall>entry\<in>set planned. unat (pe_amount_satoshis entry) + unat fee < 2 ^ 64"
  shows "tally (amount_of s) (staged_from fee first_index k planned) = spent fee planned s"
  using assms
proof (induction planned arbitrary: k)
  case (Cons entry planned)
  have "unat (pe_amount_satoshis entry + fee) = unat (pe_amount_satoshis entry) + unat fee"
    using Cons.prems by (intro u64_add_exact) simp
  then show ?case using Cons.IH [of "Suc k"] Cons.prems by (simp add: staged_from_def amount_of_def reservation_of_def)
qed (simp add: staged_from_def)

lemma paid_batch_staged:
  assumes wf: "wf_ledger l" and pays: "pays (lg_fee_reserve_satoshis l) batch (IdleBalances l) planned_balances"
    and batch: "batch \<noteq> []" "length batch \<le> unat remaining" "length (lg_reservations l) + length batch \<le> lg_maximum_reservations l"
    and senders: "\<forall>entry\<in>set batch. pe_sender_index entry < length (lg_available_balances l)"
    and indexes: "unat first_index + length batch \<le> 2 ^ 64" "\<forall>i\<in>fst ` set (lg_reservations l). i < first_index"
  shows "\<exists>staging. StageBatch l first_index remaining planned_balances batch = Inr staging"
proof -
  let ?n = "length (lg_available_balances l)" and ?fee = "lg_fee_reserve_satoshis l"
  have outstanding: "length (lg_outstanding_by_sender l) = ?n" by (rule wf_ledgerD(2) [OF wf])
  note Idle = SetBusy_nth [OF outstanding, where f = "\<lambda>_. 0", folded IdleBalances_def]
  have paid: "length planned_balances = ?n"
    "\<And>s. s < ?n \<Longrightarrow> unat (IdleBalances l ! s) = unat (planned_balances ! s) + spent ?fee batch s"
    using pays Idle(1) by (simp_all add: pays_def)
  have fee: "0 < unat ?fee" using wf_ledgerD(6) [OF wf] by (simp add: unat_gt_0)
  have idle: "lg_outstanding_by_sender l ! pe_sender_index entry = 0" if "entry \<in> set batch" for entry
  proof (rule ccontr)
    assume "lg_outstanding_by_sender l ! pe_sender_index entry \<noteq> 0"
    moreover have "pe_sender_index entry < ?n" using senders that by blast
    ultimately show False using paid(2) [of "pe_sender_index entry"] Idle(2) spent_sender [OF that, of ?fee] fee by simp
  qed
  have within: "spent ?fee batch s \<le> unat (lg_available_balances l ! s)" if "s < ?n" for s
    using paid(2) [OF that] Idle(2) [OF that] by (simp split: if_splits)
  obtain staging where fold: "fold_result (StageReservation l first_index) (enumerate 0 batch)
      (lg_available_balances l, lg_reserved_by_sender l, [], []) = Inr staging"
    using Stage_returns [OF wf staging_inv_start [OF wf], of first_index 0 batch] idle senders within indexes by auto
  have "0 + length batch \<le> 2 ^ 64" using indexes(1) by simp
  from Stage_all [OF fold staging_inv_start [OF wf] _ this]
  have inv: "staging_inv l staging" "fst (snd (snd staging)) = staged_from ?fee first_index 0 batch" by simp_all
  obtain balances where balances: "balances = fst staging" by blast
  have "unat (pe_amount_satoshis entry) + unat ?fee < 2 ^ 64" if "entry \<in> set batch" for entry
    using spent_sender [OF that, of ?fee] within [OF senders [rule_format, OF that]]
      u64_lt [of "lg_available_balances l ! pe_sender_index entry"] unfolding two_to_64 by linarith
  then have tally: "tally (amount_of s) (staged_from ?fee first_index 0 batch) = spent ?fee batch s" for s
    by (intro tally_staged) blast
  have b: "length balances = ?n" "\<And>s. s < ?n \<Longrightarrow> unat (balances ! s) + spent ?fee batch s = unat (lg_available_balances l ! s)"
    using inv unfolding balances by (auto simp: staging_inv_def tally split: prod.splits)
  have "RestoreBusy l balances planned_balances = balances"
  proof (rule nth_equalityI)
    have len: "length (lg_outstanding_by_sender l) = length planned_balances" using outstanding paid(1) by simp
    note R = SetBusy_nth [OF len, where f = "\<lambda>sender. balances ! sender", folded RestoreBusy_def]
    show "length (RestoreBusy l balances planned_balances) = length balances" using R(1) paid(1) b(1) by simp
    fix s assume "s < length (RestoreBusy l balances planned_balances)"
    then have s: "s < ?n" using R(1) paid(1) by simp
    show "RestoreBusy l balances planned_balances ! s = balances ! s"
      using R(2) [of s] s paid b(2) [OF s] Idle(2) [OF s] by (auto simp: word_unat_eq_iff)
  qed
  moreover have "\<not> lg_maximum_reservations l - length (lg_reservations l) < length batch" using batch(3) by linarith
  ultimately show ?thesis using batch fold unfolding balances by (intro exI [of _ staging]) (simp add: StageBatch_def)
qed

text \<open>A ledger and the planner it was made for: the same wallets and the same fee; the attempts left
  suffice for a complete fan-out, and the bound and the indexes suffice for the largest batch.\<close>

definition ready :: "'g WalletTransactionLoadPlanner \<Rightarrow> TransactionLoadBalanceReservations \<Rightarrow> u64 \<Rightarrow> u64 \<Rightarrow> bool" where
  "ready p l first_index remaining \<longleftrightarrow>
     lg_fee_reserve_satoshis l = EffectiveWalletTransactionFeeReserveSatoshis (lp_workload p) \<and>
     length (lg_available_balances l) = lp_wallet_count p \<and> first_index \<noteq> 0 \<and> remaining \<noteq> 0 \<and>
     serves p (lg_available_balances l) (unat remaining) \<and>
     (wt_strategy (lp_workload p) = kEqualFanout \<longrightarrow> length (lp_receivers p) \<le> unat remaining) \<and>
     length (lg_reservations l) + batch_size p \<le> lg_maximum_reservations l \<and>
     unat first_index + batch_size p \<le> 2 ^ 64 \<and> list_all (\<lambda>q. fst q < first_index) (lg_reservations l)"

lemma batch_size_limit:
  assumes "if wt_strategy (lp_workload p) = kEqualFanout then fanout_batch (lp_receivers p) batch
      else bruteforce_batch (lp_workload p) limit balances balances' batch"
    and "list_all (load_entry_ok (lp_wallet_count p) (lp_workload p)) batch"
    and "wt_strategy (lp_workload p) = kEqualFanout \<longrightarrow> length (lp_receivers p) \<le> limit"
  shows "length batch \<le> batch_size p" "length batch \<le> limit"
proof -
  have "length batch \<le> batch_size p \<and> length batch \<le> limit"
  proof (cases "wt_strategy (lp_workload p) = kEqualFanout")
    case True
    then have "map pe_receiver_index batch = lp_receivers p" using assms(1) by (simp add: fanout_batch_def)
    then have "length batch = length (lp_receivers p)" by (metis length_map)
    then show ?thesis using True assms(3) by (simp add: batch_size_def)
  next
    case False
    then have d: "distinct (map pe_sender_index batch)" "length batch \<le> limit" using assms(1) by (simp_all add: bruteforce_batch_def)
    have "set (map pe_sender_index batch) \<subseteq> {..<lp_wallet_count p}" using assms(2) by (auto simp: list_all_iff load_entry_ok_def)
    from card_mono [OF finite_lessThan this] have "length batch \<le> lp_wallet_count p" using distinct_card [OF d(1)] by simp
    then show ?thesis using False d(2) by (simp add: batch_size_def)
  qed
  then show "length batch \<le> batch_size p" "length batch \<le> limit" by simp_all
qed

lemma insert_all_last:
  "\<forall>p\<in>set m. \<forall>q\<in>set staged. fst p < fst q \<Longrightarrow> sorted_keys staged \<Longrightarrow> insert_all staged m = m @ staged"
proof (induction staged arbitrary: m)
  case (Cons q staged)
  have "insert_all (q # staged) m = insert_all staged (m @ [q])"
    using Cons.prems(1) smap_insert_last [of m "fst q" "snd q"] by (cases q) (simp add: insert_all_def)
  then show ?case using Cons.IH [of "m @ [q]"] Cons.prems by auto
qed (simp add: insert_all_def)

lemma PlanAndReserve_planned:
  assumes "first_index \<noteq> 0" "remaining \<noteq> 0" "NextBatch R p (IdleBalances l) (unat remaining) = ((p', balances), Inr (Some batch))"
    and "StageBatch l first_index remaining balances batch = Inr staging" "ReserveStaged staging l = (l', Inr ())"
    and "RollBackReservations (snd (snd (snd staging))) l' = (l'', Inr ())"
  shows "PlanAndReserve R p first_index remaining admit l =
    (case admit batch of
       Inl e \<Rightarrow> ((p', l''), Inl e)
     | Inr admitted \<Rightarrow> ((p', if admitted then l' else l''),
         Inr \<lparr>ba_plans = batch, ba_admitted = admitted, ba_balance_revision = lg_balance_revision l'\<rparr>))"
  using assms by (simp add: PlanAndReserve_def AdmitBatch_eq [OF assms(6)] split: sum.split)

lemma staged_from_keys:
  assumes "unat first_index + length batch \<le> 2 ^ 64" "q \<in> set (staged_from fee first_index 0 batch)"
  shows "first_index \<le> fst q"
proof -
  obtain k where k: "k < length batch" "fst q = first_index + word_of_nat k"
    using assms(2) by (auto simp: staged_from_def in_set_enumerate_eq)
  have "unat (word_of_nat k :: u64) = k" using k(1) assms(1) by (simp add: unat_of_nat)
  then have "unat (fst q) = unat first_index + k"
    unfolding k(2) using k(1) assms(1) by (subst u64_add_exact) simp_all
  then show ?thesis by (simp add: word_le_nat_alt)
qed

lemma staged_appended:
  assumes wf: "wf_ledger l" and stage: "StageBatch l first_index remaining balances batch = Inr staging"
    and indexes: "unat first_index + length batch \<le> 2 ^ 64" "list_all (\<lambda>q. fst q < first_index) (lg_reservations l)"
  shows "insert_all (staged_from (lg_fee_reserve_satoshis l) first_index 0 batch) (lg_reservations l) =
    lg_reservations l @ staged_from (lg_fee_reserve_satoshis l) first_index 0 batch"
proof (rule insert_all_last)
  have "0 + length batch \<le> 2 ^ 64" using indexes(1) by simp
  from Stage_all [OF StageBatch_ok(3) [OF stage] staging_inv_start [OF wf] _ this]
  show "sorted_keys (staged_from (lg_fee_reserve_satoshis l) first_index 0 batch)"
    by (cases staging) (auto simp: staging_inv_def)
  show "\<forall>p\<in>set (lg_reservations l). \<forall>q\<in>set (staged_from (lg_fee_reserve_satoshis l) first_index 0 batch). fst p < fst q"
    using indexes(2) staged_from_keys [OF indexes(1)] by (metis list_all_iff order.strict_trans2)
qed

text \<open>What the call returns when the planner has nothing to propose, and when it proposes a batch.\<close>

definition nothing_planned ::
    "'g WalletTransactionLoadPlanner \<Rightarrow> TransactionLoadBalanceReservations \<Rightarrow>
     ('g WalletTransactionLoadPlanner \<times> TransactionLoadBalanceReservations) \<times> TransactionLoadBatchAdmission result" where
  "nothing_planned p l = ((p, l), Inr \<lparr>ba_plans = [], ba_admitted = False, ba_balance_revision = lg_balance_revision l\<rparr>)"

definition batch_proposed ::
    "'g WalletTransactionLoadPlanner \<Rightarrow> TransactionLoadBalanceReservations \<Rightarrow> TransactionLoadBalanceReservations \<Rightarrow>
     WalletTransactionPlanEntry list \<Rightarrow> bool result \<Rightarrow>
     ('g WalletTransactionLoadPlanner \<times> TransactionLoadBalanceReservations) \<times> TransactionLoadBatchAdmission result" where
  "batch_proposed p l l' batch answer =
     (let undone = l\<lparr>lg_maximum_size := lg_maximum_size l'\<rparr> in
      case answer of
        Inl e \<Rightarrow> ((p, undone), Inl e)
      | Inr admitted \<Rightarrow> ((p, if admitted then l' else undone),
          Inr \<lparr>ba_plans = batch, ba_admitted = admitted, ba_balance_revision = lg_balance_revision l\<rparr>))"

lemma planned_batch_offered:
  assumes wf: "wf_ledger l" and ready: "ready p l first_index remaining"
    and next_batch: "NextBatch R p (IdleBalances l) (unat remaining) = ((p', balances), Inr (Some batch))"
    and b: "batch \<noteq> []" "list_all (load_entry_ok (lp_wallet_count p) (lp_workload p)) batch"
      "pays (lg_fee_reserve_satoshis l) batch (IdleBalances l) balances"
    and kind: "if wt_strategy (lp_workload p) = kEqualFanout then fanout_batch (lp_receivers p) batch
      else bruteforce_batch (lp_workload p) (unat remaining) (IdleBalances l) balances batch"
  shows "\<exists>l'. wf_ledger l' \<and>
    lg_reservations l' = lg_reservations l @ staged_from (lg_fee_reserve_satoshis l) first_index 0 batch \<and>
    (\<forall>s<lp_wallet_count p. funds l' s = funds l s) \<and>
    PlanAndReserve R p first_index remaining admit l = batch_proposed p' l l' batch (admit batch)"
proof -
  have n: "length (lg_available_balances l) = lp_wallet_count p" and nz: "first_index \<noteq> 0" "remaining \<noteq> 0"
    and fanout: "wt_strategy (lp_workload p) = kEqualFanout \<longrightarrow> length (lp_receivers p) \<le> unat remaining"
    and room: "length (lg_reservations l) + batch_size p \<le> lg_maximum_reservations l" "unat first_index + batch_size p \<le> 2 ^ 64"
    and after: "list_all (\<lambda>q. fst q < first_index) (lg_reservations l)"
    using ready unfolding ready_def by blast+
  note size = batch_size_limit [OF kind b(2) fanout]
  have fits: "length (lg_reservations l) + length batch \<le> lg_maximum_reservations l" "unat first_index + length batch \<le> 2 ^ 64"
    using size(1) room by linarith+
  have senders: "\<forall>entry\<in>set batch. pe_sender_index entry < length (lg_available_balances l)"
    using b(2) n by (simp add: list_all_iff load_entry_ok_def)
  have "\<forall>i\<in>fst ` set (lg_reservations l). i < first_index" using after by (auto simp: list_all_iff)
  then obtain staging where stage: "StageBatch l first_index remaining balances batch = Inr staging"
    using paid_batch_staged [OF wf b(3,1) size(2) fits(1) senders fits(2)] by blast
  from batch_reserved [OF wf stage] obtain l' where l': "ReserveStaged staging l = (l', Inr ())" "wf_ledger l'"
    "lg_reservations l' = lg_reservations l @ staged_from (lg_fee_reserve_satoshis l) first_index 0 batch"
    "\<forall>s<lp_wallet_count p. funds l' s = funds l s" "lg_balance_revision l' = lg_balance_revision l"
    "RollBackReservations (snd (snd (snd staging))) l' = (l\<lparr>lg_maximum_size := lg_maximum_size l'\<rparr>, Inr ())"
    unfolding staged_appended [OF wf stage fits(2) after] n by blast
  have "PlanAndReserve R p first_index remaining admit l = batch_proposed p' l l' batch (admit batch)"
    using PlanAndReserve_planned [OF nz next_batch stage l'(1,6)]
    unfolding batch_proposed_def Let_def l'(5) .
  then show ?thesis using l'(2-4) by blast
qed

text \<open>C38. A planner and its ledger fit together: on a well-formed ledger with room for a batch, planning and
  reserving returns, and none of the ledger's consistency checks on the planner fires. Either the planner
  has nothing to propose and nothing changes, or its batch of valid transfers is offered to the callback
  with its reservations in place: one per transfer, for the amount and the fee, under consecutive indexes
  after those in use, taken from what the senders had available, so that what a wallet owns in total does
  not change. The callback alone decides whether they stay.\<close>

theorem planned_batch_reserved:
  assumes p: "wf_load_planner p" and R: "recurrent R" and wf: "wf_ledger l" and ready: "ready p l first_index remaining"
  shows "\<exists>p'. wf_load_planner p' \<and>
    (PlanAndReserve R p first_index remaining admit l = nothing_planned p' l \<or>
     (\<exists>batch l'. batch \<noteq> [] \<and> list_all (load_entry_ok (lp_wallet_count p) (lp_workload p)) batch \<and> wf_ledger l' \<and>
        lg_reservations l' = lg_reservations l @ staged_from (lg_fee_reserve_satoshis l) first_index 0 batch \<and>
        (\<forall>s<lp_wallet_count p. funds l' s = funds l s) \<and>
        PlanAndReserve R p first_index remaining admit l = batch_proposed p' l l' batch (admit batch)))"
proof -
  have fee: "lg_fee_reserve_satoshis l = EffectiveWalletTransactionFeeReserveSatoshis (lp_workload p)"
    and nz: "first_index \<noteq> 0" "remaining \<noteq> 0" and serves: "serves p (lg_available_balances l) (unat remaining)"
    using ready unfolding ready_def by blast+
  have "serves p (IdleBalances l) (unat remaining)"
    using serves SetBusy_nth(1) [OF wf_ledgerD(2) [OF wf]] by (simp add: serves_def IdleBalances_def)
  from NextBatch_valid [OF p R this] obtain p' balances found where next_batch:
    "NextBatch R p (IdleBalances l) (unat remaining) = ((p', balances), Inr found)" "wf_load_planner p'"
    and found: "case found of None \<Rightarrow> balances = IdleBalances l
     | Some batch \<Rightarrow> batch \<noteq> [] \<and> list_all (load_entry_ok (lp_wallet_count p) (lp_workload p)) batch \<and>
         pays (EffectiveWalletTransactionFeeReserveSatoshis (lp_workload p)) batch (IdleBalances l) balances \<and>
         (if wt_strategy (lp_workload p) = kEqualFanout then fanout_batch (lp_receivers p) batch
          else bruteforce_batch (lp_workload p) (unat remaining) (IdleBalances l) balances batch)"
    by blast
  show ?thesis
  proof (cases found)
    case None
    then have "PlanAndReserve R p first_index remaining admit l = nothing_planned p' l"
      using nz next_batch(1) by (simp add: PlanAndReserve_def nothing_planned_def)
    then show ?thesis using next_batch(2) by blast
  next
    case (Some batch)
    have b: "batch \<noteq> []" "list_all (load_entry_ok (lp_wallet_count p) (lp_workload p)) batch"
      "pays (lg_fee_reserve_satoshis l) batch (IdleBalances l) balances"
      and kind: "if wt_strategy (lp_workload p) = kEqualFanout then fanout_batch (lp_receivers p) batch
          else bruteforce_batch (lp_workload p) (unat remaining) (IdleBalances l) balances batch"
      using found unfolding Some fee by simp_all
    from planned_batch_offered [OF wf ready next_batch(1) [unfolded Some] b kind, of admit]
    show ?thesis using next_batch(2) b(1,2) by blast
  qed
qed

theorem planned_batch_reserved_witness:
  "ready example_planner example_ledger 1 2 \<and>
   (\<exists>p'. wf_load_planner p' \<and>
    (PlanAndReserve high_rng example_planner 1 2 (\<lambda>_. Inr True) example_ledger = nothing_planned p' example_ledger \<or>
     (\<exists>batch l'. batch \<noteq> [] \<and> lg_reservations l' = staged_from 2 1 0 batch \<and>
        PlanAndReserve high_rng example_planner 1 2 (\<lambda>_. Inr True) example_ledger = batch_proposed p' example_ledger l' batch (Inr True))))"
proof -
  have new: "new_WalletTransactionLoadPlanner high_rng example_shuffle 3 example_fanout 0 = Inr example_planner"
    by (simp add: new_WalletTransactionLoadPlanner_def IsTransactionLoadStrategy_def ResolveLoadWallets_def
        ResolveSelectedWallets_def ResolveSelectedWallet_def RequireDisjointWalletSets_def example_fanout_def example_workload_def
        example_shuffle_def example_planner_def Let_def)
  then have p: "wf_load_planner example_planner" using new_load_planner_wf [OF new example_shuffle_permutes] by simp
  have ready: "ready example_planner example_ledger 1 2"
    by (simp add: ready_def serves_def batch_size_def example_planner_def example_ledger_def example_fanout_def example_workload_def
        EffectiveWalletTransactionFeeReserveSatoshis_def)
  have "lg_reservations example_ledger = []" "lg_fee_reserve_satoshis example_ledger = 2" by (simp_all add: example_ledger_def)
  then show ?thesis
    using planned_batch_reserved [OF p high_rng_recurrent new_ledger_wf [OF example_ledger_new] ready, of "\<lambda>_. Inr True"] ready
    by (simp only: append_Nil) blast
qed

end
