(* ===== verification/Observation_Store.thy ===== *)
theory Observation_Store
  imports Transaction_Load
begin

text \<open>
  The store of submitted transactions that are still to be observed, from
  \<open>src/transaction_observation_store.cpp\<close> and its header. The nodes of the \<open>std::list\<close> of entries have
  addresses, which are the iterators of the index; an allocation takes the next address. A critical
  section is one step. A \<open>double\<close> is carried as its bit pattern, and a shared pointer to a load
  confirmation is an address of the heap of confirmations.
\<close>

subsection \<open>Entries and the store\<close>

record TrackedTransaction =
  tt_txid :: string
  tt_submission_kind :: string
  tt_workload_id :: string
  tt_workload_index :: u32
  tt_workload_count :: u32
  tt_transaction_index :: u64
  tt_transaction_count :: "u32 option"
  tt_transaction_rate :: "u64 option"
  tt_txid_index :: u32
  tt_submission_node :: u32
  tt_load_confirmation :: "nat option"

record TransactionObservationTransition =
  ot_tracked :: bool
  ot_first_visible :: bool
  ot_first_confirmed :: bool
  ot_retired :: bool
  ot_load_progress :: "TransactionLoadSnapshot option"

definition no_transition :: TransactionObservationTransition where
  "no_transition = \<lparr>ot_tracked = False, ot_first_visible = False, ot_first_confirmed = False, ot_retired = False,
     ot_load_progress = None\<rparr>"

record Entry =
  en_transaction :: TrackedTransaction
  en_required_node_ids :: "string set"
  en_visible_node_ids :: "string set"
  en_confirmed_node_ids :: "string set"

type_synonym Entries = "(nat \<times> Entry) list"

record TransactionObservationStore =
  os_capacity :: nat
  os_next_address :: nat
  os_entries :: Entries
  os_entries_by_txid :: "string \<rightharpoonup> nat"
  os_reserved :: nat
  os_recent_retired :: "string list"
  os_recent_retired_index :: "string set"
  os_maximum_active :: nat
  os_maximum_retained :: nat
  os_tracked :: u64
  os_retired :: u64
  os_cancelled :: u64
  os_rejected :: u64
  os_visibility_transitions :: u64
  os_confirmation_transitions :: u64

definition CheckedAdd :: "u64 \<Rightarrow> string \<Rightarrow> u64 \<Rightarrow> u64 result" where
  "CheckedAdd amount field_name value =
     (if value > max_u64 - amount
      then Inl (RuntimeError (''transaction observation '' @ field_name @ '' exceeds uint64''))
      else Inr (value + amount))"

definition new_TransactionObservationStore :: "nat \<Rightarrow> TransactionObservationStore result" where
  "new_TransactionObservationStore capacity =
     (if capacity = 0
      then Inl (RuntimeError ''transaction observation capacity must be greater than zero'')
      else Inr \<lparr>os_capacity = capacity, os_next_address = 0, os_entries = [], os_entries_by_txid = Map.empty, os_reserved = 0,
        os_recent_retired = [], os_recent_retired_index = {}, os_maximum_active = 0, os_maximum_retained = 0,
        os_tracked = 0, os_retired = 0, os_cancelled = 0, os_rejected = 0, os_visibility_transitions = 0,
        os_confirmation_transitions = 0\<rparr>)"

subsection \<open>Reservations\<close>

text \<open>A reservation of the one store: active while its owner is set.\<close>

record ObservationReservation =
  or_active :: bool
  or_size :: nat

definition inactive :: ObservationReservation where
  "inactive = \<lparr>or_active = False, or_size = 0\<rparr>"

definition ReleaseReservation :: "nat \<Rightarrow> TransactionObservationStore \<Rightarrow> TransactionObservationStore result" where
  "ReleaseReservation n store =
     (if n > os_reserved store then Inl Terminated
      else Inr (store\<lparr>os_reserved := os_reserved store - n\<rparr>))"

definition Release ::
    "ObservationReservation \<Rightarrow> TransactionObservationStore \<Rightarrow> (TransactionObservationStore \<times> ObservationReservation) result" where
  "Release reservation store =
     (if or_active reservation
      then bind_result (ReleaseReservation (or_size reservation) store) (\<lambda>store. Inr (store, inactive))
      else Inr (store, reservation))"

text \<open>Moving a reservation leaves the other one inactive; an assignment first releases its target, which is
  another object than its source.\<close>

definition MoveReservation :: "ObservationReservation \<Rightarrow> ObservationReservation \<times> ObservationReservation" where
  "MoveReservation other = (other, inactive)"

definition MoveAssign ::
    "ObservationReservation \<Rightarrow> ObservationReservation \<Rightarrow> TransactionObservationStore \<Rightarrow>
     (TransactionObservationStore \<times> ObservationReservation \<times> ObservationReservation) result" where
  "MoveAssign reservation other store =
     bind_result (Release reservation store) (\<lambda>(store, _).
       let (reservation, other) = MoveReservation other in Inr (store, reservation, other))"

definition TryReserve ::
    "nat \<Rightarrow> TransactionObservationStore \<Rightarrow> TransactionObservationStore \<times> ObservationReservation option result" where
  "TryReserve n store =
     (if n = 0 \<or> n > os_capacity store
      then (store, Inl (RuntimeError (''transaction observation reservation size must be in 1..'' @ to_string (os_capacity store))))
      else let retained = length (os_entries store) + os_reserved store in
        if n > os_capacity store - retained
        then (case CheckedAdd (word_of_nat n) ''rejections'' (os_rejected store) of
                Inl e \<Rightarrow> (store, Inl e)
              | Inr rejected \<Rightarrow> (store\<lparr>os_rejected := rejected\<rparr>, Inr None))
        else (store\<lparr>os_reserved := os_reserved store + n,
                os_maximum_retained := max (os_maximum_retained store) (retained + n)\<rparr>,
              Inr (Some \<lparr>or_active = True, or_size = n\<rparr>)))"

definition Reserve ::
    "nat \<Rightarrow> TransactionObservationStore \<Rightarrow> TransactionObservationStore \<times> ObservationReservation result" where
  "Reserve n store =
     (case TryReserve n store of
        (store, Inl e) \<Rightarrow> (store, Inl e)
      | (store, Inr None) \<Rightarrow> (store, Inl (RuntimeError (''transaction observation capacity is full (capacity '' @
          to_string (os_capacity store) @ '')'')))
      | (store, Inr (Some reservation)) \<Rightarrow> (store, Inr reservation))"

subsection \<open>Tracking\<close>

text \<open>The staged list, its index and the next address.\<close>

type_synonym staged_entries = "Entries \<times> (string \<rightharpoonup> nat) \<times> nat"

definition StageTransaction :: "string set \<Rightarrow> TrackedTransaction \<Rightarrow> staged_entries \<Rightarrow> staged_entries result" where
  "StageTransaction required transaction = (\<lambda>(staged, staged_by_txid, next_address).
     if tt_txid transaction = [] then Inl (RuntimeError ''cannot track an empty transaction id'')
     else if staged_by_txid (tt_txid transaction) \<noteq> None
     then Inl (RuntimeError (''duplicate submitted transaction id: '' @ tt_txid transaction))
     else Inr (staged @ [(next_address, \<lparr>en_transaction = transaction, en_required_node_ids = required,
         en_visible_node_ids = {}, en_confirmed_node_ids = {}\<rparr>)],
       staged_by_txid(tt_txid transaction \<mapsto> next_address), next_address + 1))"

definition CheckRequired :: "string list \<Rightarrow> unit result" where
  "CheckRequired required_node_ids =
     bind_result (require (required_node_ids \<noteq> [] \<and> distinct required_node_ids)
       (RuntimeError ''transaction observation nodes must be nonempty and unique'')) (\<lambda>_.
     require (list_all (\<lambda>node_id. node_id \<noteq> []) required_node_ids)
       (RuntimeError ''transaction observation node id must not be empty''))"

text \<open>The part under the lock: all checks come before the first change.\<close>

definition PublishStaged ::
    "ObservationReservation \<Rightarrow> staged_entries \<Rightarrow> TransactionObservationStore \<Rightarrow>
     (TransactionObservationStore \<times> ObservationReservation) \<times> unit result" where
  "PublishStaged reservation = (\<lambda>(staged, staged_by_txid, next_address) store.
     if or_size reservation > os_reserved store
     then ((store, reservation), Inl (RuntimeError ''transaction observation reservation is not active''))
     else case filter (\<lambda>txid. os_entries_by_txid store txid \<noteq> None \<or> txid \<in> os_recent_retired_index store)
         (map (\<lambda>p. tt_txid (en_transaction (snd p))) staged) of
       txid # _ \<Rightarrow> ((store, reservation), Inl (RuntimeError (''duplicate submitted transaction id: '' @ txid)))
     | [] \<Rightarrow>
       (case CheckedAdd (word_of_nat (length staged)) ''tracked count'' (os_tracked store) of
          Inl e \<Rightarrow> ((store, reservation), Inl e)
        | Inr tracked \<Rightarrow>
          let entries = os_entries store @ staged in
          ((store\<lparr>os_tracked := tracked, os_entries_by_txid := os_entries_by_txid store ++ staged_by_txid,
              os_entries := entries, os_next_address := next_address,
              os_reserved := os_reserved store - or_size reservation,
              os_maximum_active := max (os_maximum_active store) (length entries)\<rparr>, inactive), Inr ())))"

definition CommitReservation ::
    "TrackedTransaction list \<Rightarrow> string list \<Rightarrow> ObservationReservation \<Rightarrow> TransactionObservationStore \<Rightarrow>
     (TransactionObservationStore \<times> ObservationReservation) \<times> unit result" where
  "CommitReservation transactions required_node_ids reservation store =
     (if transactions = []
      then ((store, reservation), Inl (RuntimeError ''cannot track an empty transaction set''))
      else if length transactions \<noteq> or_size reservation
      then ((store, reservation), Inl (RuntimeError
        ''transaction observation reservation size does not match transaction count''))
      else case bind_result (CheckRequired required_node_ids) (\<lambda>_.
          fold_result (StageTransaction (set required_node_ids)) transactions ([], Map.empty, os_next_address store)) of
        Inl e \<Rightarrow> ((store, reservation), Inl e)
      | Inr staged \<Rightarrow> PublishStaged reservation staged store)"

definition Commit ::
    "TrackedTransaction list \<Rightarrow> string list \<Rightarrow> ObservationReservation \<Rightarrow> TransactionObservationStore \<Rightarrow>
     (TransactionObservationStore \<times> ObservationReservation) \<times> unit result" where
  "Commit transactions required_node_ids reservation store =
     (if \<not> or_active reservation
      then ((store, reservation), Inl (RuntimeError ''transaction observation reservation is not active''))
      else CommitReservation transactions required_node_ids reservation store)"

text \<open>The reservation of \<open>TrackSet\<close> is a local variable: its destructor runs on both ways out.\<close>

definition TrackSet ::
    "TrackedTransaction list \<Rightarrow> string list \<Rightarrow> TransactionObservationStore \<Rightarrow> TransactionObservationStore \<times> unit result" where
  "TrackSet transactions required_node_ids store =
     (case Reserve (length transactions) store of
        (store, Inl e) \<Rightarrow> (store, Inl e)
      | (store, Inr reservation) \<Rightarrow>
        let ((store, reservation), committed) = Commit transactions required_node_ids reservation store in
        case Release reservation store of
          Inl e \<Rightarrow> (store, Inl e)
        | Inr (store, _) \<Rightarrow> (store, committed))"

definition Track ::
    "TrackedTransaction \<Rightarrow> string list \<Rightarrow> TransactionObservationStore \<Rightarrow> TransactionObservationStore \<times> unit result" where
  "Track transaction required_node_ids store = TrackSet [transaction] required_node_ids store"

subsection \<open>Retiring\<close>

text \<open>The ids of the last transactions that left the store, at most \<open>capacity\<close> of them.\<close>

definition RememberRetired :: "string \<Rightarrow> TransactionObservationStore \<Rightarrow> TransactionObservationStore" where
  "RememberRetired txid store =
     (let store = (if length (os_recent_retired store) \<ge> os_capacity store
            then store\<lparr>os_recent_retired_index := os_recent_retired_index store - {hd (os_recent_retired store)},
                   os_recent_retired := tl (os_recent_retired store)\<rparr>
            else store) in
      store\<lparr>os_recent_retired := os_recent_retired store @ [txid],
        os_recent_retired_index := insert txid (os_recent_retired_index store)\<rparr>)"

definition EraseEntry :: "nat \<Rightarrow> string \<Rightarrow> TransactionObservationStore \<Rightarrow> TransactionObservationStore" where
  "EraseEntry address txid store =
     RememberRetired txid (store\<lparr>os_entries_by_txid := (os_entries_by_txid store)(txid := None),
       os_entries := filter (\<lambda>p. fst p \<noteq> address) (os_entries store)\<rparr>)"

definition CancelEntry ::
    "string \<Rightarrow> nat \<times> Entry \<Rightarrow> TransactionObservationStore \<times> nat \<Rightarrow> TransactionObservationStore \<times> nat" where
  "CancelEntry workload_id = (\<lambda>(address, entry) (store, cancelled).
     if tt_workload_id (en_transaction entry) \<noteq> workload_id then (store, cancelled)
     else (EraseEntry address (tt_txid (en_transaction entry)) store, cancelled + 1))"

definition CancelWorkload ::
    "string \<Rightarrow> TransactionObservationStore \<Rightarrow> TransactionObservationStore \<times> nat result" where
  "CancelWorkload workload_id store =
     (if workload_id = [] then (store, Inl (RuntimeError ''transaction observation workload id must not be empty''))
      else let (store, cancelled) = fold (CancelEntry workload_id) (os_entries store) (store, 0) in
        case CheckedAdd (word_of_nat cancelled) ''cancelled count'' (os_cancelled store) of
          Inl e \<Rightarrow> (store, Inl e)
        | Inr total_cancelled \<Rightarrow> (store\<lparr>os_cancelled := total_cancelled\<rparr>, Inr cancelled))"

subsection \<open>Recording an observation\<close>

definition PendingTransactions :: "TransactionObservationStore \<Rightarrow> TrackedTransaction list" where
  "PendingTransactions store = map (\<lambda>p. en_transaction (snd p)) (os_entries store)"

definition PendingTransactionsForNode :: "string \<Rightarrow> TransactionObservationStore \<Rightarrow> TrackedTransaction list" where
  "PendingTransactionsForNode node_id store =
     map (\<lambda>p. en_transaction (snd p)) (filter (\<lambda>p. node_id \<in> en_required_node_ids (snd p) \<and>
       node_id \<notin> en_confirmed_node_ids (snd p)) (os_entries store))"

definition set_entry :: "nat \<Rightarrow> Entry \<Rightarrow> Entries \<Rightarrow> Entries" where
  "set_entry address entry entries = map (\<lambda>p. if fst p = address then (address, entry) else p) entries"

text \<open>The steps under the lock on the entry that was found: each may throw and leaves what was done.\<close>

definition MarkVisible ::
    "nat \<Rightarrow> string \<Rightarrow> Entry \<Rightarrow> TransactionObservationStore \<Rightarrow> TransactionObservationStore \<times> (Entry \<times> bool) result" where
  "MarkVisible address node_id entry store =
     (let first = (node_id \<notin> en_visible_node_ids entry);
          entry = entry\<lparr>en_visible_node_ids := insert node_id (en_visible_node_ids entry)\<rparr>;
          store = store\<lparr>os_entries := set_entry address entry (os_entries store)\<rparr> in
      if first
      then case CheckedAdd 1 ''visibility transition count'' (os_visibility_transitions store) of
          Inl e \<Rightarrow> (store, Inl e)
        | Inr transitions \<Rightarrow> (store\<lparr>os_visibility_transitions := transitions\<rparr>, Inr (entry, True))
      else (store, Inr (entry, False)))"

definition MarkConfirmed ::
    "nat \<Rightarrow> string \<Rightarrow> Entry \<Rightarrow> TransactionObservationStore \<Rightarrow> TransactionObservationStore \<times> (Entry \<times> bool) result" where
  "MarkConfirmed address node_id entry store =
     (let first = (node_id \<notin> en_confirmed_node_ids entry);
          entry = entry\<lparr>en_confirmed_node_ids := insert node_id (en_confirmed_node_ids entry)\<rparr>;
          store = store\<lparr>os_entries := set_entry address entry (os_entries store)\<rparr> in
      if first
      then case CheckedAdd 1 ''confirmation transition count'' (os_confirmation_transitions store) of
          Inl e \<Rightarrow> (store, Inl e)
        | Inr transitions \<Rightarrow> (store\<lparr>os_confirmation_transitions := transitions\<rparr>, Inr (entry, True))
      else (store, Inr (entry, False)))"

definition RetireConfirmed ::
    "nat \<Rightarrow> Entry \<Rightarrow> TransactionObservationStore \<Rightarrow> TransactionObservationStore \<times> bool result" where
  "RetireConfirmed address entry store =
     (if card (en_confirmed_node_ids entry) = card (en_required_node_ids entry)
      then let store = EraseEntry address (tt_txid (en_transaction entry)) store in
        case CheckedAdd 1 ''retired count'' (os_retired store) of
          Inl e \<Rightarrow> (store, Inl e)
        | Inr retired \<Rightarrow> (store\<lparr>os_retired := retired\<rparr>, Inr True)
      else (store, Inr False))"

definition ConfirmIf ::
    "bool \<Rightarrow> nat \<Rightarrow> string \<Rightarrow> Entry \<Rightarrow> TransactionObservationStore \<Rightarrow> TransactionObservationStore \<times> (Entry \<times> bool) result" where
  "ConfirmIf confirmed address node_id entry store =
     (if confirmed then MarkConfirmed address node_id entry store else (store, Inr (entry, False)))"

definition RecordFound ::
    "nat \<Rightarrow> string \<Rightarrow> bool \<Rightarrow> Entry \<Rightarrow> TransactionObservationStore \<Rightarrow>
     TransactionObservationStore \<times> (TransactionObservationTransition \<times> nat option) result" where
  "RecordFound address node_id confirmed entry store =
     (case MarkVisible address node_id entry store of
        (store, Inl e) \<Rightarrow> (store, Inl e)
      | (store, Inr (entry, first_visible)) \<Rightarrow>
        (case ConfirmIf confirmed address node_id entry store of
           (store, Inl e) \<Rightarrow> (store, Inl e)
         | (store, Inr (entry, first_confirmed)) \<Rightarrow>
           (case RetireConfirmed address entry store of
              (store, Inl e) \<Rightarrow> (store, Inl e)
            | (store, Inr retired) \<Rightarrow>
              (store, Inr (\<lparr>ot_tracked = True, ot_first_visible = first_visible, ot_first_confirmed = first_confirmed,
                 ot_retired = retired, ot_load_progress = None\<rparr>, tt_load_confirmation (en_transaction entry))))))"

text \<open>An index that refers to no list node is undefined behaviour; it is shown not to arise.\<close>

definition RecordEntry ::
    "string \<Rightarrow> string \<Rightarrow> bool \<Rightarrow> TransactionObservationStore \<Rightarrow>
     TransactionObservationStore \<times> (TransactionObservationTransition \<times> nat option) result" where
  "RecordEntry txid node_id confirmed store =
     (case os_entries_by_txid store txid of
        None \<Rightarrow> (store, Inr (no_transition, None))
      | Some address \<Rightarrow>
        (case map_of (os_entries store) address of
           None \<Rightarrow> (store, Inl (LogicError ''dangling iterator''))
         | Some entry \<Rightarrow>
           if node_id \<notin> en_required_node_ids entry
           then (store, Inl (RuntimeError (''transaction observation used unexpected node: '' @ node_id)))
           else RecordFound address node_id confirmed entry store))"

text \<open>The heap of load confirmations: each has the address of the accounting it shares.\<close>

record load_heap =
  lh_confirmation :: "nat \<Rightarrow> TransactionLoadConfirmation"
  lh_accounting :: "nat \<Rightarrow> nat"
  lh_counters :: "nat \<Rightarrow> TransactionLoadSnapshot"

definition Record ::
    "string \<Rightarrow> string \<Rightarrow> bool \<Rightarrow> bool \<Rightarrow> TransactionObservationStore \<times> load_heap \<Rightarrow>
     (TransactionObservationStore \<times> load_heap) \<times> TransactionObservationTransition result" where
  "Record txid node_id visible confirmed = (\<lambda>(store, heap).
     if confirmed \<and> \<not> visible
     then ((store, heap), Inl (RuntimeError ''confirmed transaction observation must also be visible''))
     else if \<not> visible then ((store, heap), Inr no_transition)
     else case RecordEntry txid node_id confirmed store of
       (store, Inl e) \<Rightarrow> ((store, heap), Inl e)
     | (store, Inr (transition, None)) \<Rightarrow> ((store, heap), Inr transition)
     | (store, Inr (transition, Some a)) \<Rightarrow>
       let ((confirmation, counters), progress) =
             RecordObservation (txid, node_id) confirmed (lh_confirmation heap a, lh_counters heap (lh_accounting heap a));
           heap = heap\<lparr>lh_confirmation := (lh_confirmation heap)(a := confirmation),
             lh_counters := (lh_counters heap)(lh_accounting heap a := counters)\<rparr> in
       case progress of
         Inl e \<Rightarrow> ((store, heap), Inl e)
       | Inr load_progress \<Rightarrow> ((store, heap), Inr (transition\<lparr>ot_load_progress := load_progress\<rparr>)))"

subsection \<open>Well-formed stores\<close>

abbreviation txid_of :: "Entry \<Rightarrow> string" where
  "txid_of entry \<equiv> tt_txid (en_transaction entry)"

definition entry_ok :: "Entry \<Rightarrow> bool" where
  "entry_ok entry \<longleftrightarrow> finite (en_required_node_ids entry) \<and> en_required_node_ids entry \<noteq> {} \<and>
     en_confirmed_node_ids entry \<subseteq> en_visible_node_ids entry \<and> en_visible_node_ids entry \<subseteq> en_required_node_ids entry"

text \<open>Of the transactions that were tracked, \<open>k\<close> have left the entries without being counted yet.\<close>

definition wf_store :: "nat \<Rightarrow> TransactionObservationStore \<Rightarrow> bool" where
  "wf_store k s \<longleftrightarrow> 0 < os_capacity s \<and> os_capacity s < 2 ^ 64 \<and>
     distinct (map fst (os_entries s)) \<and> (\<forall>p\<in>set (os_entries s). fst p < os_next_address s \<and> entry_ok (snd p)) \<and>
     (\<forall>txid address. os_entries_by_txid s txid = Some address \<longleftrightarrow>
        (\<exists>entry. (address, entry) \<in> set (os_entries s) \<and> txid_of entry = txid)) \<and>
     length (os_entries s) + os_reserved s \<le> os_maximum_retained s \<and> os_maximum_retained s \<le> os_capacity s \<and>
     length (os_entries s) \<le> os_maximum_active s \<and> os_maximum_active s \<le> os_capacity s \<and>
     length (os_recent_retired s) \<le> os_capacity s \<and> distinct (os_recent_retired s) \<and>
     set (os_recent_retired s) = os_recent_retired_index s \<and>
     (\<forall>txid\<in>set (os_recent_retired s). os_entries_by_txid s txid = None) \<and>
     unat (os_tracked s) = length (os_entries s) + unat (os_retired s) + unat (os_cancelled s) + k"

lemma wf_storeD:
  assumes "wf_store k s"
  shows "0 < os_capacity s" "distinct (map fst (os_entries s))"
    "\<And>address entry. (address, entry) \<in> set (os_entries s) \<Longrightarrow> address < os_next_address s \<and> entry_ok entry"
    "\<And>txid address. os_entries_by_txid s txid = Some address \<longleftrightarrow>
        (\<exists>entry. (address, entry) \<in> set (os_entries s) \<and> txid_of entry = txid)"
    "length (os_entries s) + os_reserved s \<le> os_maximum_retained s" "os_maximum_retained s \<le> os_capacity s"
    "length (os_entries s) \<le> os_maximum_active s" "os_maximum_active s \<le> os_capacity s"
    "length (os_recent_retired s) \<le> os_capacity s" "distinct (os_recent_retired s)"
    "set (os_recent_retired s) = os_recent_retired_index s"
    "\<And>txid. txid \<in> set (os_recent_retired s) \<Longrightarrow> os_entries_by_txid s txid = None"
    "unat (os_tracked s) = length (os_entries s) + unat (os_retired s) + unat (os_cancelled s) + k"
    "os_capacity s < 2 ^ 64"
  using assms unfolding wf_store_def by (simp_all add: Ball_def)

lemma wf_storeI:
  assumes "0 < os_capacity s" "distinct (map fst (os_entries s))"
    "\<And>address entry. (address, entry) \<in> set (os_entries s) \<Longrightarrow> address < os_next_address s \<and> entry_ok entry"
    "\<And>txid address. os_entries_by_txid s txid = Some address \<longleftrightarrow>
        (\<exists>entry. (address, entry) \<in> set (os_entries s) \<and> txid_of entry = txid)"
    "length (os_entries s) + os_reserved s \<le> os_maximum_retained s" "os_maximum_retained s \<le> os_capacity s"
    "length (os_entries s) \<le> os_maximum_active s" "os_maximum_active s \<le> os_capacity s"
    "length (os_recent_retired s) \<le> os_capacity s" "distinct (os_recent_retired s)"
    "set (os_recent_retired s) = os_recent_retired_index s"
    "\<And>txid. txid \<in> set (os_recent_retired s) \<Longrightarrow> os_entries_by_txid s txid = None"
    "unat (os_tracked s) = length (os_entries s) + unat (os_retired s) + unat (os_cancelled s) + k"
    "os_capacity s < 2 ^ 64"
  shows "wf_store k s"
proof -
  have "\<forall>p\<in>set (os_entries s). fst p < os_next_address s \<and> entry_ok (snd p)" using assms(3) by (metis prod.collapse)
  then show ?thesis unfolding wf_store_def using assms(1,2,4-14) by blast
qed

lemma wf_store_counters [simp]:
  "wf_store k (s\<lparr>os_visibility_transitions := v\<rparr>) = wf_store k s"
  "wf_store k (s\<lparr>os_confirmation_transitions := v\<rparr>) = wf_store k s"
  "wf_store k (s\<lparr>os_rejected := v\<rparr>) = wf_store k s"
  by (simp_all add: wf_store_def)

lemma wf_store_entry:
  assumes "wf_store k s" "os_entries_by_txid s txid = Some address"
  obtains entry where "map_of (os_entries s) address = Some entry" "(address, entry) \<in> set (os_entries s)" "txid_of entry = txid"
  using wf_storeD(2,4) [OF assms(1)] assms(2) by (metis map_of_eq_Some_iff)

lemma set_set_entry:
  assumes "distinct (map fst entries)" "map_of entries address = Some entry"
  shows "set (set_entry address entry' entries) = insert (address, entry') (set entries - {(address, entry)})"
    "map fst (set_entry address entry' entries) = map fst entries" "length (set_entry address entry' entries) = length entries"
proof -
  have unique: "q = (address, entry)" if "q \<in> set entries" "fst q = address" for q
    using that assms map_of_is_SomeI [OF assms(1), of address "snd q"] by (cases q) auto
  have mem: "(address, entry) \<in> set entries" by (rule map_of_SomeD [OF assms(2)])
  show "set (set_entry address entry' entries) = insert (address, entry') (set entries - {(address, entry)})"
  proof
    show "set (set_entry address entry' entries) \<subseteq> insert (address, entry') (set entries - {(address, entry)})"
      by (auto simp: set_entry_def)
    have "q \<in> set (set_entry address entry' entries)" if "q \<in> set entries" "q \<noteq> (address, entry)" for q
    proof -
      have "fst q \<noteq> address" using unique that by blast
      then show ?thesis using that(1) by (force simp: set_entry_def)
    qed
    moreover have "(address, entry') \<in> set (set_entry address entry' entries)"
      using mem by (force simp: set_entry_def)
    ultimately show "insert (address, entry') (set entries - {(address, entry)}) \<subseteq> set (set_entry address entry' entries)" by blast
  qed
  show "map fst (set_entry address entry' entries) = map fst entries" by (simp add: set_entry_def)
  show "length (set_entry address entry' entries) = length entries" by (simp add: set_entry_def)
qed

lemma wf_set_entry:
  assumes wf: "wf_store k s" and e: "map_of (os_entries s) address = Some entry"
    and ok: "entry_ok entry'" "txid_of entry' = txid_of entry"
  shows "wf_store k (s\<lparr>os_entries := set_entry address entry' (os_entries s)\<rparr>)"
proof -
  note W = wf_storeD [OF wf] and S = set_set_entry [OF wf_storeD(2) [OF wf] e, of entry']
  have mem: "(address, entry) \<in> set (os_entries s)" by (rule map_of_SomeD [OF e])
  have index: "os_entries_by_txid s txid = Some a \<longleftrightarrow>
      (\<exists>f. (a, f) \<in> insert (address, entry') (set (os_entries s) - {(address, entry)}) \<and> txid_of f = txid)" (is "_ \<longleftrightarrow> ?R") for txid a
  proof
    assume "os_entries_by_txid s txid = Some a"
    then obtain f where f: "(a, f) \<in> set (os_entries s)" "txid_of f = txid" using W(4) by blast
    show ?R
    proof (cases "(a, f) = (address, entry)")
      case True
      then show ?thesis using f(2) ok(2) by (intro exI [of _ entry']) simp
    next
      case False
      then show ?thesis using f by (intro exI [of _ f]) simp
    qed
  next
    assume ?R
    then obtain f where f: "(a, f) = (address, entry') \<or> (a, f) \<in> set (os_entries s)" "txid_of f = txid" by auto
    then have "\<exists>f. (a, f) \<in> set (os_entries s) \<and> txid_of f = txid" using mem ok(2) by auto
    then show "os_entries_by_txid s txid = Some a" using W(4) by blast
  qed
  let ?s = "s\<lparr>os_entries := set_entry address entry' (os_entries s)\<rparr>"
  show ?thesis
  proof (rule wf_storeI)
    show "a < os_next_address ?s \<and> entry_ok f" if "(a, f) \<in> set (os_entries ?s)" for a f
    proof -
      have "(a, f) = (address, entry') \<or> (a, f) \<in> set (os_entries s)" using that S(1) by auto
      then show ?thesis using W(3) mem ok(1) by auto
    qed
    show "os_entries_by_txid ?s txid = Some a \<longleftrightarrow> (\<exists>f. (a, f) \<in> set (os_entries ?s) \<and> txid_of f = txid)" for txid a
      using index [of txid a] S(1) by simp
  qed (use W(1,2,5-14) S(2,3) in simp_all)
qed

lemma RememberRetired_same [simp]:
  "os_capacity (RememberRetired txid s) = os_capacity s" "os_next_address (RememberRetired txid s) = os_next_address s"
  "os_entries (RememberRetired txid s) = os_entries s" "os_entries_by_txid (RememberRetired txid s) = os_entries_by_txid s"
  "os_reserved (RememberRetired txid s) = os_reserved s" "os_maximum_active (RememberRetired txid s) = os_maximum_active s"
  "os_maximum_retained (RememberRetired txid s) = os_maximum_retained s" "os_tracked (RememberRetired txid s) = os_tracked s"
  "os_retired (RememberRetired txid s) = os_retired s" "os_cancelled (RememberRetired txid s) = os_cancelled s"
  by (simp_all add: RememberRetired_def Let_def)

text \<open>The remembered ids after one more: the oldest makes room when there are as many as the capacity.\<close>

lemma RememberRetired_recent:
  assumes "0 < os_capacity s" "length (os_recent_retired s) \<le> os_capacity s" "distinct (os_recent_retired s)"
    "set (os_recent_retired s) = os_recent_retired_index s" "txid \<notin> set (os_recent_retired s)"
  shows "length (os_recent_retired (RememberRetired txid s)) \<le> os_capacity s" "distinct (os_recent_retired (RememberRetired txid s))"
    "set (os_recent_retired (RememberRetired txid s)) = os_recent_retired_index (RememberRetired txid s)"
    "set (os_recent_retired (RememberRetired txid s)) \<subseteq> insert txid (set (os_recent_retired s))"
    "txid \<in> os_recent_retired_index (RememberRetired txid s)"
proof -
  show "length (os_recent_retired (RememberRetired txid s)) \<le> os_capacity s" "distinct (os_recent_retired (RememberRetired txid s))"
    "set (os_recent_retired (RememberRetired txid s)) = os_recent_retired_index (RememberRetired txid s)"
    "set (os_recent_retired (RememberRetired txid s)) \<subseteq> insert txid (set (os_recent_retired s))"
    "txid \<in> os_recent_retired_index (RememberRetired txid s)"
    using assms by (cases "os_recent_retired s"; auto simp: RememberRetired_def Let_def)+
qed

lemma length_filter_key:
  assumes "distinct (map fst entries)" "(address, entry) \<in> set entries"
  shows "length entries = Suc (length (filter (\<lambda>p. fst p \<noteq> address) entries))"
  using assms
proof (induction entries)
  case (Cons p entries)
  show ?case
  proof (cases "fst p = address")
    case True
    then have "address \<notin> fst ` set entries" using Cons.prems(1) by simp
    then have "\<forall>q\<in>set entries. fst q \<noteq> address" by blast
    then have "filter (\<lambda>p. fst p \<noteq> address) entries = entries" by (rule filter_True)
    then show ?thesis using True by simp
  next
    case False
    then show ?thesis using Cons.IH Cons.prems by auto
  qed
qed simp

lemma wf_erase:
  assumes wf: "wf_store k s" and e: "(address, entry) \<in> set (os_entries s)"
  shows "wf_store (Suc k) (EraseEntry address (txid_of entry) s)"
    "os_entries (EraseEntry address (txid_of entry) s) = filter (\<lambda>p. fst p \<noteq> address) (os_entries s)"
    "os_entries_by_txid (EraseEntry address (txid_of entry) s) = (os_entries_by_txid s)(txid_of entry := None)"
    "txid_of entry \<in> os_recent_retired_index (EraseEntry address (txid_of entry) s)"
proof -
  let ?s = "s\<lparr>os_entries_by_txid := (os_entries_by_txid s)(txid_of entry := None),
       os_entries := filter (\<lambda>p. fst p \<noteq> address) (os_entries s)\<rparr>"
  note W = wf_storeD [OF wf]
  have index: "os_entries_by_txid s (txid_of entry) = Some address" using W(4) e by blast
  then have fresh: "txid_of entry \<notin> set (os_recent_retired s)" using W(12) by force
  have R: "0 < os_capacity ?s" "length (os_recent_retired ?s) \<le> os_capacity ?s" "distinct (os_recent_retired ?s)"
    "set (os_recent_retired ?s) = os_recent_retired_index ?s" "txid_of entry \<notin> set (os_recent_retired ?s)"
    using W(1,9,10,11) fresh by simp_all
  note R = RememberRetired_recent [OF R]
  have unique: "a = address" if "(a, f) \<in> set (os_entries s)" "txid_of f = txid_of entry" for a f
    using that index W(4) by (metis option.inject)
  have unique': "f = entry" if "(address, f) \<in> set (os_entries s)" for f using that e W(2) by (metis eq_key_imp_eq_value)
  have i: "((os_entries_by_txid s)(txid_of entry := None)) txid = Some a \<longleftrightarrow>
      (\<exists>f. (a, f) \<in> set (filter (\<lambda>p. fst p \<noteq> address) (os_entries s)) \<and> txid_of f = txid)" for txid a
  proof (cases "txid = txid_of entry")
    case True
    then have "\<not> (\<exists>f. (a, f) \<in> set (filter (\<lambda>p. fst p \<noteq> address) (os_entries s)) \<and> txid_of f = txid)"
      using unique by fastforce
    then show ?thesis using True by simp
  next
    case False
    then have "(\<exists>f. (a, f) \<in> set (filter (\<lambda>p. fst p \<noteq> address) (os_entries s)) \<and> txid_of f = txid) \<longleftrightarrow>
        (\<exists>f. (a, f) \<in> set (os_entries s) \<and> txid_of f = txid)"
      using unique' by fastforce
    then show ?thesis using W(4) [of txid a] False by (simp only: fun_upd_apply if_False)
  qed
  have l: "length (os_entries s) = Suc (length (filter (\<lambda>p. fst p \<noteq> address) (os_entries s)))"
    by (rule length_filter_key [OF W(2) e])
  show "wf_store (Suc k) (EraseEntry address (txid_of entry) s)"
  proof (rule wf_storeI)
    show "os_entries_by_txid (EraseEntry address (txid_of entry) s) txid = Some a \<longleftrightarrow>
        (\<exists>f. (a, f) \<in> set (os_entries (EraseEntry address (txid_of entry) s)) \<and> txid_of f = txid)" for txid a
      using i [of txid a] by (simp add: EraseEntry_def)
    show "os_entries_by_txid (EraseEntry address (txid_of entry) s) txid = None"
      if "txid \<in> set (os_recent_retired (EraseEntry address (txid_of entry) s))" for txid
      using that R(4) W(12) by (auto simp: EraseEntry_def)
  qed (use W(1,3,5-8,13,14) W(2) R(1-3) l in \<open>auto simp: EraseEntry_def distinct_map_filter\<close>)
  show "os_entries (EraseEntry address (txid_of entry) s) = filter (\<lambda>p. fst p \<noteq> address) (os_entries s)"
    "os_entries_by_txid (EraseEntry address (txid_of entry) s) = (os_entries_by_txid s)(txid_of entry := None)"
    "txid_of entry \<in> os_recent_retired_index (EraseEntry address (txid_of entry) s)"
    using R(5) by (simp_all add: EraseEntry_def)
qed

subsection \<open>Every operation keeps the store well formed\<close>

lemma map_of_set_entry:
  assumes "map_of entries address = Some entry"
  shows "map_of (set_entry address entry' entries) address = Some entry'"
  using assms by (induction entries) (auto simp: set_entry_def)

lemma map_of_set_entry_other: "a \<noteq> address \<Longrightarrow> map_of (set_entry address entry' entries) a = map_of entries a"
  by (induction entries) (auto simp: set_entry_def)

lemma MarkVisible_wf:
  assumes wf: "wf_store k s" and e: "map_of (os_entries s) address = Some entry" and n: "node_id \<in> en_required_node_ids entry"
    and r: "MarkVisible address node_id entry s = (s', r)"
  shows "wf_store k s'" "r = Inr (entry', first) \<Longrightarrow> map_of (os_entries s') address = Some entry' \<and>
    entry' = entry\<lparr>en_visible_node_ids := insert node_id (en_visible_node_ids entry)\<rparr> \<and> first = (node_id \<notin> en_visible_node_ids entry)"
proof -
  let ?e = "entry\<lparr>en_visible_node_ids := insert node_id (en_visible_node_ids entry)\<rparr>"
  let ?s = "s\<lparr>os_entries := set_entry address ?e (os_entries s)\<rparr>"
  have "entry_ok entry" using wf_storeD(3) [OF wf map_of_SomeD [OF e]] by blast
  then have "entry_ok ?e" using n by (auto simp: entry_ok_def)
  then have "wf_store k ?s" by (rule wf_set_entry [OF wf e]) simp
  then show "wf_store k s'" using r by (auto simp: MarkVisible_def Let_def split: if_splits sum.splits)
  show "map_of (os_entries s') address = Some entry' \<and> entry' = ?e \<and> first = (node_id \<notin> en_visible_node_ids entry)"
    if "r = Inr (entry', first)"
    using r that map_of_set_entry [OF e, of ?e] by (auto simp: MarkVisible_def Let_def split: if_splits sum.splits)
qed

lemma MarkConfirmed_wf:
  assumes wf: "wf_store k s" and e: "map_of (os_entries s) address = Some entry" and n: "node_id \<in> en_visible_node_ids entry"
    and r: "MarkConfirmed address node_id entry s = (s', r)"
  shows "wf_store k s'" "r = Inr (entry', first) \<Longrightarrow> map_of (os_entries s') address = Some entry' \<and>
    entry' = entry\<lparr>en_confirmed_node_ids := insert node_id (en_confirmed_node_ids entry)\<rparr> \<and> first = (node_id \<notin> en_confirmed_node_ids entry)"
proof -
  let ?e = "entry\<lparr>en_confirmed_node_ids := insert node_id (en_confirmed_node_ids entry)\<rparr>"
  let ?s = "s\<lparr>os_entries := set_entry address ?e (os_entries s)\<rparr>"
  have "entry_ok entry" using wf_storeD(3) [OF wf map_of_SomeD [OF e]] by blast
  then have "entry_ok ?e" using n by (auto simp: entry_ok_def)
  then have "wf_store k ?s" by (rule wf_set_entry [OF wf e]) simp
  then show "wf_store k s'" using r by (auto simp: MarkConfirmed_def Let_def split: if_splits sum.splits)
  show "map_of (os_entries s') address = Some entry' \<and> entry' = ?e \<and> first = (node_id \<notin> en_confirmed_node_ids entry)"
    if "r = Inr (entry', first)"
    using r that map_of_set_entry [OF e, of ?e] by (auto simp: MarkConfirmed_def Let_def split: if_splits sum.splits)
qed

text \<open>What has left the entries can be counted: the counts never overflow.\<close>

lemma CheckedAdd_fits: "unat v + unat n < 2 ^ 64 \<Longrightarrow> CheckedAdd n field_name v = Inr (v + n)"
  by (simp add: CheckedAdd_def u64_add_guard)

lemma wf_count_retired:
  assumes "wf_store (Suc 0) s"
  shows "CheckedAdd 1 ''retired count'' (os_retired s) = Inr (os_retired s + 1)" "wf_store 0 (s\<lparr>os_retired := os_retired s + 1\<rparr>)"
proof -
  have le: "unat (os_retired s) + 1 \<le> unat (os_tracked s)" using wf_storeD(13) [OF assms] by simp
  then have lt: "unat (os_retired s) + unat (1 :: u64) < 2 ^ 64"
    using u64_lt [of "os_tracked s"] unfolding two_to_64 unat_1 by linarith
  show "CheckedAdd 1 ''retired count'' (os_retired s) = Inr (os_retired s + 1)" by (rule CheckedAdd_fits [OF lt])
  have "unat (os_retired s + 1) = unat (os_retired s) + 1" using u64_add_exact [of "os_retired s" 1] lt by simp
  then show "wf_store 0 (s\<lparr>os_retired := os_retired s + 1\<rparr>)" using assms by (simp add: wf_store_def)
qed

lemma wf_count_cancelled:
  assumes "wf_store n s"
  shows "CheckedAdd (word_of_nat n) ''cancelled count'' (os_cancelled s) = Inr (os_cancelled s + word_of_nat n)"
    "wf_store 0 (s\<lparr>os_cancelled := os_cancelled s + word_of_nat n\<rparr>)"
proof -
  have le: "unat (os_cancelled s) + n \<le> unat (os_tracked s)" using wf_storeD(13) [OF assms] by simp
  have "n < 2 ^ 64" using le u64_lt [of "os_tracked s"] unfolding two_to_64 by linarith
  then have n: "unat (word_of_nat n :: u64) = n" by (simp add: unat_of_nat)
  have lt: "unat (os_cancelled s) + unat (word_of_nat n :: u64) < 2 ^ 64"
    using le u64_lt [of "os_tracked s"] unfolding n two_to_64 by linarith
  show "CheckedAdd (word_of_nat n) ''cancelled count'' (os_cancelled s) = Inr (os_cancelled s + word_of_nat n)"
    by (rule CheckedAdd_fits [OF lt])
  have "unat (os_cancelled s + word_of_nat n) = unat (os_cancelled s) + n"
    using u64_add_exact [of "os_cancelled s" "word_of_nat n"] lt n by simp
  then show "wf_store 0 (s\<lparr>os_cancelled := os_cancelled s + word_of_nat n\<rparr>)" using assms by (simp add: wf_store_def)
qed

lemma RetireConfirmed_wf:
  assumes wf: "wf_store 0 s" and e: "map_of (os_entries s) address = Some entry"
  shows "\<exists>s'. RetireConfirmed address entry s = (s', Inr (card (en_confirmed_node_ids entry) = card (en_required_node_ids entry))) \<and>
    wf_store 0 s' \<and> (if card (en_confirmed_node_ids entry) = card (en_required_node_ids entry)
      then os_entries s' = filter (\<lambda>p. fst p \<noteq> address) (os_entries s) \<and>
        os_entries_by_txid s' = (os_entries_by_txid s)(txid_of entry := None) \<and> txid_of entry \<in> os_recent_retired_index s'
      else s' = s)"
proof (cases "card (en_confirmed_node_ids entry) = card (en_required_node_ids entry)")
  case True
  let ?s = "EraseEntry address (txid_of entry) s"
  note E = wf_erase [OF wf map_of_SomeD [OF e]]
  note C = wf_count_retired [OF E(1)]
  have "RetireConfirmed address entry s = (?s\<lparr>os_retired := os_retired ?s + 1\<rparr>, Inr True)"
    using True C(1) by (simp add: RetireConfirmed_def Let_def)
  then show ?thesis using True C(2) E(2-4) by simp
qed (use wf in \<open>simp add: RetireConfirmed_def\<close>)

lemma MarkVisible_failure: "MarkVisible address node_id entry s = (s', Inl e) \<Longrightarrow> \<exists>m. e = RuntimeError m"
  by (auto simp: MarkVisible_def CheckedAdd_def Let_def split: if_splits)

lemma ConfirmIf_wf:
  assumes wf: "wf_store k s" and e: "map_of (os_entries s) address = Some entry" and n: "node_id \<in> en_visible_node_ids entry"
    and r: "ConfirmIf confirmed address node_id entry s = (s', r)"
  shows "wf_store k s'" "r = Inr (entry', first) \<Longrightarrow> map_of (os_entries s') address = Some entry' \<and>
      entry' = (if confirmed then entry\<lparr>en_confirmed_node_ids := insert node_id (en_confirmed_node_ids entry)\<rparr> else entry) \<and>
      first = (confirmed \<and> node_id \<notin> en_confirmed_node_ids entry)"
    "r = Inl x \<Longrightarrow> \<exists>m. x = RuntimeError m"
proof -
  have "wf_store k s'" if confirmed
    using MarkConfirmed_wf(1) [OF wf e n] r that by (simp add: ConfirmIf_def)
  moreover have "wf_store k s'" if "\<not> confirmed" using wf r that by (simp add: ConfirmIf_def)
  ultimately show "wf_store k s'" by blast
  show "map_of (os_entries s') address = Some entry' \<and>
      entry' = (if confirmed then entry\<lparr>en_confirmed_node_ids := insert node_id (en_confirmed_node_ids entry)\<rparr> else entry) \<and>
      first = (confirmed \<and> node_id \<notin> en_confirmed_node_ids entry)" if "r = Inr (entry', first)"
  proof (cases confirmed)
    case True
    then have "MarkConfirmed address node_id entry s = (s', r)" using r by (simp add: ConfirmIf_def)
    from MarkConfirmed_wf(2) [OF wf e n this that] True show ?thesis by simp
  next
    case False
    then show ?thesis using r e that by (simp add: ConfirmIf_def)
  qed
  show "\<exists>m. x = RuntimeError m" if "r = Inl x"
    using r that by (auto simp: ConfirmIf_def MarkConfirmed_def CheckedAdd_def Let_def split: if_splits)
qed

lemma RecordFound_wf:
  assumes wf: "wf_store 0 s" and e: "map_of (os_entries s) address = Some entry" and n: "node_id \<in> en_required_node_ids entry"
    and r: "RecordFound address node_id confirmed entry s = (s', r)"
  shows "wf_store 0 s' \<and> (\<forall>x. r = Inl x \<longrightarrow> (\<exists>m. x = RuntimeError m))"
proof -
  obtain s1 r1 where v: "MarkVisible address node_id entry s = (s1, r1)" by fastforce
  note V = MarkVisible_wf [OF wf e n v]
  show ?thesis
  proof (cases r1)
    case (Inl x)
    then have "s' = s1" "r = Inl x" using r v by (simp_all add: RecordFound_def)
    then show ?thesis using V(1) MarkVisible_failure v Inl by blast
  next
    case (Inr ef)
    obtain entry1 first1 where 1: "r1 = Inr (entry1, first1)" using Inr by (cases ef) simp
    note V2 = V(2) [OF 1]
    obtain s2 r2 where c: "ConfirmIf confirmed address node_id entry1 s1 = (s2, r2)" by fastforce
    have "node_id \<in> en_visible_node_ids entry1" using V2 by simp
    note C = ConfirmIf_wf [OF V(1) conjunct1 [OF V2] this c]
    show ?thesis
    proof (cases r2)
      case (Inl x)
      then have "s' = s2" "r = Inl x" using r v 1 c by (simp_all add: RecordFound_def)
      then show ?thesis using C(1,3) Inl by blast
    next
      case (Inr ef)
      obtain entry2 first2 where 2: "r2 = Inr (entry2, first2)" using Inr by (cases ef) simp
      obtain s3 retired where t: "RetireConfirmed address entry2 s2 = (s3, Inr retired)" "wf_store 0 s3"
        using RetireConfirmed_wf [OF C(1) conjunct1 [OF C(2) [OF 2]]] by blast
      have "s' = s3" "isl r = False" using r v 1 c 2 t(1) by (auto simp: RecordFound_def)
      then show ?thesis using t(2) by auto
    qed
  qed
qed

lemma RecordEntry_wf:
  assumes wf: "wf_store 0 s" and r: "RecordEntry txid node_id confirmed s = (s', r)"
  shows "wf_store 0 s' \<and> (\<forall>x. r = Inl x \<longrightarrow> (\<exists>m. x = RuntimeError m))"
proof (cases "os_entries_by_txid s txid")
  case None
  then have "s' = s" "r = Inr (no_transition, None)" using r by (simp_all add: RecordEntry_def)
  then show ?thesis using wf by simp
next
  case (Some address)
  obtain entry where e: "map_of (os_entries s) address = Some entry" using wf_store_entry [OF wf Some] by blast
  show ?thesis
  proof (cases "node_id \<in> en_required_node_ids entry")
    case False
    then have "s' = s" "r = Inl (RuntimeError (''transaction observation used unexpected node: '' @ node_id))"
      using r Some e by (simp_all add: RecordEntry_def)
    then show ?thesis using wf by simp
  next
    case True
    then show ?thesis using r Some e by (intro RecordFound_wf [OF wf e True]) (simp add: RecordEntry_def)
  qed
qed

subsection \<open>Tracking and cancelling\<close>

definition staged_ok :: "nat \<Rightarrow> nat \<Rightarrow> staged_entries \<Rightarrow> bool" where
  "staged_ok base n = (\<lambda>(staged, by_txid, next_address).
     length staged = n \<and> base \<le> next_address \<and> distinct (map fst staged) \<and>
     (\<forall>p\<in>set staged. base \<le> fst p \<and> fst p < next_address \<and> entry_ok (snd p)) \<and>
     (\<forall>txid address. by_txid txid = Some address \<longleftrightarrow> (\<exists>entry. (address, entry) \<in> set staged \<and> txid_of entry = txid)))"

lemma StageTransaction_ok:
  assumes ok: "staged_ok base n (staged, by_txid, next_address)" and required: "finite required" "required \<noteq> {}"
    and r: "StageTransaction required transaction (staged, by_txid, next_address) = Inr result"
  shows "staged_ok base (Suc n) result"
proof -
  let ?e = "\<lparr>en_transaction = transaction, en_required_node_ids = required, en_visible_node_ids = {}, en_confirmed_node_ids = {}\<rparr>"
  have result: "result = (staged @ [(next_address, ?e)], by_txid(tt_txid transaction \<mapsto> next_address), next_address + 1)"
    and fresh: "by_txid (tt_txid transaction) = None"
    using r by (auto simp: StageTransaction_def split: if_splits)
  have S: "length staged = n" "base \<le> next_address" "distinct (map fst staged)"
    "\<And>p. p \<in> set staged \<Longrightarrow> base \<le> fst p \<and> fst p < next_address \<and> entry_ok (snd p)"
    "\<And>txid address. by_txid txid = Some address \<longleftrightarrow> (\<exists>entry. (address, entry) \<in> set staged \<and> txid_of entry = txid)"
    using ok by (simp_all add: staged_ok_def)
  have "next_address \<notin> fst ` set staged" using S(4) by fastforce
  moreover have "entry_ok ?e" using required by (simp add: entry_ok_def)
  moreover have "(by_txid(tt_txid transaction \<mapsto> next_address)) txid = Some a \<longleftrightarrow>
      (\<exists>entry. (a, entry) \<in> set (staged @ [(next_address, ?e)]) \<and> txid_of entry = txid)" for txid a
  proof (cases "txid = tt_txid transaction")
    case True
    then have none: "\<not> (\<exists>entry. (a, entry) \<in> set staged \<and> txid_of entry = txid)" using S(5) [of txid a] fresh by simp
    show ?thesis
    proof
      assume "(by_txid(tt_txid transaction \<mapsto> next_address)) txid = Some a"
      then have "(a, ?e) \<in> set (staged @ [(next_address, ?e)]) \<and> txid_of ?e = txid" using True by simp
      then show "\<exists>entry. (a, entry) \<in> set (staged @ [(next_address, ?e)]) \<and> txid_of entry = txid" by blast
    next
      assume "\<exists>entry. (a, entry) \<in> set (staged @ [(next_address, ?e)]) \<and> txid_of entry = txid"
      then have "a = next_address" using none by auto
      then show "(by_txid(tt_txid transaction \<mapsto> next_address)) txid = Some a" using True by simp
    qed
  next
    case False
    then have "(\<exists>entry. (a, entry) \<in> set (staged @ [(next_address, ?e)]) \<and> txid_of entry = txid) \<longleftrightarrow>
        (\<exists>entry. (a, entry) \<in> set staged \<and> txid_of entry = txid)" by auto
    then show ?thesis using S(5) [of txid a] False by (simp only: fun_upd_apply if_False)
  qed
  ultimately show ?thesis unfolding result staged_ok_def using S(1-4) by fastforce
qed

lemma Stage_transactions_ok:
  assumes "fold_result (StageTransaction required) transactions staged = Inr result"
    and "staged_ok base n staged" "finite required" "required \<noteq> {}"
  shows "staged_ok base (n + length transactions) result"
  using assms(1,2)
proof (induction transactions arbitrary: staged n)
  case (Cons transaction transactions)
  obtain staged1 where s: "StageTransaction required transaction staged = Inr staged1"
    "fold_result (StageTransaction required) transactions staged1 = Inr result"
    using Cons.prems(1) by (auto simp: result_simps)
  obtain a b c where abc: "staged = (a, b, c)" by (cases staged)
  have "staged_ok base (Suc n) staged1"
    using StageTransaction_ok [OF Cons.prems(2) [unfolded abc] assms(3,4)] s(1) abc by simp
  from Cons.IH [OF s(2) this] show ?case by simp
qed simp

lemma merged_index:
  assumes "\<And>txid a. m txid = Some a \<longleftrightarrow> (\<exists>e. (a, e) \<in> A \<and> txid_of e = txid)"
    "\<And>txid a. m' txid = Some a \<longleftrightarrow> (\<exists>e. (a, e) \<in> B \<and> txid_of e = txid)"
    "\<And>txid. m' txid \<noteq> None \<Longrightarrow> m txid = None"
  shows "(m ++ m') txid = Some a \<longleftrightarrow> (\<exists>e. (a, e) \<in> A \<union> B \<and> txid_of e = txid)"
proof -
  have union: "(\<exists>e. (a, e) \<in> A \<union> B \<and> txid_of e = txid) \<longleftrightarrow> m txid = Some a \<or> m' txid = Some a"
    unfolding assms(1,2) by blast
  show ?thesis
  proof (cases "m' txid")
    case None
    then show ?thesis unfolding union by (simp add: map_add_def)
  next
    case (Some b)
    then have "m txid = None" using assms(3) by simp
    then show ?thesis unfolding union using Some by (simp add: map_add_def)
  qed
qed

definition duplicates :: "Entries \<Rightarrow> TransactionObservationStore \<Rightarrow> string list" where
  "duplicates entries s = filter (\<lambda>txid. os_entries_by_txid s txid \<noteq> None \<or> txid \<in> os_recent_retired_index s)
     (map (\<lambda>p. txid_of (snd p)) entries)"

lemma PublishStaged_eq:
  "PublishStaged reservation (entries, by_txid, next_address) s =
     (if or_size reservation > os_reserved s
      then ((s, reservation), Inl (RuntimeError ''transaction observation reservation is not active''))
      else case duplicates entries s of
        txid # _ \<Rightarrow> ((s, reservation), Inl (RuntimeError (''duplicate submitted transaction id: '' @ txid)))
      | [] \<Rightarrow>
        (case CheckedAdd (word_of_nat (length entries)) ''tracked count'' (os_tracked s) of
           Inl e \<Rightarrow> ((s, reservation), Inl e)
         | Inr tracked \<Rightarrow>
           ((s\<lparr>os_tracked := tracked, os_entries_by_txid := os_entries_by_txid s ++ by_txid,
               os_entries := os_entries s @ entries, os_next_address := next_address,
               os_reserved := os_reserved s - or_size reservation,
               os_maximum_active := max (os_maximum_active s) (length (os_entries s @ entries))\<rparr>, inactive), Inr ())))"
  unfolding PublishStaged_def duplicates_def Let_def case_prod_conv ..

lemma PublishStaged_cases:
  obtains (refused) m where "PublishStaged reservation (entries, by_txid, next_address) s = ((s, reservation), Inl (RuntimeError m))"
    | (published) tracked where "or_size reservation \<le> os_reserved s" "duplicates entries s = []"
      "CheckedAdd (word_of_nat (length entries)) ''tracked count'' (os_tracked s) = Inr tracked"
      "PublishStaged reservation (entries, by_txid, next_address) s =
        ((s\<lparr>os_tracked := tracked, os_entries_by_txid := os_entries_by_txid s ++ by_txid, os_entries := os_entries s @ entries,
          os_next_address := next_address, os_reserved := os_reserved s - or_size reservation,
          os_maximum_active := max (os_maximum_active s) (length (os_entries s @ entries))\<rparr>, inactive), Inr ())"
proof (cases "or_size reservation > os_reserved s")
  case True
  then show thesis using refused by (simp add: PublishStaged_eq)
next
  case False
  show thesis
  proof (cases "duplicates entries s")
    case (Cons txid rest)
    then show thesis using refused False by (simp add: PublishStaged_eq)
  next
    case Nil
    show thesis
    proof (cases "CheckedAdd (word_of_nat (length entries)) ''tracked count'' (os_tracked s)")
      case (Inl e)
      then have "\<exists>m. e = RuntimeError m" by (auto simp: CheckedAdd_def split: if_splits)
      then show thesis using refused False Nil Inl by (auto simp: PublishStaged_eq)
    next
      case (Inr tracked)
      then show thesis using published [of tracked] False Nil by (simp add: PublishStaged_eq)
    qed
  qed
qed

lemma PublishStaged_wf:
  assumes wf: "wf_store 0 s" and staged: "staged_ok (os_next_address s) (or_size reservation) staged"
    and r: "PublishStaged reservation staged s = ((s', reservation'), r)"
  shows "wf_store 0 s' \<and> (\<forall>x. r = Inl x \<longrightarrow> (\<exists>m. x = RuntimeError m)) \<and>
    (if r = Inr () then reservation' = inactive \<and> or_size reservation \<le> os_reserved s \<and> os_reserved s' = os_reserved s - or_size reservation
     else reservation' = reservation \<and> s' = s)"
proof -
  obtain entries by_txid next_address where st: "staged = (entries, by_txid, next_address)" by (cases staged)
  note W = wf_storeD [OF wf]
  have S: "length entries = or_size reservation" "os_next_address s \<le> next_address" "distinct (map fst entries)"
    "\<And>p. p \<in> set entries \<Longrightarrow> os_next_address s \<le> fst p \<and> fst p < next_address \<and> entry_ok (snd p)"
    "\<And>txid address. by_txid txid = Some address \<longleftrightarrow> (\<exists>entry. (address, entry) \<in> set entries \<and> txid_of entry = txid)"
    using staged unfolding st by (simp_all add: staged_ok_def)
  show ?thesis
  proof (cases rule: PublishStaged_cases [of reservation entries by_txid next_address s])
    case (refused m)
    then show ?thesis using r wf unfolding st by simp
  next
    case (published tracked)
    note le = published(1) and dup = published(2) and t = published(3)
    have s': "s' = s\<lparr>os_tracked := tracked, os_entries_by_txid := os_entries_by_txid s ++ by_txid, os_entries := os_entries s @ entries,
        os_next_address := next_address, os_reserved := os_reserved s - or_size reservation,
        os_maximum_active := max (os_maximum_active s) (length (os_entries s @ entries))\<rparr>" "reservation' = inactive" "r = Inr ()"
      using r published(4) unfolding st by simp_all
    have fresh: "os_entries_by_txid s txid = None \<and> txid \<notin> os_recent_retired_index s" if some: "by_txid txid \<noteq> None" for txid
    proof -
      obtain a e where "(a, e) \<in> set entries" "txid_of e = txid" using some S(5) by blast
      then have "txid \<in> set (map (\<lambda>p. txid_of (snd p)) entries)" by force
      then show ?thesis using dup unfolding duplicates_def filter_empty_conv by blast
    qed
    have index: "(os_entries_by_txid s ++ by_txid) txid = Some a \<longleftrightarrow>
        (\<exists>e. (a, e) \<in> set (os_entries s) \<union> set entries \<and> txid_of e = txid)" for txid a
      by (rule merged_index [OF W(4) S(5)]) (use fresh in blast)
    have room: "length (os_entries s) + length entries \<le> os_capacity s" using S(1) le W(5,6) by linarith
    then have "length entries < 2 ^ 64" using W(14) by linarith
    then have n: "unat (word_of_nat (length entries) :: u64) = length entries" by (simp add: unat_of_nat)
    have tracked: "unat tracked = unat (os_tracked s) + length entries"
      using t n u64_add_exact [of "os_tracked s" "word_of_nat (length entries)"]
      by (auto simp: CheckedAdd_def u64_add_guard split: if_splits)
    have "wf_store 0 s'"
    proof (rule wf_storeI)
      show "os_entries_by_txid s' txid = Some a \<longleftrightarrow> (\<exists>e. (a, e) \<in> set (os_entries s') \<and> txid_of e = txid)" for txid a
        using index [of txid a] by (simp add: s'(1))
      show "a < os_next_address s' \<and> entry_ok e" if "(a, e) \<in> set (os_entries s')" for a e
      proof -
        have "(a, e) \<in> set (os_entries s) \<or> (a, e) \<in> set entries" using that by (auto simp: s'(1))
        then show ?thesis using W(3) [of a e] S(2) S(4) [of "(a, e)"] by (auto simp: s'(1))
      qed
      show "distinct (map fst (os_entries s'))" using W(2,3) S(3,4) by (fastforce simp: s'(1))
      show "os_entries_by_txid s' txid = None" if "txid \<in> set (os_recent_retired s')" for txid
      proof -
        have "txid \<in> set (os_recent_retired s)" using that by (simp add: s'(1))
        then show ?thesis using W(11,12) fresh by (cases "by_txid txid") (auto simp: s'(1) map_add_def)
      qed
    qed (use W(1,5-11,13,14) room tracked le S(1) in \<open>simp_all add: s'(1)\<close>)
    then show ?thesis using s' le by simp
  qed
qed

text \<open>What an attempt to commit a reservation leaves: all or nothing.\<close>

definition committed ::
    "TransactionObservationStore \<Rightarrow> ObservationReservation \<Rightarrow> TransactionObservationStore \<Rightarrow> ObservationReservation \<Rightarrow> unit result \<Rightarrow> bool" where
  "committed s reservation s' reservation' r \<longleftrightarrow> wf_store 0 s' \<and> (\<forall>x. r = Inl x \<longrightarrow> (\<exists>m. x = RuntimeError m)) \<and>
    (if r = Inr () then reservation' = inactive \<and> or_size reservation \<le> os_reserved s \<and> os_reserved s' = os_reserved s - or_size reservation
     else reservation' = reservation \<and> s' = s)"

lemma committed_unchanged: "wf_store 0 s \<Longrightarrow> committed s reservation s reservation (Inl (RuntimeError m))"
  by (simp add: committed_def)

lemma Stage_failure:
  "bind_result (CheckRequired required_node_ids) (\<lambda>_. fold_result (StageTransaction required) transactions staged) = Inl e \<Longrightarrow>
    \<exists>m. e = RuntimeError m"
proof -
  have "fold_result (StageTransaction required) transactions staged = Inl e \<Longrightarrow> \<exists>m. e = RuntimeError m"
    by (induction transactions arbitrary: staged)
      (auto simp: result_simps StageTransaction_def split: prod.splits if_splits)
  moreover have "CheckRequired required_node_ids = Inl e \<Longrightarrow> \<exists>m. e = RuntimeError m"
    by (auto simp: CheckRequired_def require_def result_simps split: if_splits)
  ultimately show "bind_result (CheckRequired required_node_ids) (\<lambda>_. fold_result (StageTransaction required) transactions staged) = Inl e \<Longrightarrow>
    \<exists>m. e = RuntimeError m" by (auto simp: result_simps)
qed

lemma Commit_wf:
  assumes wf: "wf_store 0 s" and r: "Commit transactions required_node_ids reservation s = ((s', reservation'), r)"
  shows "committed s reservation s' reservation' r \<and> (r = Inr () \<longrightarrow> or_active reservation)"
proof (cases "\<not> or_active reservation \<or> transactions = [] \<or> length transactions \<noteq> or_size reservation")
  case True
  then have "s' = s" "reservation' = reservation" "\<exists>m. r = Inl (RuntimeError m)"
    using r by (auto simp: Commit_def CommitReservation_def split: if_splits)
  then show ?thesis using committed_unchanged [OF wf] by auto
next
  case False
  let ?staged = "bind_result (CheckRequired required_node_ids) (\<lambda>_.
    fold_result (StageTransaction (set required_node_ids)) transactions ([], Map.empty, os_next_address s))"
  have commit: "((s', reservation'), r) = (case ?staged of Inl e \<Rightarrow> ((s, reservation), Inl e)
      | Inr staged \<Rightarrow> PublishStaged reservation staged s)"
    using r False by (simp add: Commit_def CommitReservation_def)
  show ?thesis
  proof (cases ?staged)
    case (Inl e)
    then obtain m where "e = RuntimeError m" using Stage_failure by blast
    then show ?thesis using commit Inl committed_unchanged [OF wf] by simp
  next
    case (Inr staged)
    then have "required_node_ids \<noteq> []"
      and fold: "fold_result (StageTransaction (set required_node_ids)) transactions ([], Map.empty, os_next_address s) = Inr staged"
      by (auto simp: result_simps CheckRequired_def require_def split: if_splits)
    moreover have "staged_ok (os_next_address s) 0 ([], Map.empty, os_next_address s)" by (simp add: staged_ok_def)
    ultimately have "staged_ok (os_next_address s) (0 + length transactions) staged"
      using Stage_transactions_ok [OF fold] by blast
    then have ok: "staged_ok (os_next_address s) (or_size reservation) staged" using False by simp
    have "PublishStaged reservation staged s = ((s', reservation'), r)" using commit Inr by simp
    from PublishStaged_wf [OF wf ok this] show ?thesis using False by (simp add: committed_def)
  qed
qed

lemma TryReserve_wf:
  assumes wf: "wf_store 0 s" and r: "TryReserve n s = (s', r)"
  shows "wf_store 0 s' \<and> (\<forall>x. r = Inl x \<longrightarrow> (\<exists>m. x = RuntimeError m)) \<and>
    (case r of Inr (Some reservation) \<Rightarrow> reservation = \<lparr>or_active = True, or_size = n\<rparr> \<and> os_reserved s' = os_reserved s + n
     | _ \<Rightarrow> os_reserved s' = os_reserved s)"
proof (cases "n = 0 \<or> n > os_capacity s \<or> n > os_capacity s - (length (os_entries s) + os_reserved s)")
  case True
  then show ?thesis using r wf by (auto simp: TryReserve_def CheckedAdd_def Let_def split: if_splits)
next
  case False
  let ?s = "s\<lparr>os_reserved := os_reserved s + n,
    os_maximum_retained := max (os_maximum_retained s) (length (os_entries s) + os_reserved s + n)\<rparr>"
  have "length (os_entries s) + os_reserved s + n \<le> os_capacity s" using False wf_storeD(5,6) [OF wf] by linarith
  then have "wf_store 0 ?s" using wf by (simp add: wf_store_def)
  moreover have "s' = ?s" "r = Inr (Some \<lparr>or_active = True, or_size = n\<rparr>)" using r False by (simp_all add: TryReserve_def Let_def)
  ultimately show ?thesis by simp
qed

lemma Release_wf:
  assumes wf: "wf_store 0 s" and "or_active reservation \<longrightarrow> or_size reservation \<le> os_reserved s"
  shows "\<exists>s' reservation'. Release reservation s = Inr (s', reservation') \<and> wf_store 0 s' \<and> \<not> or_active reservation' \<and>
    os_reserved s' = os_reserved s - (if or_active reservation then or_size reservation else 0)"
proof (cases "or_active reservation")
  case True
  have "length (os_entries s) + (os_reserved s - or_size reservation) \<le> os_maximum_retained s"
    using wf_storeD(5) [OF wf] by linarith
  then have "wf_store 0 (s\<lparr>os_reserved := os_reserved s - or_size reservation\<rparr>)" using wf by (simp add: wf_store_def)
  then show ?thesis using True assms(2) by (simp add: Release_def ReleaseReservation_def inactive_def)
qed (use wf in \<open>simp add: Release_def\<close>)

lemma TrackSet_wf:
  assumes wf: "wf_store 0 s" and r: "TrackSet transactions required_node_ids s = (s', r)"
  shows "wf_store 0 s' \<and> (\<forall>x. r = Inl x \<longrightarrow> (\<exists>m. x = RuntimeError m)) \<and> os_reserved s' = os_reserved s"
proof -
  obtain s1 r1 where t: "TryReserve (length transactions) s = (s1, r1)" by fastforce
  note T = TryReserve_wf [OF wf t]
  show ?thesis
  proof (cases "\<exists>reservation. r1 = Inr (Some reservation)")
    case False
    then have "s' = s1" "\<exists>m. r = Inl (RuntimeError m)"
      using r t T by (auto simp: TrackSet_def Reserve_def split: sum.splits option.splits)
    then show ?thesis using T False by (auto split: sum.splits option.splits)
  next
    case True
    then obtain reservation where 1: "r1 = Inr (Some reservation)" by blast
    have R: "reservation = \<lparr>or_active = True, or_size = length transactions\<rparr>" "os_reserved s1 = os_reserved s + length transactions"
      "wf_store 0 s1" using T 1 by simp_all
    obtain s2 reservation2 r2 where c: "Commit transactions required_node_ids reservation s1 = ((s2, reservation2), r2)" by (metis prod.exhaust)
    note C = Commit_wf [OF R(3) c, unfolded committed_def]
    have "or_active reservation2 \<longrightarrow> or_size reservation2 \<le> os_reserved s2"
      using C R by (cases "r2 = Inr ()") (auto simp: inactive_def)
    then obtain s3 reservation3 where rel: "Release reservation2 s2 = Inr (s3, reservation3)" "wf_store 0 s3"
      "os_reserved s3 = os_reserved s2 - (if or_active reservation2 then or_size reservation2 else 0)"
      using Release_wf [of s2 reservation2] C by blast
    have "s' = s3" "r = r2" using r t 1 c rel(1) by (simp_all add: TrackSet_def Reserve_def)
    then show ?thesis using rel(2,3) C R by (cases "r2 = Inr ()") (auto simp: inactive_def)
  qed
qed

lemma EraseEntry_reserved [simp]: "os_reserved (EraseEntry a txid s) = os_reserved s"
  by (simp add: EraseEntry_def)

lemma Cancel_all:
  assumes "wf_store k s" "distinct (map fst ps)" "set ps \<subseteq> set (os_entries s)"
  shows "\<exists>s' n. fold (CancelEntry workload_id) ps (s, k) = (s', n) \<and> wf_store n s' \<and> os_reserved s' = os_reserved s"
  using assms
proof (induction ps arbitrary: k s)
  case (Cons p ps)
  obtain a e where p: "p = (a, e)" by (cases p)
  show ?case
  proof (cases "tt_workload_id (en_transaction e) = workload_id")
    case False
    then show ?thesis using Cons.IH [OF Cons.prems(1)] Cons.prems(2,3) by (simp add: CancelEntry_def p)
  next
    case True
    have mem: "(a, e) \<in> set (os_entries s)" using Cons.prems(3) p by simp
    note E = wf_erase [OF Cons.prems(1) mem]
    have "a \<notin> fst ` set ps" using Cons.prems(2) p by simp
    then have "\<forall>q\<in>set ps. fst q \<noteq> a" by blast
    then have "set ps \<subseteq> set (os_entries (EraseEntry a (txid_of e) s))" using Cons.prems(3) unfolding E(2) by auto
    from Cons.IH [OF E(1) _ this] Cons.prems(2) True show ?thesis by (simp add: CancelEntry_def p)
  qed
qed auto

lemma CancelWorkload_wf:
  assumes wf: "wf_store 0 s" and r: "CancelWorkload workload_id s = (s', r)"
  shows "wf_store 0 s' \<and> (\<forall>x. r = Inl x \<longrightarrow> (\<exists>m. x = RuntimeError m)) \<and> os_reserved s' = os_reserved s"
proof (cases "workload_id = []")
  case True
  then show ?thesis using r wf by (auto simp: CancelWorkload_def)
next
  case False
  obtain s1 n where c: "fold (CancelEntry workload_id) (os_entries s) (s, 0) = (s1, n)" "wf_store n s1" "os_reserved s1 = os_reserved s"
    using Cancel_all [OF wf wf_storeD(2) [OF wf] order.refl] by blast
  have "s' = s1\<lparr>os_cancelled := os_cancelled s1 + word_of_nat n\<rparr>" "r = Inr n"
    using r c(1) False wf_count_cancelled(1) [OF c(2)] by (simp_all add: CancelWorkload_def)
  then show ?thesis using wf_count_cancelled(2) [OF c(2)] c(3) by simp
qed

subsection \<open>The store as an object\<close>

text \<open>An object whose calls also answer only what is promised.\<close>

locale answering_object = guarded_object exec inv
  for exec :: "'s \<Rightarrow> 'op \<Rightarrow> 's \<times> 'out"
    and inv :: "'s \<Rightarrow> bool" +
  fixes promised :: "'out \<Rightarrow> bool"
  assumes exec_promised: "inv s \<Longrightarrow> promised (snd (exec s x))"
begin

lemma run_promised: "inv s \<Longrightarrow> list_all promised (snd (run exec s xs))"
proof (induction xs arbitrary: s)
  case (Cons x xs)
  then show ?case using Cons.IH [OF exec_inv [OF Cons.prems, of x]] exec_promised [OF Cons.prems, of x]
    by (simp add: split_def Let_def)
qed simp

end

text \<open>The store, the load confirmations and the reservations that its clients hold.\<close>

type_synonym observation_state = "(TransactionObservationStore \<times> load_heap) \<times> ObservationReservation list"

datatype observation_op =
    ReserveOp nat
  | CommitOp nat "TrackedTransaction list" "string list"
  | ReleaseOp nat
  | MoveAssignOp nat nat
  | TrackSetOp "TrackedTransaction list" "string list"
  | CancelWorkloadOp string
  | RecordOp string string bool bool

fun observation_exec :: "observation_state \<Rightarrow> observation_op \<Rightarrow> observation_state \<times> unit result" where
  "observation_exec ((store, heap), held) (ReserveOp n) =
     (let (store, r) = TryReserve n store in
      (((store, heap), held @ (case r of Inr (Some reservation) \<Rightarrow> [reservation] | _ \<Rightarrow> [])), map_sum id (\<lambda>_. ()) r))"
| "observation_exec ((store, heap), held) (CommitOp h transactions required_node_ids) =
     (if h < length held
      then let ((store, reservation), r) = Commit transactions required_node_ids (held ! h) store in
        (((store, heap), held[h := reservation]), r)
      else (((store, heap), held), Inr ()))"
| "observation_exec ((store, heap), held) (ReleaseOp h) =
     (if h < length held
      then case Release (held ! h) store of
          Inl e \<Rightarrow> (((store, heap), held), Inl e)
        | Inr (store, reservation) \<Rightarrow> (((store, heap), held[h := reservation]), Inr ())
      else (((store, heap), held), Inr ()))"
| "observation_exec ((store, heap), held) (MoveAssignOp h other) =
     (if h < length held \<and> other < length held \<and> h \<noteq> other
      then case MoveAssign (held ! h) (held ! other) store of
          Inl e \<Rightarrow> (((store, heap), held), Inl e)
        | Inr (store, reservation, moved) \<Rightarrow> (((store, heap), held[h := reservation, other := moved]), Inr ())
      else (((store, heap), held), Inr ()))"
| "observation_exec ((store, heap), held) (TrackSetOp transactions required_node_ids) =
     (let (store, r) = TrackSet transactions required_node_ids store in (((store, heap), held), r))"
| "observation_exec ((store, heap), held) (CancelWorkloadOp workload_id) =
     (let (store, r) = CancelWorkload workload_id store in (((store, heap), held), map_sum id (\<lambda>_. ()) r))"
| "observation_exec ((store, heap), held) (RecordOp txid node_id visible confirmed) =
     (let (state, r) = Record txid node_id visible confirmed (store, heap) in ((state, held), map_sum id (\<lambda>_. ()) r))"

definition held_size :: "ObservationReservation \<Rightarrow> nat" where
  "held_size reservation = (if or_active reservation then or_size reservation else 0)"

definition observation_inv :: "observation_state \<Rightarrow> bool" where
  "observation_inv state \<longleftrightarrow> wf_store 0 (fst (fst state)) \<and>
     os_reserved (fst (fst state)) = sum_list (map held_size (snd state))"

text \<open>A call returns or throws \<open>std::runtime_error\<close>: no \<open>std::terminate\<close> and no dangling iterator.\<close>

definition orderly :: "unit result \<Rightarrow> bool" where
  "orderly r \<longleftrightarrow> (case r of Inr _ \<Rightarrow> True | Inl (RuntimeError m) \<Rightarrow> True | _ \<Rightarrow> False)"

lemma orderly_iff: "orderly r \<longleftrightarrow> (\<forall>x. r = Inl x \<longrightarrow> (\<exists>m. x = RuntimeError m))"
  by (auto simp: orderly_def split: sum.splits exn.splits)

lemma orderly_map: "orderly (map_sum id (\<lambda>_. ()) r) \<longleftrightarrow> (\<forall>x. r = Inl x \<longrightarrow> (\<exists>m. x = RuntimeError m))"
  by (cases r) (simp_all add: orderly_iff)

lemma accounting_failure:
  "RecordPropagated confirmed s = (s', Inl e) \<Longrightarrow> \<exists>m. e = RuntimeError m"
  "RecordConfirmed s = (s', Inl e) \<Longrightarrow> \<exists>m. e = RuntimeError m"
  by (auto simp: RecordPropagated_def RecordConfirmed_def step_defs require_def CounterOverflow_def split: if_splits prod.splits)

lemma RecordObservation_failure: "RecordObservation key confirmed state = (state', Inl e) \<Longrightarrow> \<exists>m. e = RuntimeError m"
  by (cases state) (auto simp: RecordObservation_eq Let_def split: if_splits prod.splits sum.splits dest: accounting_failure)

lemma marks_reserved:
  "MarkVisible address node_id entry s = (s', r1) \<Longrightarrow> os_reserved s' = os_reserved s"
  "ConfirmIf confirmed address node_id entry s = (s', r1) \<Longrightarrow> os_reserved s' = os_reserved s"
  "RetireConfirmed address entry s = (s', r2) \<Longrightarrow> os_reserved s' = os_reserved s"
  by (auto simp: MarkVisible_def ConfirmIf_def MarkConfirmed_def RetireConfirmed_def Let_def split: if_splits sum.splits)

lemma RecordEntry_reserved:
  "RecordEntry txid node_id confirmed s = (s', r) \<Longrightarrow> os_reserved s' = os_reserved s"
  by (auto simp: RecordEntry_def RecordFound_def split: option.splits if_splits prod.splits sum.splits dest!: marks_reserved)

lemma Record_wf:
  assumes wf: "wf_store 0 s" and r: "Record txid node_id visible confirmed (s, heap) = ((s', heap'), r)"
  shows "wf_store 0 s' \<and> os_reserved s' = os_reserved s \<and> (\<forall>x. r = Inl x \<longrightarrow> (\<exists>m. x = RuntimeError m))"
proof (cases visible)
  case False
  then show ?thesis using r wf by (auto simp: Record_def split: if_splits)
next
  case True
  obtain s1 r1 where e: "RecordEntry txid node_id confirmed s = (s1, r1)" by fastforce
  have keep: "wf_store 0 s1 \<and> os_reserved s1 = os_reserved s \<and> (\<forall>x. r1 = Inl x \<longrightarrow> (\<exists>m. x = RuntimeError m))"
    using RecordEntry_wf [OF wf e] RecordEntry_reserved [OF e] by blast
  show ?thesis
  proof (cases r1)
    case (Inl x)
    then show ?thesis using r True e keep by (auto simp: Record_def)
  next
    case (Inr tc)
    obtain transition c where 1: "r1 = Inr (transition, c)" using Inr by (cases tc) simp
    show ?thesis
    proof (cases c)
      case None
      then show ?thesis using r True e 1 keep by (auto simp: Record_def)
    next
      case (Some a)
      obtain st progress where o: "RecordObservation (txid, node_id) confirmed (lh_confirmation heap a, lh_counters heap (lh_accounting heap a)) = (st, progress)"
        by fastforce
      then show ?thesis using r True e 1 Some keep RecordObservation_failure [of "(txid, node_id)" confirmed]
        by (cases st; cases progress) (auto simp: Record_def Let_def)
    qed
  qed
qed

lemma held_update:
  assumes "h < length held"
  shows "sum_list (map held_size (held[h := reservation])) = sum_list (map held_size held) - held_size (held ! h) + held_size reservation"
    "held_size (held ! h) \<le> sum_list (map held_size held)"
proof -
  have mem: "held_size (held ! h) \<in> set (map held_size held)" using assms by simp
  show le: "held_size (held ! h) \<le> sum_list (map held_size held)" by (rule member_le_sum_list [OF mem]) simp
  show "sum_list (map held_size (held[h := reservation])) = sum_list (map held_size held) - held_size (held ! h) + held_size reservation"
    using assms le by (simp add: map_update sum_list_update)
qed

lemma MoveAssign_held:
  assumes wf: "wf_store 0 s" and reserved: "os_reserved s = sum_list (map held_size held)"
    and h: "h < length held" "other < length held" "h \<noteq> other"
  shows "\<exists>s' reservation moved. MoveAssign (held ! h) (held ! other) s = Inr (s', reservation, moved) \<and> wf_store 0 s' \<and>
    os_reserved s' = sum_list (map held_size (held[h := reservation, other := moved]))"
proof -
  have "or_active (held ! h) \<longrightarrow> or_size (held ! h) \<le> os_reserved s"
    using held_update(2) [OF h(1)] reserved by (cases "or_active (held ! h)") (simp_all add: held_size_def [of "held ! h"])
  from Release_wf [OF wf this] obtain s' released where rel: "Release (held ! h) s = Inr (s', released)" "wf_store 0 s'"
    "os_reserved s' = os_reserved s - held_size (held ! h)" by (auto simp: held_size_def)
  have move: "MoveAssign (held ! h) (held ! other) s = Inr (s', held ! other, inactive)"
    by (simp add: MoveAssign_def MoveReservation_def rel(1))
  let ?held = "held[h := held ! other]"
  have other: "other < length ?held" "?held ! other = held ! other" using h by simp_all
  have "held_size inactive = 0" by (simp add: held_size_def inactive_def)
  then have "sum_list (map held_size (?held[other := inactive])) = sum_list (map held_size held) - held_size (held ! h)"
    using held_update(1) [OF h(1), of "held ! other"] held_update(1) [OF other(1), of inactive] other(2) by simp
  then show ?thesis using move rel(2,3) reserved by (intro exI [of _ s'] exI [of _ "held ! other"] exI [of _ inactive]) simp
qed

lemma observation_step:
  assumes "observation_inv state"
  shows "observation_inv (fst (observation_exec state op)) \<and> orderly (snd (observation_exec state op))"
proof -
  obtain s heap held where state: "state = ((s, heap), held)" by (metis prod.exhaust)
  have wf: "wf_store 0 s" and reserved: "os_reserved s = sum_list (map held_size held)"
    using assms by (simp_all add: observation_inv_def state)
  show ?thesis
  proof (cases op)
    case (ReserveOp n)
    obtain s' r where t: "TryReserve n s = (s', r)" by fastforce
    from TryReserve_wf [OF wf t] show ?thesis
      using reserved by (auto simp: observation_inv_def state ReserveOp t orderly_map held_size_def split: sum.splits option.splits)
  next
    case (CommitOp h transactions required_node_ids)
    show ?thesis
    proof (cases "h < length held")
      case True
      obtain s' reservation r where c: "Commit transactions required_node_ids (held ! h) s = ((s', reservation), r)" by (metis prod.exhaust)
      have "os_reserved s' = sum_list (map held_size (held[h := reservation]))"
        using Commit_wf [OF wf c] reserved held_update(1) [OF True, of reservation] held_update(2) [OF True]
        by (cases "r = Inr ()") (auto simp: committed_def held_size_def inactive_def)
      then show ?thesis using Commit_wf [OF wf c] True
        by (simp add: observation_inv_def state CommitOp c orderly_iff committed_def)
    qed (use wf reserved in \<open>simp add: observation_inv_def state CommitOp orderly_iff\<close>)
  next
    case (ReleaseOp h)
    show ?thesis
    proof (cases "h < length held")
      case True
      have "or_active (held ! h) \<longrightarrow> or_size (held ! h) \<le> os_reserved s"
        using held_update(2) [OF True] reserved by (cases "or_active (held ! h)") (simp_all add: held_size_def [of "held ! h"])
      from Release_wf [OF wf this] obtain s' reservation where rel: "Release (held ! h) s = Inr (s', reservation)" "wf_store 0 s'"
        "\<not> or_active reservation" "os_reserved s' = os_reserved s - held_size (held ! h)" by (auto simp: held_size_def)
      then show ?thesis using True reserved held_update(1) [OF True, of reservation] held_update(2) [OF True]
        by (simp add: observation_inv_def state ReleaseOp orderly_iff held_size_def [of reservation])
    qed (use wf reserved in \<open>simp add: observation_inv_def state ReleaseOp orderly_iff\<close>)
  next
    case (MoveAssignOp h other)
    show ?thesis
    proof (cases "h < length held \<and> other < length held \<and> h \<noteq> other")
      case True
      then obtain s' reservation moved where "MoveAssign (held ! h) (held ! other) s = Inr (s', reservation, moved)" "wf_store 0 s'"
        "os_reserved s' = sum_list (map held_size (held[h := reservation, other := moved]))"
        using MoveAssign_held [OF wf reserved] by blast
      then show ?thesis using True by (simp add: observation_inv_def state MoveAssignOp orderly_iff)
    qed (use wf reserved in \<open>auto simp: observation_inv_def state MoveAssignOp orderly_iff\<close>)
  next
    case (TrackSetOp transactions required_node_ids)
    obtain s' r where t: "TrackSet transactions required_node_ids s = (s', r)" by fastforce
    from TrackSet_wf [OF wf t] show ?thesis using reserved by (simp add: observation_inv_def state TrackSetOp t orderly_iff)
  next
    case (CancelWorkloadOp workload_id)
    obtain s' r where t: "CancelWorkload workload_id s = (s', r)" by fastforce
    from CancelWorkload_wf [OF wf t] show ?thesis using reserved by (simp add: observation_inv_def state CancelWorkloadOp t orderly_map)
  next
    case (RecordOp txid node_id visible confirmed)
    obtain s' heap' r where t: "Record txid node_id visible confirmed (s, heap) = ((s', heap'), r)" by (metis prod.exhaust)
    from Record_wf [OF wf t] show ?thesis using reserved by (simp add: observation_inv_def state RecordOp t orderly_map)
  qed
qed

interpretation observation: answering_object observation_exec observation_inv orderly
  by unfold_locales (use observation_step in blast)+

text \<open>C39. Clients of the observation store may reserve, commit, release, move, track, cancel and record in any order:
  every call returns or throws \<open>std::runtime_error\<close>, so releasing a reservation never terminates the program
  and the index never refers to an erased entry; the reserved amount is what the clients hold; entries and
  reservations together never exceed the capacity; index and list agree; a transaction is active or
  remembered as retired but never both; and of the transactions tracked each is active, retired or
  cancelled, so that the counts of those never overflow.\<close>

theorem observation_store_safe:
  assumes "new_TransactionObservationStore capacity = Inr store" "capacity < 2 ^ 64"
  shows "observation_inv (fst (run observation_exec ((store, heap), []) ops)) \<and>
    list_all orderly (snd (run observation_exec ((store, heap), []) ops))"
proof -
  have "observation_inv ((store, heap), [])"
    using assms by (auto simp: new_TransactionObservationStore_def observation_inv_def wf_store_def split: if_splits)
  then show ?thesis using observation.run_inv observation.run_promised by blast
qed

definition example_transaction :: TrackedTransaction where
  "example_transaction = \<lparr>tt_txid = ''t'', tt_submission_kind = ''load'', tt_workload_id = ''w'', tt_workload_index = 1,
     tt_workload_count = 1, tt_transaction_index = 1, tt_transaction_count = None, tt_transaction_rate = None,
     tt_txid_index = 1, tt_submission_node = 1, tt_load_confirmation = None\<rparr>"

definition example_store :: TransactionObservationStore where
  "example_store = \<lparr>os_capacity = 4, os_next_address = 0, os_entries = [], os_entries_by_txid = Map.empty, os_reserved = 0,
     os_recent_retired = [], os_recent_retired_index = {}, os_maximum_active = 0, os_maximum_retained = 0,
     os_tracked = 0, os_retired = 0, os_cancelled = 0, os_rejected = 0, os_visibility_transitions = 0,
     os_confirmation_transitions = 0\<rparr>"

definition example_heap :: load_heap where
  "example_heap = \<lparr>lh_confirmation = (\<lambda>_. \<lparr>lc_expected_observations = {}, lc_visible_observations = {},
     lc_confirmed_observations = {}, lc_propagation_recorded = False, lc_confirmation_recorded = False\<rparr>),
     lh_accounting = id, lh_counters = (\<lambda>_. EmptySnapshot)\<rparr>"

theorem observation_store_safe_witness:
  "new_TransactionObservationStore 4 = Inr example_store \<and>
   observation_inv (fst (run observation_exec ((example_store, example_heap), [])
     [ReserveOp 2, TrackSetOp [example_transaction] [''n1''], RecordOp ''t'' ''n1'' True True, ReleaseOp 0]))"
proof -
  have new: "new_TransactionObservationStore 4 = Inr example_store"
    by (simp add: new_TransactionObservationStore_def example_store_def)
  have "(4 :: nat) < 2 ^ 64" by simp
  from observation_store_safe [OF new this] new show ?thesis by blast
qed

subsection \<open>The store as a map of pending transactions\<close>

text \<open>What the store is to its clients: the entry of each transaction that is still to be observed.\<close>

definition pending :: "TransactionObservationStore \<Rightarrow> string \<rightharpoonup> Entry" where
  "pending s txid = (case os_entries_by_txid s txid of None \<Rightarrow> None | Some address \<Rightarrow> map_of (os_entries s) address)"

definition observe :: "string \<Rightarrow> bool \<Rightarrow> Entry \<Rightarrow> Entry" where
  "observe node_id confirmed entry = entry\<lparr>en_visible_node_ids := insert node_id (en_visible_node_ids entry),
     en_confirmed_node_ids := (if confirmed then insert node_id (en_confirmed_node_ids entry) else en_confirmed_node_ids entry)\<rparr>"

lemma index_injective:
  assumes "wf_store k s" "os_entries_by_txid s t = Some a" "os_entries_by_txid s t' = Some a"
  shows "t = t'"
proof -
  obtain e where "map_of (os_entries s) a = Some e" "txid_of e = t" using wf_store_entry [OF assms(1,2)] by metis
  moreover obtain e' where "map_of (os_entries s) a = Some e'" "txid_of e' = t'" using wf_store_entry [OF assms(1,3)] by metis
  ultimately show ?thesis by simp
qed

lemma pending_set_entry:
  assumes wf: "wf_store k s" and t: "os_entries_by_txid s txid = Some a" and e: "map_of (os_entries s) a = Some e"
    and s': "os_entries_by_txid s' = os_entries_by_txid s" "os_entries s' = set_entry a e' (os_entries s)"
  shows "pending s' = (pending s)(txid \<mapsto> e')"
proof
  fix t'
  show "pending s' t' = ((pending s)(txid \<mapsto> e')) t'"
  proof (cases "os_entries_by_txid s t'")
    case None
    then show ?thesis using t by (auto simp: pending_def s')
  next
    case (Some b)
    show ?thesis
    proof (cases "b = a")
      case True
      then have "t' = txid" using index_injective [OF wf] Some t by blast
      then show ?thesis using True Some map_of_set_entry [OF e, of e'] by (simp add: pending_def s')
    next
      case False
      then have "t' \<noteq> txid" using Some t by auto
      then show ?thesis using Some False by (simp add: pending_def s' map_of_set_entry_other)
    qed
  qed
qed

lemma map_of_filter_other: "b \<noteq> a \<Longrightarrow> map_of (filter (\<lambda>p. fst p \<noteq> a) entries) b = map_of entries b"
  by (induction entries) auto

lemma pending_erase:
  assumes wf: "wf_store k s" and t: "os_entries_by_txid s txid = Some a"
    and s': "os_entries_by_txid s' = (os_entries_by_txid s)(txid := None)" "os_entries s' = filter (\<lambda>p. fst p \<noteq> a) (os_entries s)"
  shows "pending s' = (pending s)(txid := None)"
proof
  fix t'
  show "pending s' t' = ((pending s)(txid := None)) t'"
  proof (cases "t' = txid")
    case False
    have "b \<noteq> a" if "os_entries_by_txid s t' = Some b" for b using index_injective [OF wf t] that False by blast
    then show ?thesis using False by (auto simp: pending_def s' map_of_filter_other split: option.splits)
  qed (simp add: pending_def s')
qed

lemma CheckedAdd_one: "v \<noteq> max_u64 \<Longrightarrow> CheckedAdd 1 field_name v = Inr (v + 1)"
proof (rule CheckedAdd_fits)
  assume "v \<noteq> max_u64"
  then have "unat v \<noteq> 18446744073709551615" using u64_max by (metis word_unat_eq_iff)
  then show "unat v + unat (1 :: u64) < 2 ^ 64" using u64_lt [of v] unfolding two_to_64 unat_1 by linarith
qed

lemma MarkVisible_returns:
  assumes "os_visibility_transitions s \<noteq> max_u64"
  obtains s' where "MarkVisible a n e s = (s', Inr (e\<lparr>en_visible_node_ids := insert n (en_visible_node_ids e)\<rparr>, n \<notin> en_visible_node_ids e))"
    "os_entries_by_txid s' = os_entries_by_txid s" "os_confirmation_transitions s' = os_confirmation_transitions s"
    "os_entries s' = set_entry a (e\<lparr>en_visible_node_ids := insert n (en_visible_node_ids e)\<rparr>) (os_entries s)"
proof -
  let ?e = "e\<lparr>en_visible_node_ids := insert n (en_visible_node_ids e)\<rparr>"
  let ?s = "s\<lparr>os_entries := set_entry a ?e (os_entries s)\<rparr>"
  let ?s' = "if n \<in> en_visible_node_ids e then ?s else ?s\<lparr>os_visibility_transitions := os_visibility_transitions s + 1\<rparr>"
  have "MarkVisible a n e s = (?s', Inr (?e, n \<notin> en_visible_node_ids e))"
    using CheckedAdd_one [OF assms] by (simp add: MarkVisible_def Let_def)
  then show thesis by (rule that) simp_all
qed

lemma ConfirmIf_returns:
  assumes "os_confirmation_transitions s \<noteq> max_u64" "e' = (if confirmed then e\<lparr>en_confirmed_node_ids := insert n (en_confirmed_node_ids e)\<rparr> else e)"
  obtains s' where "ConfirmIf confirmed a n e s = (s', Inr (e', confirmed \<and> n \<notin> en_confirmed_node_ids e))"
    "os_entries_by_txid s' = os_entries_by_txid s" "confirmed \<Longrightarrow> os_entries s' = set_entry a e' (os_entries s)"
    "\<not> confirmed \<Longrightarrow> os_entries s' = os_entries s"
proof (cases confirmed)
  case True
  let ?s = "s\<lparr>os_entries := set_entry a e' (os_entries s)\<rparr>"
  let ?s' = "if n \<in> en_confirmed_node_ids e then ?s else ?s\<lparr>os_confirmation_transitions := os_confirmation_transitions s + 1\<rparr>"
  have "ConfirmIf confirmed a n e s = (?s', Inr (e', confirmed \<and> n \<notin> en_confirmed_node_ids e))"
    using CheckedAdd_one [OF assms(1)] assms(2) True by (simp add: ConfirmIf_def MarkConfirmed_def Let_def)
  then show thesis by (rule that) (simp_all add: True)
next
  case False
  then have "ConfirmIf confirmed a n e s = (s, Inr (e', confirmed \<and> n \<notin> en_confirmed_node_ids e))"
    using assms(2) by (simp add: ConfirmIf_def)
  then show thesis by (rule that) (simp_all add: False)
qed

text \<open>The two marks together enter the observation.\<close>

lemma observed_entry:
  assumes wf: "wf_store 0 s" and t: "os_entries_by_txid s txid = Some a" and e: "map_of (os_entries s) a = Some e"
    and n: "n \<in> en_required_node_ids e" and nv: "os_visibility_transitions s \<noteq> max_u64" and nc: "os_confirmation_transitions s \<noteq> max_u64"
  obtains s1 s2 e1 where
    "MarkVisible a n e s = (s1, Inr (e1, n \<notin> en_visible_node_ids e))"
    "ConfirmIf confirmed a n e1 s1 = (s2, Inr (observe n confirmed e, confirmed \<and> n \<notin> en_confirmed_node_ids e))"
    "wf_store 0 s2" "map_of (os_entries s2) a = Some (observe n confirmed e)" "os_entries_by_txid s2 = os_entries_by_txid s"
    "pending s2 = (pending s)(txid \<mapsto> observe n confirmed e)"
proof -
  let ?e = "e\<lparr>en_visible_node_ids := insert n (en_visible_node_ids e)\<rparr>"
  obtain s1 where 1: "MarkVisible a n e s = (s1, Inr (?e, n \<notin> en_visible_node_ids e))"
    "os_entries_by_txid s1 = os_entries_by_txid s" "os_confirmation_transitions s1 = os_confirmation_transitions s"
    "os_entries s1 = set_entry a ?e (os_entries s)" by (rule MarkVisible_returns [OF nv])
  note V = MarkVisible_wf [OF wf e n 1(1)]
  have e1: "map_of (os_entries s1) a = Some ?e" using V(2) [OF refl] by blast
  have p1: "pending s1 = (pending s)(txid \<mapsto> ?e)" by (rule pending_set_entry [OF wf t e 1(2,4)])
  have obs: "observe n confirmed e = (if confirmed then ?e\<lparr>en_confirmed_node_ids := insert n (en_confirmed_node_ids ?e)\<rparr> else ?e)"
    by (simp add: observe_def)
  have nc1: "os_confirmation_transitions s1 \<noteq> max_u64" using nc 1(3) by simp
  obtain s2 where 2: "ConfirmIf confirmed a n ?e s1 = (s2, Inr (observe n confirmed e, confirmed \<and> n \<notin> en_confirmed_node_ids ?e))"
    "os_entries_by_txid s2 = os_entries_by_txid s1" "confirmed \<Longrightarrow> os_entries s2 = set_entry a (observe n confirmed e) (os_entries s1)"
    "\<not> confirmed \<Longrightarrow> os_entries s2 = os_entries s1"
    using ConfirmIf_returns [OF nc1 obs, of a] by blast
  have "n \<in> en_visible_node_ids ?e" by simp
  note C = ConfirmIf_wf [OF V(1) e1 this 2(1)]
  have t1: "os_entries_by_txid s1 txid = Some a" using t 1(2) by simp
  have "pending s2 = (pending s)(txid \<mapsto> observe n confirmed e)"
  proof (cases confirmed)
    case True
    then show ?thesis using pending_set_entry [OF V(1) t1 e1 2(2) 2(3) [OF True]] p1 by simp
  next
    case False
    have "pending s2 = pending s1" unfolding pending_def 2(2) 2(4) [OF False] ..
    then show ?thesis using p1 obs False by simp
  qed
  moreover have "map_of (os_entries s2) a = Some (observe n confirmed e)" using C(2) [OF refl] by blast
  ultimately show thesis using that [OF 1(1) _ C(1)] 2(1,2) 1(2) by simp
qed

lemma retired_entry:
  assumes wf: "wf_store 0 s" and e: "map_of (os_entries s) a = Some e" and t: "os_entries_by_txid s (txid_of e) = Some a"
  obtains s' where "RetireConfirmed a e s = (s', Inr (en_required_node_ids e \<subseteq> en_confirmed_node_ids e))" "wf_store 0 s'"
    "pending s' = (if en_required_node_ids e \<subseteq> en_confirmed_node_ids e then (pending s)(txid_of e := None) else pending s)"
    "en_required_node_ids e \<subseteq> en_confirmed_node_ids e \<Longrightarrow> txid_of e \<in> os_recent_retired_index s'"
proof -
  have "entry_ok e" using wf_storeD(3) [OF wf map_of_SomeD [OF e]] by blast
  then have full: "card (en_confirmed_node_ids e) = card (en_required_node_ids e) \<longleftrightarrow> en_required_node_ids e \<subseteq> en_confirmed_node_ids e"
    by (metis card_subset_eq entry_ok_def order.trans order.antisym order.refl)
  obtain s' where s': "RetireConfirmed a e s = (s', Inr (en_required_node_ids e \<subseteq> en_confirmed_node_ids e))" "wf_store 0 s'"
    and change: "if en_required_node_ids e \<subseteq> en_confirmed_node_ids e
      then os_entries s' = filter (\<lambda>p. fst p \<noteq> a) (os_entries s) \<and>
        os_entries_by_txid s' = (os_entries_by_txid s)(txid_of e := None) \<and> txid_of e \<in> os_recent_retired_index s'
      else s' = s"
    using RetireConfirmed_wf [OF wf e] unfolding full by blast
  have "pending s' = (pending s)(txid_of e := None)" if "en_required_node_ids e \<subseteq> en_confirmed_node_ids e"
    using change that by (intro pending_erase [OF wf t]) simp_all
  then show ?thesis using that [OF s'] change by (auto split: if_splits)
qed

text \<open>C40. Recording an observation of a well-formed store does to the pending transactions what the
  store promises, as long as the two transition counters have room: an unknown transaction changes
  nothing; a node that is not required is refused without a change; otherwise the node is entered as
  having seen, and if so confirmed, the transaction, the answer says which of that was new, and the
  transaction leaves the pending ones, to be remembered as retired, exactly when every required node has
  confirmed it.\<close>

theorem record_refines_pending:
  assumes wf: "wf_store 0 s" and nv: "os_visibility_transitions s \<noteq> max_u64" and nc: "os_confirmation_transitions s \<noteq> max_u64"
  shows "case pending s txid of
      None \<Rightarrow> RecordEntry txid n confirmed s = (s, Inr (no_transition, None))
    | Some e \<Rightarrow>
      if n \<notin> en_required_node_ids e
      then RecordEntry txid n confirmed s = (s, Inl (RuntimeError (''transaction observation used unexpected node: '' @ n)))
      else let finished = (en_required_node_ids e \<subseteq> en_confirmed_node_ids (observe n confirmed e)) in
        \<exists>s'. RecordEntry txid n confirmed s =
            (s', Inr (\<lparr>ot_tracked = True, ot_first_visible = (n \<notin> en_visible_node_ids e),
              ot_first_confirmed = (confirmed \<and> n \<notin> en_confirmed_node_ids e), ot_retired = finished, ot_load_progress = None\<rparr>,
              tt_load_confirmation (en_transaction e))) \<and>
          wf_store 0 s' \<and> pending s' = (pending s)(txid := if finished then None else Some (observe n confirmed e)) \<and>
          (finished \<longrightarrow> txid \<in> os_recent_retired_index s')"
proof (cases "os_entries_by_txid s txid")
  case None
  then show ?thesis by (simp add: pending_def RecordEntry_def)
next
  case (Some a)
  obtain e where e: "map_of (os_entries s) a = Some e" "(a, e) \<in> set (os_entries s)" "txid_of e = txid" by (rule wf_store_entry [OF wf Some])
  have p: "pending s txid = Some e" using Some e(1) by (simp add: pending_def)
  show ?thesis
  proof (cases "n \<in> en_required_node_ids e")
    case False
    then show ?thesis using Some e(1) by (simp add: p RecordEntry_def)
  next
    case True
    let ?e = "observe n confirmed e"
    obtain s1 s2 e1 where r: "MarkVisible a n e s = (s1, Inr (e1, n \<notin> en_visible_node_ids e))"
      "ConfirmIf confirmed a n e1 s1 = (s2, Inr (?e, confirmed \<and> n \<notin> en_confirmed_node_ids e))"
      "wf_store 0 s2" "map_of (os_entries s2) a = Some ?e" "os_entries_by_txid s2 = os_entries_by_txid s"
      "pending s2 = (pending s)(txid \<mapsto> ?e)"
      by (rule observed_entry [OF wf Some e(1) True nv nc])
    have same: "txid_of ?e = txid" "en_required_node_ids ?e = en_required_node_ids e"
      "tt_load_confirmation (en_transaction ?e) = tt_load_confirmation (en_transaction e)" using e(3) by (simp_all add: observe_def)
    have "os_entries_by_txid s2 (txid_of ?e) = Some a" using Some r(5) same(1) by simp
    then obtain s3 where s3: "RetireConfirmed a ?e s2 = (s3, Inr (en_required_node_ids e \<subseteq> en_confirmed_node_ids ?e))"
      "wf_store 0 s3" "pending s3 = (if en_required_node_ids e \<subseteq> en_confirmed_node_ids ?e then (pending s2)(txid := None) else pending s2)"
      "en_required_node_ids e \<subseteq> en_confirmed_node_ids ?e \<Longrightarrow> txid \<in> os_recent_retired_index s3"
      using retired_entry [OF r(3,4)] unfolding same(1,2) by metis
    have "RecordEntry txid n confirmed s = RecordFound a n confirmed e s" using Some e(1) True by (simp add: RecordEntry_def)
    then show ?thesis using p True s3 r(1,2,6) same(3) by (simp add: RecordFound_def Let_def)
  qed
qed

definition tracked_entry :: Entry where
  "tracked_entry = \<lparr>en_transaction = example_transaction, en_required_node_ids = {''n1''}, en_visible_node_ids = {},
     en_confirmed_node_ids = {}\<rparr>"

lemma example_store_wf: "wf_store 0 example_store"
  by (simp add: wf_store_def example_store_def)

lemma example_tracked:
  "TrackSet [example_transaction] [''n1''] example_store =
     (example_store\<lparr>os_next_address := 1, os_entries := [(0, tracked_entry)], os_entries_by_txid := [''t'' \<mapsto> 0],
        os_maximum_active := 1, os_maximum_retained := 1, os_tracked := 1\<rparr>, Inr ())"
  by (simp add: TrackSet_def Reserve_def TryReserve_def Commit_def CommitReservation_def CheckRequired_def require_def
      StageTransaction_def PublishStaged_eq duplicates_def CheckedAdd_def Release_def inactive_def example_store_def
      example_transaction_def tracked_entry_def Let_def)

theorem record_refines_pending_witness:
  "let s = fst (TrackSet [example_transaction] [''n1''] example_store) in
     pending s ''t'' = Some tracked_entry \<and>
     (\<exists>s'. RecordEntry ''t'' ''n1'' True s =
        (s', Inr (\<lparr>ot_tracked = True, ot_first_visible = True, ot_first_confirmed = True, ot_retired = True, ot_load_progress = None\<rparr>, None)) \<and>
        pending s' ''t'' = None)"
proof -
  define s where "s = fst (TrackSet [example_transaction] [''n1''] example_store)"
  have wf: "wf_store 0 s" using TrackSet_wf [OF example_store_wf example_tracked] by (simp add: example_tracked s_def)
  have counters: "os_visibility_transitions s \<noteq> max_u64" "os_confirmation_transitions s \<noteq> max_u64"
    unfolding s_def example_tracked by (simp_all add: example_store_def)
  have p: "pending s ''t'' = Some tracked_entry" by (simp add: pending_def example_tracked s_def)
  have e: "en_required_node_ids tracked_entry = {''n1''}" "en_visible_node_ids tracked_entry = {}" "en_confirmed_node_ids tracked_entry = {}"
    "en_confirmed_node_ids (observe ''n1'' True tracked_entry) = {''n1''}" "tt_load_confirmation (en_transaction tracked_entry) = None"
    by (simp_all add: tracked_entry_def observe_def example_transaction_def)
  from record_refines_pending [OF wf counters, of "''t''" "''n1''" True]
  have "\<exists>s'. RecordEntry ''t'' ''n1'' True s =
      (s', Inr (\<lparr>ot_tracked = True, ot_first_visible = True, ot_first_confirmed = True, ot_retired = True, ot_load_progress = None\<rparr>, None)) \<and>
      wf_store 0 s' \<and> pending s' = (pending s)(''t'' := None) \<and> ''t'' \<in> os_recent_retired_index s'"
    unfolding p option.case e Let_def by simp
  then show ?thesis unfolding s_def [symmetric] Let_def using p by (metis fun_upd_same)
qed

end
