(* ===== verification/Spec2Isabelle.thy ===== *)
theory Spec2Isabelle
  imports BBP_Prelude Address_Plan Topology_Remap Role_Registry Balance_Ledger Observation_Store
begin

text \<open>
  Verification of the core of the blockchain benchmark program (BBP).

  \<^bold>\<open>The program.\<close> BBP starts real blockchain daemons, each in a network namespace and a control group of
  its own, connects them by a peer topology with artificial network conditions, drives them with workloads
  (blocks, wallet transactions) and lets an operator, a scenario file or a control server change the running
  simulation. Its decisions are taken by C++ classes without I/O of their own; the rest of the program decodes
  their input, carries their output to the kernel and to the daemons, and reports. The development models those
  classes:

  \<^item> The address plan gives every node a /31 link of a private pool, around the routes and interfaces of the
    host (\<open>src/simulation_network_address_plan.cpp\<close>).
  \<^item> The peer topology turns a configuration into edges between nodes; the runtime topology holds their state
    while the simulation runs and hands each node the traffic-control policies of its edges; both follow when
    nodes are removed (\<open>src/default_peer_topology.cpp\<close>, \<open>src/runtime_peer_topology.cpp\<close>, \<open>src/network.cpp\<close>).
  \<^item> The registry of roles says which nodes are wallets, miners and masternodes. It is published in generations,
    and follows when nodes are removed (\<open>src/simulation_registry.cpp\<close>, \<open>src/runtime_wallet_registry.cpp\<close>).
  \<^item> Commands pass their checks and a bounded queue before the simulation loop executes them, under a control
    block that decides between cancelling and committing (\<open>src/simulation_command.cpp\<close>,
    \<open>src/simulation_command_queue.cpp\<close>, \<open>src/process_signal.cpp\<close>, \<open>src/resource_limit_patch.cpp\<close>).
  \<^item> A transaction load plans transfers, reserves their cost in a ledger of balances, queues them as tasks that
    are due at a rate, counts their outcomes, and tracks each submitted transaction until every required node
    has seen it (\<open>src/wallet_transaction_plan.cpp\<close>, \<open>src/simulation_time_scale.cpp\<close>,
    \<open>src/transaction_load.cpp\<close>, \<open>src/transaction_observation_store.cpp\<close>).

  \<^bold>\<open>Conventions.\<close> Definitions keep the names of the source. A struct or a class is a record, an enum or a
  variant a datatype, an exception the left side of \<open>'a result\<close>; an operation that changes an object and may
  throw returns the object as it is left behind together with its result, so that what an exception leaves
  behind can be stated. Indexes and sizes are natural numbers, and integers whose overflow the code guards
  against or relies on are words of their width. An ordered map or set is a sorted list. A critical section of a
  mutex is one step; the atomic operations of the control block are one step each. A call that would block is a
  value. Code outside the repository is a parameter: the text functions of the address library, the random
  engine and \<open>std::shuffle\<close>, \<open>inet_pton\<close>, the signal numbers of the C library, clocks, and the callbacks
  of the ledger. Where a property needs something of such a parameter, its documented behaviour is a
  hypothesis, and the witness of the property instantiates it.

  \<^bold>\<open>Theories.\<close>

  \<^descr> \<open>BBP_Prelude\<close>: results, guarded machine arithmetic, decimal text, ordered maps, and the locales
    \<open>guarded_object\<close> (an invariant that each operation keeps holds after every run of operations) and
    \<open>fifo_object\<close> (what has left and what is held is, in order, what entered). Their interpretations below are on
    the operations of the modelled classes.
  \<^descr> \<open>Address_Plan\<close>: parsing of pools, blocked intervals, \<open>Allocate\<close>, \<open>Expanded\<close>,
    \<open>RequireNodeSlotsAvailable\<close>, \<open>ToSerialized\<close> and \<open>FromSerialized\<close>. Expansions are safe and equal a reference
    allocation that takes the free links in rotation order; allocation succeeds exactly if enough links are free
    and names the numbers otherwise; the placement check is exact; a plan survives serialisation.
  \<^descr> \<open>Network_Model\<close>: validation of network conditions and directional policies and the encoding of a condition
    for netem and tbf. The encoded values are stated exactly, with the minimum and the cut-off of burst and limit.
  \<^descr> \<open>Peer_Topology\<close>: the edge collector, every kind of topology and \<open>ResolvePeerTopologyEdges\<close>. The locale
    \<open>edge_invariant\<close> carries an invariant of the collector through every builder. Resolved edges are well formed;
    the deterministic kinds have exactly their neighbour relation; the random and the scale-free graph have the
    stated number of edges, and bounded drawing is unbiased.
  \<^descr> \<open>Runtime_Topology\<close>: \<open>RuntimePeerTopology\<close>, with bands per condition. All changes keep the invariant
    (\<open>topology_object\<close>), a change can be undone exactly, and the policies of a node pass the validation of
    \<open>Network_Model\<close>.
  \<^descr> \<open>Topology_Remap\<close>: \<open>RemapPeerTopologyConfig\<close> and the state carried over to a shrunken topology.
    For the kinds that name their nodes, resolving after the remap is remapping after the resolution.
  \<^descr> \<open>Sim_Command\<close>: kinds, role mutations, \<open>SimulationCommandControl\<close> as functions and as a transition system of
    interleaved threads, the reconciliation of a cancelled restart. Cancelling and committing exclude each other
    for threads that call the member functions (the stop source is a public member, and a one-shot workload also
    requests it directly; that is not a step), progress is the maximum reported, and the reconciliation ends at its
    first final observation with the verdict of that observation.
  \<^descr> \<open>Process_Signal\<close>, \<open>Resource_Limits\<close>: signal names and limit patches, which commands carry; round trip of
    signal names and exactness of a resolved patch.
  \<^descr> \<open>Command_Queue\<close>: payloads, validation of each command kind, \<open>SimulationCommandQueue\<close> (\<open>cq\<close>). Commands are
    delivered once, in order, numbered without gaps and checked; a closed queue drains.
  \<^descr> \<open>Role_Registry\<close>: \<open>SimulationRegistry\<close> and \<open>RuntimeWalletRegistry\<close>, with clients that hold snapshots
    (\<open>generations\<close>, a \<open>fifo_object\<close> of the published numbers) and may offer any roles at any generation. Only valid
    roles are published, a replacement is accepted exactly if its roles are valid, and changes that were computed from
    a snapshot are published with exactly their effect or refused. The locale \<open>role_contract\<close> states what the operations on
    roles keep; it is interpreted on the validity that publication checks and on the stronger one with a
    single identity per masternode node.
  \<^descr> \<open>Rate_Schedule\<close>: transaction rates and the time scale, with exact rounding and exact overflow conditions.
  \<^descr> \<open>Wallet_Plan\<close>: both transaction planners with all transfer strategies. A planner always plans valid
    transfers, and a batch never spends more than the balances.
  \<^descr> \<open>Transaction_Load\<close>: task queue (\<open>lq\<close>), accounting and confirmation. The locale \<open>recorded_object\<close> (what an object
    shows is a function of the calls made so far) gives the exactness of the counters (\<open>accounting\<close>) and that
    each call of a confirmation counts what is due, each transaction once (\<open>confirmation\<close>).
  \<^descr> \<open>Balance_Ledger\<close>: \<open>TransactionLoadBalanceReservations\<close> (\<open>ledger_object\<close>). Totals agree with the reservations
    in every reachable state; a refused batch is undone; a batch of the planner in \<open>Wallet_Plan\<close> passes every
    check of the ledger.
  \<^descr> \<open>Observation_Store\<close>: \<open>TransactionObservationStore\<close> with list nodes as addresses, so that an iterator can
    dangle in the model. The locale \<open>answering_object\<close> extends \<open>guarded_object\<close> by a promise on each answer; its
    interpretation \<open>observation\<close> shows that no iterator dangles and no consistency check ends the program.
    Recording refines an update of a map of pending transactions, and calls into \<open>Transaction_Load\<close>.

  \<^bold>\<open>Loops.\<close> No definition takes fuel. The allocation loops of the address plan and the other bounded loops
  have termination proofs. The two loops that end only with a suitable random engine, \<open>draw_at_least\<close> and
  \<open>SelectAttachments\<close>, are partial functions into \<open>option\<close>, and that they return is part of the properties about
  them. The reconciliation of a restart takes its readings of clock and processes as a list; the property about
  it says that any list that reaches the deadline is long enough.

  \<^bold>\<open>Not modelled.\<close>

  \<^item> Kernel and process I/O: namespaces, rtnetlink, nftables, control groups, spawning and signalling of processes,
    perf counters, locks on files, sockets, and the recovery and cleanup of what they left on disk. The effect of
    such a call is decided by the kernel.
  \<^item> The drivers of Bitcoin, Firo and Monero daemons and the HTTP client: remote calls whose answers the daemons
    decide.
  \<^item> The orchestration of the running simulation (\<open>src/simulator_*.cpp\<close>), which sequences such calls with threads,
    timeouts and rollbacks; the classes it takes its decisions from are the ones modelled here.
  \<^item> Decoding and printing of scenarios, reports, metrics and control-server messages with the JSON and YAML
    libraries, the terminal interface and the log panes.
  \<^item> Floating-point code: the conversion of rates and factors from \<open>double\<close>, the rates of a load snapshot, the
    probabilistic block scheduler. A \<open>double\<close> that is only carried along is a bit pattern.
  \<^item> The controller of peer connections, a thread over driver calls.
  \<^item> Timed waiting: that a blocked thread wakes up is a matter of the scheduler; what it finds when it does is
    modelled.
\<close>

end
